(* ===== verification/Prelude.thy ===== *)
theory Prelude
  imports Complex_Main "HOL-Library.AList" "HOL-Library.Word" "HOL-Library.Multiset"
    "HOL-Library.Extended_Nat"
begin

text \<open>
  Shared vocabulary of the FlowCache development: the JavaScript containers the sources use
  (\<open>Map\<close> as an insertion-ordered association list, \<open>Set\<close> as an insertion-ordered
  duplicate-free list), the collections of rewrite rules the component proofs draw on, and the
  lemmas on lists, maps and options that more than one component needs.
\<close>

section \<open>Types shared by the components\<close>

type_synonym CacheKey = string
type_synonym time = int

text \<open>
  A JavaScript \<open>Map\<close> iterates in insertion order; \<open>set\<close> on a present key keeps its
  position and \<open>set\<close> on an absent key appends.  That is exactly \<^const>\<open>AList.update\<close>, and
  \<open>delete\<close> is \<^const>\<open>AList.delete\<close>.
\<close>

type_synonym ('k, 'v) js_map = "('k \<times> 'v) list"

abbreviation js_get :: "('k, 'v) js_map \<Rightarrow> 'k \<Rightarrow> 'v option" where
  "js_get m k \<equiv> map_of m k"

abbreviation js_set :: "'k \<Rightarrow> 'v \<Rightarrow> ('k, 'v) js_map \<Rightarrow> ('k, 'v) js_map" where
  "js_set k v m \<equiv> AList.update k v m"

abbreviation js_delete :: "'k \<Rightarrow> ('k, 'v) js_map \<Rightarrow> ('k, 'v) js_map" where
  "js_delete k m \<equiv> AList.delete k m"

abbreviation js_keys :: "('k, 'v) js_map \<Rightarrow> 'k list" where
  "js_keys m \<equiv> map fst m"

abbreviation js_map_ok :: "('k, 'v) js_map \<Rightarrow> bool" where
  "js_map_ok m \<equiv> distinct (map fst m)"

definition js_has :: "('k, 'v) js_map \<Rightarrow> 'k \<Rightarrow> bool" where
  "js_has m k = (map_of m k \<noteq> None)"

text \<open>A JavaScript \<open>Set\<close>: insertion order, no duplicates.\<close>

definition set_add :: "'a \<Rightarrow> 'a list \<Rightarrow> 'a list" where
  "set_add x xs = (if x \<in> set xs then xs else xs @ [x])"

definition set_delete :: "'a \<Rightarrow> 'a list \<Rightarrow> 'a list" where
  "set_delete x xs = removeAll x xs"

section \<open>Collections of facts\<close>

named_theorems js_map_simps \<open>rewriting of the Map operations\<close>
named_theorems hook_simps \<open>unfolding of the eviction hook operations\<close>
named_theorems wf_intros \<open>preservation of well-formedness\<close>

section \<open>Lemmas on Maps and Sets\<close>

declare AList.update_conv' [js_map_simps] AList.delete_conv' [js_map_simps]

lemma js_has_iff [js_map_simps]: "js_has m k \<longleftrightarrow> k \<in> fst ` set m"
  by (simp add: js_has_def map_of_eq_None_iff)

lemma js_map_ok_set [simp, intro]: "js_map_ok m \<Longrightarrow> js_map_ok (js_set k v m)"
  by (rule AList.distinct_update)

lemma js_map_ok_delete [simp, intro]: "js_map_ok m \<Longrightarrow> js_map_ok (js_delete k m)"
  by (rule AList.distinct_delete)

lemma js_keys_set [js_map_simps]: "fst ` set (js_set k v m) = insert k (fst ` set m)"
  by (simp add: AList.dom_update)

lemma js_keys_delete [js_map_simps]: "fst ` set (js_delete k m) = fst ` set m - {k}"
  by (auto simp: AList.delete_eq)

lemma set_js_delete [js_map_simps]: "set (js_delete k m) = {p \<in> set m. fst p \<noteq> k}"
  by (auto simp: AList.delete_eq)

lemma set_js_set:
  "js_map_ok m \<Longrightarrow> set (js_set k v m) = insert (k, v) {p \<in> set m. fst p \<noteq> k}"
  by (induction m) (auto simp: rev_image_eqI)

lemma js_set_new: "k \<notin> fst ` set m \<Longrightarrow> js_set k v m = m @ [(k, v)]"
  by (induction m) auto

lemma length_js_delete:
  "js_map_ok m \<Longrightarrow> k \<in> fst ` set m \<Longrightarrow> Suc (length (js_delete k m)) = length m"
proof (induction m)
  case Nil
  then show ?case by simp
next
  case (Cons p m)
  show ?case
  proof (cases "fst p = k")
    case True
    with Cons.prems have "k \<notin> fst ` set m" by (auto simp: image_iff)
    with True show ?thesis by (cases p) simp
  next
    case False
    with Cons show ?thesis by (cases p) auto
  qed
qed

lemma length_js_set:
  "length (js_set k v m) = (if k \<in> fst ` set m then length m else Suc (length m))"
  by (induction m) auto

lemma sum_list_js_delete:
  fixes f :: "'k \<times> 'v \<Rightarrow> int"
  assumes "js_map_ok m" and "map_of m k = Some v"
  shows "sum_list (map f (js_delete k m)) = sum_list (map f m) - f (k, v)"
  using assms
proof (induction m)
  case Nil
  then show ?case by simp
next
  case (Cons p m)
  show ?case
  proof (cases "fst p = k")
    case True
    with Cons.prems have "k \<notin> fst ` set m" by (auto simp: image_iff)
    with True Cons.prems show ?thesis by (cases p) simp
  next
    case False
    with Cons show ?thesis by (cases p) auto
  qed
qed

lemma sum_list_js_set:
  fixes f :: "'k \<times> 'v \<Rightarrow> int"
  assumes "js_map_ok m"
  shows "sum_list (map f (js_set k v m)) =
    sum_list (map f m) - (case map_of m k of None \<Rightarrow> 0 | Some w \<Rightarrow> f (k, w)) + f (k, v)"
  using assms
proof (induction m)
  case Nil
  then show ?case by simp
next
  case (Cons p m)
  show ?case
  proof (cases "fst p = k")
    case True
    then show ?thesis by (cases p) simp
  next
    case False
    with Cons show ?thesis by (cases p) auto
  qed
qed

lemma js_delete_filter: "js_delete k m = filter (\<lambda>p. fst p \<noteq> k) m"
  by (auto simp: AList.delete_eq case_prod_unfold intro: filter_cong)

lemma map_of_Some_fst: "map_of m k = Some v \<Longrightarrow> k \<in> fst ` set m"
  by (metis map_of_SomeD fst_conv image_eqI)

lemma fst_map_of_Some: "k \<in> fst ` set m \<Longrightarrow> \<exists>v. map_of m k = Some v"
  by (metis map_of_eq_None_iff not_Some_eq)

lemma set_set_add [simp]: "set (set_add x xs) = insert x (set xs)"
  by (auto simp: set_add_def)

lemma distinct_set_add [simp]: "distinct (set_add x xs) \<longleftrightarrow> distinct xs"
  by (auto simp: set_add_def)

lemma set_set_delete [simp]: "set (set_delete x xs) = set xs - {x}"
  by (simp add: set_delete_def)

lemma distinct_set_delete [simp]: "distinct xs \<Longrightarrow> distinct (set_delete x xs)"
  by (simp add: set_delete_def distinct_removeAll)

section \<open>Lemmas on lists\<close>

lemma find_Some_mem: "find P xs = Some x \<Longrightarrow> x \<in> set xs \<and> P x"
  by (auto simp: find_Some_iff)

lemma find_ex: "x \<in> set xs \<Longrightarrow> P x \<Longrightarrow> \<exists>y. find P xs = Some y \<and> P y \<and> y \<in> set xs"
  by (metis find_None_iff find_Some_mem not_Some_eq)

lemma sorted_nth_le: "sorted xs \<Longrightarrow> i \<le> j \<Longrightarrow> j < length xs \<Longrightarrow> xs ! i \<le> xs ! j"
  by (rule sorted_nth_mono)

lemma hd_filter_find: "find P xs = (case filter P xs of [] \<Rightarrow> None | y # _ \<Rightarrow> Some y)"
  by (induction xs) auto

text \<open>The running minimum of a \<open>for\<close> loop.\<close>

lemma fold_min_Min:
  fixes f :: "'a \<Rightarrow> 'b::linorder"
  shows "fold (\<lambda>x m. if f x < m then f x else m) xs a = Min (insert a (f ` set xs))"
proof (induction xs arbitrary: a)
  case (Cons x xs)
  have "Min (insert a (f ` set (x # xs))) = Min (insert (min (f x) a) (f ` set xs))"
    by (cases "set xs = {}") (simp_all add: min.assoc min.commute min.left_commute)
  moreover have "(if f x < a then f x else a) = min (f x) a" by (auto simp: min_def)
  ultimately show ?case using Cons by simp
qed simp

section \<open>Binary search\<close>

text \<open>The search that the ring and the Zipfian sampler write as a loop: the first position at which a
  downward closed predicate fails.\<close>

function lower_bound :: "(nat \<Rightarrow> bool) \<Rightarrow> nat \<Rightarrow> nat \<Rightarrow> nat" where
  "lower_bound below lo hi =
     (if lo < hi then let mid = (lo + hi) div 2 in if below mid then lower_bound below (mid + 1) hi else lower_bound below lo mid
      else lo)"
  by pat_completeness auto
termination by (relation "measure (\<lambda>(below, lo, hi). hi - lo)") auto

declare lower_bound.simps [simp del]

lemma lower_bound_range: "lo \<le> hi \<Longrightarrow> lo \<le> lower_bound below lo hi \<and> lower_bound below lo hi \<le> hi"
proof (induction below lo hi rule: lower_bound.induct)
  case (1 below lo hi)
  show ?case using 1 by (subst (1 2) lower_bound.simps) (fastforce simp: Let_def)
qed

lemma lower_bound_first:
  assumes "lo \<le> hi" "\<And>i j. i \<le> j \<Longrightarrow> j \<le> hi \<Longrightarrow> below j \<Longrightarrow> below i" "\<forall>i < lo. below i" "\<not> below hi"
  shows "\<not> below (lower_bound below lo hi) \<and> (\<forall>i < lower_bound below lo hi. below i)"
  using assms
proof (induction below lo hi rule: lower_bound.induct)
  case (1 below lo hi)
  let ?mid = "(lo + hi) div 2"
  consider (stop) "\<not> lo < hi" | (up) "lo < hi" "below ?mid" | (down) "lo < hi" "\<not> below ?mid" by blast
  then show ?case
  proof cases
    case stop
    then have "lower_bound below lo hi = lo" by (simp add: lower_bound.simps[of below lo hi])
    then show ?thesis using 1(3,5,6) stop by simp
  next
    case up
    have "lower_bound below lo hi = lower_bound below (?mid + 1) hi" using up by (subst lower_bound.simps) (simp add: Let_def)
    moreover have before: "\<forall>i < ?mid + 1. below i" using 1(4)[of _ ?mid] up by auto
    moreover have "?mid + 1 \<le> hi" using up(1) by simp
    ultimately show ?thesis using 1(1)[OF up(1) refl up(2) _ 1(4) before 1(6)] by simp
  next
    case down
    have "lower_bound below lo hi = lower_bound below lo ?mid" using down by (subst lower_bound.simps) (simp add: Let_def)
    moreover have "lo \<le> ?mid" "?mid \<le> hi" using down(1) by simp_all
    moreover have "below i" if "i \<le> j" "j \<le> ?mid" "below j" for i j
      by (rule 1(4)[OF that(1) order_trans[OF that(2)] that(3)]) (use down(1) in simp)
    ultimately show ?thesis using 1(2)[OF down(1) refl down(2) _ _ 1(5) down(2)] by simp
  qed
qed

section \<open>Decimal numerals\<close>

text \<open>\<open>String(n)\<close> and the template literal of a non-negative integer, and \<open>Number(s)\<close> of a
  string of decimal digits.\<close>

definition is_digit :: "char \<Rightarrow> bool" where
  "is_digit c \<longleftrightarrow> 48 \<le> (of_char c :: nat) \<and> (of_char c :: nat) \<le> 57"

fun show_nat :: "nat \<Rightarrow> string" where
  "show_nat n = (if n < 10 then [char_of (48 + n)] else show_nat (n div 10) @ [char_of (48 + n mod 10)])"

declare show_nat.simps [simp del]

definition digits_value :: "string \<Rightarrow> nat" where
  "digits_value ds = foldl (\<lambda>n c. 10 * n + (of_char c - 48)) 0 ds"

lemma of_char_digit: "d < 10 \<Longrightarrow> (of_char (char_of (48 + d :: nat)) :: nat) = 48 + d"
  by (simp add: of_char_of)

lemma digits_value_show [simp]: "digits_value (show_nat n) = n"
proof (induction n rule: show_nat.induct)
  case (1 n)
  show ?case
  proof (cases "n < 10")
    case True
    then show ?thesis by (simp add: show_nat.simps[of n] digits_value_def of_char_digit)
  next
    case False
    have "digits_value (show_nat n) = 10 * digits_value (show_nat (n div 10)) + n mod 10"
      using False by (subst show_nat.simps) (simp add: digits_value_def of_char_digit)
    with 1 False show ?thesis by simp
  qed
qed

lemma show_nat_digits: "c \<in> set (show_nat n) \<Longrightarrow> is_digit c"
proof (induction n rule: show_nat.induct)
  case (1 n)
  then show ?case
    by (subst (asm) (2) show_nat.simps) (auto simp: is_digit_def of_char_digit split: if_splits)
qed

lemma show_nat_Nil [simp]: "show_nat n \<noteq> []"
  by (subst show_nat.simps) simp

lemma show_nat_inj [simp]: "show_nat m = show_nat n \<longleftrightarrow> m = n"
  by (metis digits_value_show)

end
