(* ===== verification/Shared.thy ===== *)
theory Shared
  imports Prelude
begin

text \<open>
  Package \<open>packages/shared\<close>: the domain types of \<open>types.ts\<close>, the error hierarchy of
  \<open>errors.ts\<close> and the helpers of \<open>utils.ts\<close> (\<open>clamp\<close>, \<open>approximateSizeBytes\<close>, \<open>Ema\<close>,
  \<open>RingBuffer\<close>).  JavaScript numbers that count something are \<open>nat\<close>, clock values are
  integers (milliseconds), ratios are exact rationals.
\<close>

section \<open>Cache primitives (types.ts)\<close>

record CacheMetadata =
  cm_version :: nat
  cm_createdAt :: time
  cm_updatedAt :: time
  cm_lastAccessedAt :: time
  cm_frequency :: nat
  cm_expiresAt :: "time option"
  cm_sizeBytes :: nat

record 'v CacheEntry =
  ce_key :: CacheKey
  ce_value :: 'v
  ce_metadata :: CacheMetadata

record StorageStats =
  st_entryCount :: nat
  st_totalSizeBytes :: int
  st_hits :: nat
  st_misses :: nat
  st_expirations :: nat
  st_evictions :: nat
  st_writes :: nat
  st_deletes :: nat

section \<open>Eviction types (types.ts)\<close>

datatype EvictionPolicyType = LRU | LFU | TINY_LFU

record WorkloadSignals =
  ws_hitRate :: rat
  ws_missRate :: rat
  ws_memoryUsageRatio :: rat
  ws_writeRatio :: rat
  ws_readRatio :: rat
  ws_frequencySkew :: rat
  ws_sequentialAccessScore :: rat
  ws_workingSetSizeRatio :: rat
  ws_windowSampleCount :: nat

section \<open>Cluster types (types.ts)\<close>

datatype NodeStatus = JOINING | HEALTHY | SUSPECT | DEAD | LEAVING

record NodeInfo =
  ni_nodeId :: string
  ni_host :: string
  ni_port :: nat
  ni_status :: NodeStatus
  ni_lastHeartbeat :: time
  ni_weight :: rat

record RingAssignment =
  ra_nodeId :: string
  ra_virtualNodeHash :: "32 word"

section \<open>Errors (errors.ts)\<close>

datatype FlowCacheError =
    KeyNotFoundError string
  | ConfigurationError string
  | ValidationError string
  | NodeUnavailableError string
  | NoHealthyNodesError
  | ReplicationError string
  | SnapshotError string
  | RecoveryError string
  | CapacityExceededError string

text \<open>What a JavaScript \<open>throw\<close> carries: one of the classes above, a built-in error, or any
  other value (rendered by \<open>String(err)\<close>).\<close>

datatype thrown = FlowCache FlowCacheError | RangeError string | PlainError string

type_synonym 'a result = "thrown + 'a"

fun httpStatus :: "FlowCacheError \<Rightarrow> nat" where
  "httpStatus (KeyNotFoundError _) = 404"
| "httpStatus (ConfigurationError _) = 500"
| "httpStatus (ValidationError _) = 400"
| "httpStatus (NodeUnavailableError _) = 503"
| "httpStatus NoHealthyNodesError = 503"
| "httpStatus (ReplicationError _) = 500"
| "httpStatus (SnapshotError _) = 500"
| "httpStatus (RecoveryError _) = 500"
| "httpStatus (CapacityExceededError _) = 507"

fun error_code :: "FlowCacheError \<Rightarrow> string" where
  "error_code (KeyNotFoundError _) = ''KEY_NOT_FOUND''"
| "error_code (ConfigurationError _) = ''CONFIGURATION_ERROR''"
| "error_code (ValidationError _) = ''VALIDATION_ERROR''"
| "error_code (NodeUnavailableError _) = ''NODE_UNAVAILABLE''"
| "error_code NoHealthyNodesError = ''NO_HEALTHY_NODES''"
| "error_code (ReplicationError _) = ''REPLICATION_ERROR''"
| "error_code (SnapshotError _) = ''SNAPSHOT_ERROR''"
| "error_code (RecoveryError _) = ''RECOVERY_ERROR''"
| "error_code (CapacityExceededError _) = ''CAPACITY_EXCEEDED''"

text \<open>\<open>KeyNotFoundError\<close> and \<open>NodeUnavailableError\<close> build their message from the key or node
  id they are constructed with; the double quote is the character 34.\<close>

definition quoted :: "string \<Rightarrow> string" where
  "quoted s = CHR 0x22 # s @ [CHR 0x22]"

fun error_message :: "FlowCacheError \<Rightarrow> string" where
  "error_message (KeyNotFoundError k) = ''Key not found: '' @ quoted k"
| "error_message (ConfigurationError m) = m"
| "error_message (ValidationError m) = m"
| "error_message (NodeUnavailableError n) = ''Cache node unavailable: '' @ quoted n"
| "error_message NoHealthyNodesError = ''No healthy cache nodes are available in the ring''"
| "error_message (ReplicationError m) = m"
| "error_message (SnapshotError m) = m"
| "error_message (RecoveryError m) = m"
| "error_message (CapacityExceededError m) = m"

record error_response =
  er_status :: nat
  er_code :: string
  er_message :: string

fun toErrorResponse :: "thrown \<Rightarrow> error_response" where
  "toErrorResponse (FlowCache e) =
     \<lparr>er_status = httpStatus e, er_code = error_code e, er_message = error_message e\<rparr>"
| "toErrorResponse (RangeError m) =
     \<lparr>er_status = 500, er_code = ''INTERNAL_ERROR'', er_message = m\<rparr>"
| "toErrorResponse (PlainError m) =
     \<lparr>er_status = 500, er_code = ''INTERNAL_ERROR'', er_message = m\<rparr>"

section \<open>Helpers (utils.ts)\<close>

definition clamp :: "'a::linorder \<Rightarrow> 'a \<Rightarrow> 'a \<Rightarrow> 'a" where
  "clamp v lo hi = min (max v lo) hi"

text \<open>\<open>Buffer.byteLength(s, 'utf8')\<close> for a string of code units below 256: one byte for ASCII,
  two for the rest.\<close>

definition utf8_byteLength :: "string \<Rightarrow> nat" where
  "utf8_byteLength s = sum_list (map (\<lambda>c. if of_char c < (128::nat) then 1 else 2) s)"

text \<open>\<open>JSON.stringify\<close> of a value either throws (\<open>Inl\<close>), yields \<open>undefined\<close> (\<open>Inr None\<close>) or
  a string.\<close>

definition approximateSizeBytes :: "('v \<Rightarrow> unit + string option) \<Rightarrow> 'v \<Rightarrow> nat" where
  "approximateSizeBytes stringify v =
     (case stringify v of
        Inl _ \<Rightarrow> 64
      | Inr None \<Rightarrow> utf8_byteLength []
      | Inr (Some s) \<Rightarrow> utf8_byteLength s)"

subsection \<open>Ema\<close>

record Ema =
  ema_value :: "rat option"
  ema_alpha :: rat

definition new_Ema :: "rat \<Rightarrow> Ema result" where
  "new_Ema alpha =
     (if alpha \<le> 0 \<or> alpha > 1 then Inl (RangeError ''Ema alpha must be in (0, 1]'')
      else Inr \<lparr>ema_value = None, ema_alpha = alpha\<rparr>)"

definition ema_update :: "rat \<Rightarrow> Ema \<Rightarrow> rat \<times> Ema" where
  "ema_update sample e =
     (let v = (case ema_value e of
                 None \<Rightarrow> sample
               | Some old \<Rightarrow> ema_alpha e * sample + (1 - ema_alpha e) * old)
      in (v, e\<lparr>ema_value := Some v\<rparr>))"

definition ema_get :: "Ema \<Rightarrow> rat" where
  "ema_get e = (case ema_value e of None \<Rightarrow> 0 | Some v \<Rightarrow> v)"

definition ema_reset :: "Ema \<Rightarrow> Ema" where
  "ema_reset e = e\<lparr>ema_value := None\<rparr>"

subsection \<open>RingBuffer\<close>

record 'a RingBuffer =
  rb_buf :: "'a list"
  rb_cursor :: nat
  rb_capacity :: nat

definition new_RingBuffer :: "nat \<Rightarrow> 'a RingBuffer result" where
  "new_RingBuffer capacity =
     (if capacity \<le> 0 then Inl (RangeError ''RingBuffer capacity must be > 0'')
      else Inr \<lparr>rb_buf = [], rb_cursor = 0, rb_capacity = capacity\<rparr>)"

definition rb_push :: "'a \<Rightarrow> 'a RingBuffer \<Rightarrow> 'a RingBuffer" where
  "rb_push item rb =
     (let rb' = (if length (rb_buf rb) < rb_capacity rb
                 then rb\<lparr>rb_buf := rb_buf rb @ [item]\<rparr>
                 else rb\<lparr>rb_buf := (rb_buf rb)[rb_cursor rb := item]\<rparr>)
      in rb'\<lparr>rb_cursor := (rb_cursor rb + 1) mod rb_capacity rb\<rparr>)"

definition rb_toArray :: "'a RingBuffer \<Rightarrow> 'a list" where
  "rb_toArray rb = rb_buf rb"

definition rb_length :: "'a RingBuffer \<Rightarrow> nat" where
  "rb_length rb = length (rb_buf rb)"

definition rb_clear :: "'a RingBuffer \<Rightarrow> 'a RingBuffer" where
  "rb_clear rb = rb\<lparr>rb_buf := [], rb_cursor := 0\<rparr>"

section \<open>Ema: the average stays between its samples\<close>

definition ema_in :: "rat \<Rightarrow> rat \<Rightarrow> Ema \<Rightarrow> bool" where
  "ema_in lo hi e \<longleftrightarrow> 0 < ema_alpha e \<and> ema_alpha e \<le> 1 \<and>
     (case ema_value e of None \<Rightarrow> True | Some v \<Rightarrow> lo \<le> v \<and> v \<le> hi)"

lemma convex_between:
  fixes a x y lo hi :: rat
  assumes "0 \<le> a" "a \<le> 1" "lo \<le> x" "x \<le> hi" "lo \<le> y" "y \<le> hi"
  shows "lo \<le> a * x + (1 - a) * y" and "a * x + (1 - a) * y \<le> hi"
proof -
  have "a * lo + (1 - a) * lo \<le> a * x + (1 - a) * y"
    by (intro add_mono mult_left_mono) (use assms in auto)
  then show "lo \<le> a * x + (1 - a) * y" by (simp add: algebra_simps)
  have "a * x + (1 - a) * y \<le> a * hi + (1 - a) * hi"
    by (intro add_mono mult_left_mono) (use assms in auto)
  then show "a * x + (1 - a) * y \<le> hi" by (simp add: algebra_simps)
qed

lemma ema_update_in:
  assumes "ema_in lo hi e" and "lo \<le> x" and "x \<le> hi"
  shows "ema_in lo hi (snd (ema_update x e)) \<and> lo \<le> fst (ema_update x e) \<and> fst (ema_update x e) \<le> hi"
  using assms convex_between[of "ema_alpha e" lo x hi]
  by (auto simp: ema_in_def ema_update_def Let_def split: option.splits)

lemma ema_get_in: "ema_in lo hi e \<Longrightarrow> lo \<le> 0 \<Longrightarrow> 0 \<le> hi \<Longrightarrow> lo \<le> ema_get e \<and> ema_get e \<le> hi"
  by (auto simp: ema_in_def ema_get_def split: option.splits)

lemma ema_reset_in: "ema_in lo hi e \<Longrightarrow> ema_in lo hi (ema_reset e)"
  by (auto simp: ema_in_def ema_reset_def)

section \<open>RingBuffer: a sliding window\<close>

text \<open>The abstract value of a ring buffer is the window of the last \<open>capacity\<close> items in the
  order they were pushed; \<open>toArray\<close> returns a rotation of it.\<close>

definition rb_ok :: "'a RingBuffer \<Rightarrow> bool" where
  "rb_ok rb \<longleftrightarrow> 0 < rb_capacity rb \<and> length (rb_buf rb) \<le> rb_capacity rb \<and>
     rb_cursor rb < rb_capacity rb \<and>
     (length (rb_buf rb) < rb_capacity rb \<longrightarrow> rb_cursor rb = length (rb_buf rb))"

definition rb_window :: "'a RingBuffer \<Rightarrow> 'a list" where
  "rb_window rb = (if length (rb_buf rb) < rb_capacity rb then rb_buf rb
     else drop (rb_cursor rb) (rb_buf rb) @ take (rb_cursor rb) (rb_buf rb))"

definition last_n :: "nat \<Rightarrow> 'a list \<Rightarrow> 'a list" where
  "last_n n xs = drop (length xs - n) xs"

lemma last_n_snoc: "last_n n (last_n n xs @ [x]) = last_n n (xs @ [x])"
proof (cases "length xs \<le> n")
  case True
  then show ?thesis by (simp add: last_n_def)
next
  case False
  then have "length (last_n n xs) = n" by (simp add: last_n_def)
  with False show ?thesis
    by (cases n) (auto simp: last_n_def drop_drop Suc_diff_le simp flip: Suc_diff_Suc)
qed

lemma new_RingBuffer_ok: "new_RingBuffer c = Inr rb \<Longrightarrow> rb_ok rb \<and> rb_window rb = [] \<and> rb_capacity rb = c"
  by (auto simp: new_RingBuffer_def rb_ok_def rb_window_def split: if_splits)

lemma rb_push_capacity [simp]: "rb_capacity (rb_push x rb) = rb_capacity rb"
  by (simp add: rb_push_def Let_def)

lemma rb_push_ok: "rb_ok rb \<Longrightarrow> rb_ok (rb_push x rb)"
  by (auto simp: rb_ok_def rb_push_def Let_def mod_Suc)

lemma rb_push_window:
  assumes "rb_ok rb"
  shows "rb_window (rb_push x rb) = last_n (rb_capacity rb) (rb_window rb @ [x])"
proof (cases "length (rb_buf rb) < rb_capacity rb")
  case True
  with assms have c: "rb_cursor rb = length (rb_buf rb)" by (simp add: rb_ok_def)
  show ?thesis
  proof (cases "Suc (length (rb_buf rb)) = rb_capacity rb")
    case full: True
    then show ?thesis using True c
      by (simp add: rb_window_def rb_push_def Let_def last_n_def)
  next
    case False
    with True show ?thesis using c
      by (simp add: rb_window_def rb_push_def Let_def last_n_def)
  qed
next
  case False
  with assms have len: "length (rb_buf rb) = rb_capacity rb" and cur: "rb_cursor rb < rb_capacity rb"
    by (auto simp: rb_ok_def)
  let ?b = "rb_buf rb" and ?c = "rb_cursor rb"
  have win: "rb_window rb = drop ?c ?b @ take ?c ?b" using len by (simp add: rb_window_def)
  have tl: "last_n (rb_capacity rb) (rb_window rb @ [x]) = drop (Suc ?c) ?b @ take ?c ?b @ [x]"
    using len cur by (simp add: win last_n_def drop_Suc Cons_nth_drop_Suc[symmetric] tl_drop)
  show ?thesis
  proof (cases "Suc ?c = rb_capacity rb")
    case True
    with len cur tl show ?thesis
      by (simp add: rb_window_def rb_push_def Let_def take_Suc_conv_app_nth upd_conv_take_nth_drop)
  next
    case no: False
    with cur have "Suc ?c mod rb_capacity rb = Suc ?c" by simp
    with no len cur tl show ?thesis
      by (simp add: rb_window_def rb_push_def Let_def take_update_swap take_Suc_conv_app_nth
          nth_append upd_conv_take_nth_drop[of ?c ?b x])
  qed
qed

lemma rb_toArray_mset: "rb_ok rb \<Longrightarrow> mset (rb_toArray rb) = mset (rb_window rb)"
  by (simp add: rb_toArray_def rb_window_def flip: mset_append)
     (metis append_take_drop_id mset_append union_commute)

lemma rb_clear_ok: "rb_ok rb \<Longrightarrow> rb_ok (rb_clear rb) \<and> rb_window (rb_clear rb) = []"
  by (auto simp: rb_ok_def rb_clear_def rb_window_def)

lemma rb_pushes_ok: "rb_ok rb \<Longrightarrow> rb_ok (fold rb_push xs rb) \<and> rb_capacity (fold rb_push xs rb) = rb_capacity rb"
  by (induction xs arbitrary: rb) (auto simp: rb_push_ok)

lemma rb_window_last_n: "rb_ok rb \<Longrightarrow> last_n (rb_capacity rb) (rb_window rb) = rb_window rb"
  by (auto simp: rb_ok_def rb_window_def last_n_def)

lemma rb_pushes_window:
  "rb_ok rb \<Longrightarrow> rb_window (fold rb_push xs rb) = last_n (rb_capacity rb) (rb_window rb @ xs)"
proof (induction xs rule: rev_induct)
  case Nil
  then show ?case by (simp add: rb_window_last_n)
next
  case (snoc x xs)
  let ?r = "fold rb_push xs rb"
  have "rb_window (rb_push x ?r) = last_n (rb_capacity rb) (rb_window ?r @ [x])"
    using rb_push_window[of ?r x] rb_pushes_ok[OF snoc.prems, of xs] by simp
  also have "\<dots> = last_n (rb_capacity rb) (rb_window rb @ xs @ [x])"
    using snoc last_n_snoc[of "rb_capacity rb" "rb_window rb @ xs" x] by simp
  finally show ?case by simp
qed

text \<open>The ring buffer is a sliding window.  A buffer of capacity \<open>c\<close> that was pushed the
  items \<open>xs\<close> holds exactly the last \<open>c\<close> of them (its array is a permutation of those), and
  never more than \<open>c\<close> items.\<close>

theorem RingBuffer_sliding_window:
  assumes "new_RingBuffer c = Inr rb"
  shows "rb_window (fold rb_push xs rb) = last_n c xs \<and>
    mset (rb_toArray (fold rb_push xs rb)) = mset (last_n c xs) \<and>
    rb_length (fold rb_push xs rb) = min c (length xs)"
proof -
  from assms have ok: "rb_ok rb" and w: "rb_window rb = []" and c: "rb_capacity rb = c"
    by (auto dest: new_RingBuffer_ok)
  have win: "rb_window (fold rb_push xs rb) = last_n c xs"
    using rb_pushes_window[OF ok, of xs] w c by simp
  moreover have arr: "mset (rb_toArray (fold rb_push xs rb)) = mset (last_n c xs)"
    using rb_toArray_mset[of "fold rb_push xs rb"] rb_pushes_ok[OF ok] win by simp
  moreover have "rb_length (fold rb_push xs rb) = min c (length xs)"
    using mset_eq_length[OF arr] by (simp add: rb_length_def rb_toArray_def last_n_def)
  ultimately show ?thesis by simp
qed

theorem RingBuffer_sliding_window_witness:
  "new_RingBuffer 2 = Inr (\<lparr>rb_buf = [], rb_cursor = 0, rb_capacity = 2\<rparr> :: nat RingBuffer) \<and>
   rb_window (fold rb_push [1, 2, 3] \<lparr>rb_buf = [], rb_cursor = 0, rb_capacity = 2\<rparr>) = [2, 3 :: nat]"
proof -
  have h: "new_RingBuffer 2 = Inr (\<lparr>rb_buf = [], rb_cursor = 0, rb_capacity = 2\<rparr> :: nat RingBuffer)"
    by (simp add: new_RingBuffer_def)
  show ?thesis using h RingBuffer_sliding_window[OF h, of "[1, 2, 3]"] by (simp add: last_n_def)
qed

end
