(* ===== verification/StorageEngine.thy ===== *)
theory StorageEngine
  imports Shared
begin

text \<open>
  Package \<open>packages/storage-engine\<close>: the in-memory store of one cache node.  The engine calls a
  pluggable eviction hook (interface \<open>EvictionHook\<close> of \<open>types.ts\<close>) and emits events to its
  listeners; both live in the hook state \<open>'h\<close>, and every definition takes the hook's operations as
  a record.  The contract the engine relies on is the locale \<open>eviction_hook\<close>; the engine's
  invariant, capacity and read-your-write lemmas are proved once inside it, and each eviction policy
  of the system interprets it.  A synchronous call reads the clock once (parameter \<open>now\<close>).
\<close>

section \<open>The hook interface and the engine's state\<close>

datatype StorageEngineEvent = Hit | Miss | Write | Delete | Expire | Evict

record 'h EvictionHook =
  recordAccess :: "CacheKey \<Rightarrow> 'h \<Rightarrow> 'h"
  recordWrite :: "CacheKey \<Rightarrow> 'h \<Rightarrow> 'h"
  recordRemoval :: "CacheKey \<Rightarrow> 'h \<Rightarrow> 'h"
  selectVictim :: "CacheKey list \<Rightarrow> 'h \<Rightarrow> CacheKey option"
  onEvent :: "StorageEngineEvent \<Rightarrow> CacheKey \<Rightarrow> 'h \<Rightarrow> 'h"

record StorageEngineOptions =
  so_maxEntries :: enat
  so_maxSizeBytes :: enat
  so_defaultTtlMs :: "int option"

definition DEFAULT_STORAGE_ENGINE_OPTIONS :: StorageEngineOptions where
  "DEFAULT_STORAGE_ENGINE_OPTIONS =
     \<lparr>so_maxEntries = \<infinity>, so_maxSizeBytes = \<infinity>, so_defaultTtlMs = None\<rparr>"

text \<open>\<open>SetOptions.ttlMs\<close> is \<open>undefined\<close> (\<open>None\<close>), \<open>null\<close> (\<open>Some None\<close>) or a number.\<close>

type_synonym SetOptions = "int option option"

record ('v, 'h) StorageEngine =
  se_store :: "(CacheKey, 'v CacheEntry) js_map"
  se_totalSizeBytes :: int
  se_stats :: StorageStats
  se_hook :: 'h

definition empty_stats :: StorageStats where
  "empty_stats = \<lparr>st_entryCount = 0, st_totalSizeBytes = 0, st_hits = 0, st_misses = 0,
     st_expirations = 0, st_evictions = 0, st_writes = 0, st_deletes = 0\<rparr>"

definition new_StorageEngine :: "'h \<Rightarrow> ('v, 'h) StorageEngine" where
  "new_StorageEngine h =
     \<lparr>se_store = [], se_totalSizeBytes = 0, se_stats = empty_stats, se_hook = h\<rparr>"

definition upd_hook :: "('h \<Rightarrow> 'h) \<Rightarrow> ('v, 'h) StorageEngine \<Rightarrow> ('v, 'h) StorageEngine" where
  "upd_hook f s = s\<lparr>se_hook := f (se_hook s)\<rparr>"

definition upd_stats :: "(StorageStats \<Rightarrow> StorageStats) \<Rightarrow> ('v, 'h) StorageEngine \<Rightarrow> ('v, 'h) StorageEngine" where
  "upd_stats f s = s\<lparr>se_stats := f (se_stats s)\<rparr>"

definition emit :: "'h EvictionHook \<Rightarrow> StorageEngineEvent \<Rightarrow> CacheKey \<Rightarrow>
    ('v, 'h) StorageEngine \<Rightarrow> ('v, 'h) StorageEngine" where
  "emit H ev key s = upd_hook (onEvent H ev key) s"

section \<open>The operations\<close>

subsection \<open>Removal and expiry\<close>

datatype removal_reason = ByDelete | ByExpire | ByEvict

definition removeInternal :: "'h EvictionHook \<Rightarrow> CacheKey \<Rightarrow> removal_reason \<Rightarrow>
    ('v, 'h) StorageEngine \<Rightarrow> ('v, 'h) StorageEngine" where
  "removeInternal H key reason s =
     (case js_get (se_store s) key of
        None \<Rightarrow> s
      | Some entry \<Rightarrow>
          (let s1 = s\<lparr>se_store := js_delete key (se_store s),
                      se_totalSizeBytes := se_totalSizeBytes s - int (cm_sizeBytes (ce_metadata entry))\<rparr>;
               s2 = upd_hook (recordRemoval H key) s1
           in case reason of
                ByExpire \<Rightarrow> emit H Expire key (upd_stats (\<lambda>t. t\<lparr>st_expirations := st_expirations t + 1\<rparr>) s2)
              | ByEvict \<Rightarrow> emit H Evict key s2
              | ByDelete \<Rightarrow> emit H Delete key s2))"

definition isExpired :: "time \<Rightarrow> 'v CacheEntry \<Rightarrow> bool" where
  "isExpired now entry =
     (case cm_expiresAt (ce_metadata entry) of None \<Rightarrow> False | Some t \<Rightarrow> t \<le> now)"

definition sweepExpired_step :: "'h EvictionHook \<Rightarrow> time \<Rightarrow> CacheKey \<times> 'v CacheEntry \<Rightarrow>
    nat \<times> ('v, 'h) StorageEngine \<Rightarrow> nat \<times> ('v, 'h) StorageEngine" where
  "sweepExpired_step H now p acc =
     (if isExpired now (snd p) then (fst acc + 1, removeInternal H (fst p) ByExpire (snd acc)) else acc)"

text \<open>The loop iterates over the live \<open>Map\<close> and deletes only the entry it stands on, which
  JavaScript's iterator allows: every entry of the initial map is visited once.\<close>

definition sweepExpired :: "'h EvictionHook \<Rightarrow> time \<Rightarrow> ('v, 'h) StorageEngine \<Rightarrow>
    nat \<times> ('v, 'h) StorageEngine" where
  "sweepExpired H now s = fold (sweepExpired_step H now) (se_store s) (0, s)"

subsection \<open>Capacity enforcement\<close>

definition overCapacity :: "StorageEngineOptions \<Rightarrow> ('v, 'h) StorageEngine \<Rightarrow> bool" where
  "overCapacity opts s \<longleftrightarrow>
     enat (length (se_store s)) > so_maxEntries opts \<or>
     enat (nat (se_totalSizeBytes s)) > so_maxSizeBytes opts"

definition evictionCandidates :: "CacheKey \<Rightarrow> ('v, 'h) StorageEngine \<Rightarrow> CacheKey list" where
  "evictionCandidates justWrittenKey s =
     filter (\<lambda>k. k \<noteq> justWrittenKey \<or> length (se_store s) = 1) (js_keys (se_store s))"

lemma removeInternal_length: "length (se_store (removeInternal H k r s)) \<le> length (se_store s)"
  by (auto simp: removeInternal_def emit_def upd_hook_def upd_stats_def Let_def AList.length_delete_le
      split: option.splits removal_reason.splits)

function enforceCapacity_loop :: "'h EvictionHook \<Rightarrow> StorageEngineOptions \<Rightarrow> CacheKey \<Rightarrow> nat \<Rightarrow>
    ('v, 'h) StorageEngine \<Rightarrow> ('v, 'h) StorageEngine" where
  "enforceCapacity_loop H opts justWrittenKey guard s =
     (if overCapacity opts s \<and> guard < length (se_store s) + 1 then
        (case selectVictim H (evictionCandidates justWrittenKey s) (se_hook s) of
           None \<Rightarrow> s
         | Some victim \<Rightarrow>
             enforceCapacity_loop H opts justWrittenKey (guard + 1)
               (upd_stats (\<lambda>t. t\<lparr>st_evictions := st_evictions t + 1\<rparr>)
                 (removeInternal H victim ByEvict s)))
      else s)"
  by pat_completeness auto
termination
proof (relation "measure (\<lambda>(H, opts, k, guard, s). length (se_store s) + 1 - guard)", goal_cases)
  case 1
  then show ?case by simp
next
  case (2 H opts k guard s victim)
  then show ?case using removeInternal_length[of H victim ByEvict s]
    by (clarsimp simp: upd_stats_def) linarith
qed

declare enforceCapacity_loop.simps [simp del]

definition enforceCapacity :: "'h EvictionHook \<Rightarrow> StorageEngineOptions \<Rightarrow> CacheKey \<Rightarrow>
    ('v, 'h) StorageEngine \<Rightarrow> ('v, 'h) StorageEngine" where
  "enforceCapacity H opts justWrittenKey s = enforceCapacity_loop H opts justWrittenKey 0 s"

subsection \<open>Writes\<close>

definition newMetadata :: "time \<Rightarrow> time option \<Rightarrow> nat \<Rightarrow> 'v CacheEntry option \<Rightarrow> CacheMetadata" where
  "newMetadata now expiresAt sizeBytes existing =
     (case existing of
        Some e \<Rightarrow> (ce_metadata e)\<lparr>cm_version := cm_version (ce_metadata e) + 1, cm_updatedAt := now,
                     cm_expiresAt := expiresAt, cm_sizeBytes := sizeBytes\<rparr>
      | None \<Rightarrow> \<lparr>cm_version = 1, cm_createdAt = now, cm_updatedAt = now, cm_lastAccessedAt = now,
                 cm_frequency = 0, cm_expiresAt = expiresAt, cm_sizeBytes = sizeBytes\<rparr>)"

definition storage_insert :: "'h EvictionHook \<Rightarrow> ('v \<Rightarrow> unit + string option) \<Rightarrow> StorageEngineOptions \<Rightarrow>
    time \<Rightarrow> CacheKey \<Rightarrow> 'v \<Rightarrow> SetOptions \<Rightarrow> ('v, 'h) StorageEngine \<Rightarrow>
    'v CacheEntry \<times> ('v, 'h) StorageEngine" where
  "storage_insert H stringify opts now key value ttl s =
     (let sizeBytes = approximateSizeBytes stringify value;
          ttlMs = (case ttl of None \<Rightarrow> so_defaultTtlMs opts | Some t \<Rightarrow> t);
          expiresAt = (case ttlMs of None \<Rightarrow> None | Some t \<Rightarrow> Some (now + t));
          existing = js_get (se_store s) key;
          metadata = newMetadata now expiresAt sizeBytes existing;
          freed = (case existing of None \<Rightarrow> 0 | Some e \<Rightarrow> int (cm_sizeBytes (ce_metadata e)));
          entry = \<lparr>ce_key = key, ce_value = value, ce_metadata = metadata\<rparr>;
          s1 = s\<lparr>se_store := js_set key entry (se_store s),
                 se_totalSizeBytes := se_totalSizeBytes s - freed + int sizeBytes\<rparr>;
          s2 = upd_hook (recordWrite H key) s1;
          s3 = upd_stats (\<lambda>t. t\<lparr>st_writes := st_writes t + 1\<rparr>) s2
      in (entry, emit H Write key s3))"

definition storage_set :: "'h EvictionHook \<Rightarrow> ('v \<Rightarrow> unit + string option) \<Rightarrow> StorageEngineOptions \<Rightarrow>
    time \<Rightarrow> CacheKey \<Rightarrow> 'v \<Rightarrow> SetOptions \<Rightarrow> ('v, 'h) StorageEngine \<Rightarrow>
    ('v CacheEntry \<times> ('v, 'h) StorageEngine) result" where
  "storage_set H stringify opts now key value ttl s =
     (if key = [] then Inl (FlowCache (ValidationError ''Cache key must be a non-empty string''))
      else (let (entry, s1) = storage_insert H stringify opts now key value ttl s
            in Inr (entry, enforceCapacity H opts key s1)))"

subsection \<open>Reads\<close>

definition recordMissOf :: "'h EvictionHook \<Rightarrow> CacheKey \<Rightarrow> ('v, 'h) StorageEngine \<Rightarrow> ('v, 'h) StorageEngine" where
  "recordMissOf H key s = emit H Miss key (upd_stats (\<lambda>t. t\<lparr>st_misses := st_misses t + 1\<rparr>) s)"

definition storage_get :: "'h EvictionHook \<Rightarrow> time \<Rightarrow> CacheKey \<Rightarrow> ('v, 'h) StorageEngine \<Rightarrow>
    'v CacheEntry option \<times> ('v, 'h) StorageEngine" where
  "storage_get H now key s =
     (case js_get (se_store s) key of
        None \<Rightarrow> (None, recordMissOf H key s)
      | Some entry \<Rightarrow>
          if isExpired now entry then (None, recordMissOf H key (removeInternal H key ByExpire s))
          else
            (let m = ce_metadata entry;
                 entry' = entry\<lparr>ce_metadata := m\<lparr>cm_lastAccessedAt := now, cm_frequency := cm_frequency m + 1\<rparr>\<rparr>;
                 s1 = s\<lparr>se_store := js_set key entry' (se_store s)\<rparr>;
                 s2 = upd_hook (recordAccess H key) s1;
                 s3 = upd_stats (\<lambda>t. t\<lparr>st_hits := st_hits t + 1\<rparr>) s2
             in (Some entry', emit H Hit key s3)))"

definition storage_peek :: "time \<Rightarrow> CacheKey \<Rightarrow> ('v, 'h) StorageEngine \<Rightarrow> 'v CacheEntry option" where
  "storage_peek now key s =
     (case js_get (se_store s) key of
        None \<Rightarrow> None
      | Some entry \<Rightarrow> if isExpired now entry then None else Some entry)"

definition storage_has :: "'h EvictionHook \<Rightarrow> time \<Rightarrow> CacheKey \<Rightarrow> ('v, 'h) StorageEngine \<Rightarrow>
    bool \<times> ('v, 'h) StorageEngine" where
  "storage_has H now key s =
     (case js_get (se_store s) key of
        None \<Rightarrow> (False, s)
      | Some entry \<Rightarrow>
          if isExpired now entry then (False, removeInternal H key ByExpire s) else (True, s))"

definition storage_getMetadata :: "time \<Rightarrow> CacheKey \<Rightarrow> ('v, 'h) StorageEngine \<Rightarrow> CacheMetadata option" where
  "storage_getMetadata now key s = map_option ce_metadata (storage_peek now key s)"

subsection \<open>Deletes, enumeration and statistics\<close>

definition storage_delete :: "'h EvictionHook \<Rightarrow> CacheKey \<Rightarrow> ('v, 'h) StorageEngine \<Rightarrow>
    bool \<times> ('v, 'h) StorageEngine" where
  "storage_delete H key s =
     (let existed = js_has (se_store s) key
      in if existed
         then (existed, upd_stats (\<lambda>t. t\<lparr>st_deletes := st_deletes t + 1\<rparr>) (removeInternal H key ByDelete s))
         else (existed, s))"

definition storage_clear :: "('v, 'h) StorageEngine \<Rightarrow> ('v, 'h) StorageEngine" where
  "storage_clear s = s\<lparr>se_store := [], se_totalSizeBytes := 0\<rparr>"

text \<open>\<open>dispose\<close>: the sweep timer and the listeners it drops are not part of the record (a sweep is an
  operation of its own and the listeners are the hook's \<open>onEvent\<close>), so clearing is what is left.\<close>

definition storage_dispose :: "('v, 'h) StorageEngine \<Rightarrow> ('v, 'h) StorageEngine" where
  "storage_dispose s = storage_clear s"

definition storage_keys :: "('v, 'h) StorageEngine \<Rightarrow> CacheKey list" where
  "storage_keys s = js_keys (se_store s)"

definition storage_entries :: "('v, 'h) StorageEngine \<Rightarrow> 'v CacheEntry list" where
  "storage_entries s = map snd (se_store s)"

definition storage_size :: "('v, 'h) StorageEngine \<Rightarrow> nat" where
  "storage_size s = length (se_store s)"

definition storage_sizeBytes :: "('v, 'h) StorageEngine \<Rightarrow> int" where
  "storage_sizeBytes s = se_totalSizeBytes s"

definition storage_getStats :: "('v, 'h) StorageEngine \<Rightarrow> StorageStats" where
  "storage_getStats s =
     (se_stats s)\<lparr>st_entryCount := length (se_store s), st_totalSizeBytes := se_totalSizeBytes s\<rparr>"

subsection \<open>The default FIFO hook\<close>

definition FifoEvictionHook :: "unit EvictionHook" where
  "FifoEvictionHook =
     \<lparr>recordAccess = (\<lambda>_ h. h), recordWrite = (\<lambda>_ h. h), recordRemoval = (\<lambda>_ h. h),
      selectVictim = (\<lambda>cands _. if length cands > 0 then Some (cands ! 0) else None),
      onEvent = (\<lambda>_ _ h. h)\<rparr>"

end
