(* ===== verification/StorageProps.thy ===== *)
theory StorageProps
  imports StorageEngine
begin

text \<open>
  The storage engine's correctness.  The first part holds for every hook: the byte count is the
  sum of the entries' sizes and no operation breaks that.  The second part is proved inside the
  locale \<open>eviction_hook\<close>, the contract the engine needs from an eviction policy: the policy
  knows every stored key, and offered at least one known candidate it names one of them.
\<close>

section \<open>Operation traces\<close>

datatype 'v storage_op =
    OpSet time CacheKey 'v SetOptions
  | OpGet time CacheKey
  | OpHas time CacheKey
  | OpDelete CacheKey
  | OpClear
  | OpSweep time

fun storage_exec :: "'h EvictionHook \<Rightarrow> ('v \<Rightarrow> unit + string option) \<Rightarrow> StorageEngineOptions \<Rightarrow>
    'v storage_op \<Rightarrow> ('v, 'h) StorageEngine \<Rightarrow> ('v, 'h) StorageEngine" where
  "storage_exec H js opts (OpSet now k v ttl) s =
     (case storage_set H js opts now k v ttl s of Inl _ \<Rightarrow> s | Inr (_, s') \<Rightarrow> s')"
| "storage_exec H js opts (OpGet now k) s = snd (storage_get H now k s)"
| "storage_exec H js opts (OpHas now k) s = snd (storage_has H now k s)"
| "storage_exec H js opts (OpDelete k) s = snd (storage_delete H k s)"
| "storage_exec H js opts OpClear s = storage_clear s"
| "storage_exec H js opts (OpSweep now) s = snd (sweepExpired H now s)"

section \<open>The byte count\<close>

abbreviation entry_size :: "CacheKey \<times> 'v CacheEntry \<Rightarrow> int" where
  "entry_size p \<equiv> int (cm_sizeBytes (ce_metadata (snd p)))"

definition storage_ok :: "('v, 'h) StorageEngine \<Rightarrow> bool" where
  "storage_ok s \<longleftrightarrow> js_map_ok (se_store s) \<and>
     (\<forall>p \<in> set (se_store s). ce_key (snd p) = fst p) \<and>
     se_totalSizeBytes s = sum_list (map entry_size (se_store s))"

lemmas engine_upds = upd_hook_def upd_stats_def emit_def recordMissOf_def

lemma upd_simps [simp]:
  "se_store (upd_hook f s) = se_store s" "se_store (upd_stats g s) = se_store s"
  "se_totalSizeBytes (upd_hook f s) = se_totalSizeBytes s"
  "se_totalSizeBytes (upd_stats g s) = se_totalSizeBytes s"
  "se_hook (upd_hook f s) = f (se_hook s)" "se_hook (upd_stats g s) = se_hook s"
  "se_stats (upd_hook f s) = se_stats s" "se_stats (upd_stats g s) = g (se_stats s)"
  "se_store (emit H e k s) = se_store s" "se_totalSizeBytes (emit H e k s) = se_totalSizeBytes s"
  "se_hook (emit H e k s) = onEvent H e k (se_hook s)" "se_stats (emit H e k s) = se_stats s"
  "se_store (recordMissOf H k s) = se_store s"
  "se_totalSizeBytes (recordMissOf H k s) = se_totalSizeBytes s"
  "se_hook (recordMissOf H k s) = onEvent H Miss k (se_hook s)"
  by (simp_all add: engine_upds)

lemma removeInternal_store [simp]: "se_store (removeInternal H k r s) = js_delete k (se_store s)"
proof (cases "map_of (se_store s) k")
  case None
  then have "js_delete k (se_store s) = se_store s" by (simp add: map_of_eq_None_iff)
  with None show ?thesis by (simp add: removeInternal_def)
next
  case (Some e)
  then show ?thesis by (cases r) (simp_all add: removeInternal_def Let_def)
qed

lemma removeInternal_total:
  "js_get (se_store s) k = Some e \<Longrightarrow>
   se_totalSizeBytes (removeInternal H k r s) = se_totalSizeBytes s - entry_size (k, e)"
  by (cases r) (simp_all add: removeInternal_def Let_def)

lemma removeInternal_ok: "storage_ok s \<Longrightarrow> storage_ok (removeInternal H k r s)"
proof (cases "map_of (se_store s) k")
  case None
  then show "storage_ok s \<Longrightarrow> ?thesis" by (simp add: removeInternal_def)
next
  case (Some e)
  assume "storage_ok s"
  with Some removeInternal_total[OF Some, of H r] sum_list_js_delete[OF _ Some, of entry_size]
  show ?thesis by (auto simp: storage_ok_def js_map_simps)
qed

lemma storage_insert_fields:
  assumes "storage_insert H js opts now key v ttl s = (entry, s')"
  shows "se_store s' = js_set key entry (se_store s)"
    and "ce_key entry = key" and "ce_value entry = v"
    and "cm_sizeBytes (ce_metadata entry) = approximateSizeBytes js v"
    and "se_hook s' = onEvent H Write key (recordWrite H key (se_hook s))"
    and "se_totalSizeBytes s' = se_totalSizeBytes s -
      (case js_get (se_store s) key of None \<Rightarrow> 0 | Some e \<Rightarrow> entry_size (key, e)) + entry_size (key, entry)"
    and "cm_expiresAt (ce_metadata entry) =
      map_option ((+) now) (case ttl of None \<Rightarrow> so_defaultTtlMs opts | Some t \<Rightarrow> t)"
    and "cm_version (ce_metadata entry) =
      (case js_get (se_store s) key of None \<Rightarrow> 1 | Some e \<Rightarrow> cm_version (ce_metadata e) + 1)"
    and "se_stats s' = (se_stats s)\<lparr>st_writes := st_writes (se_stats s) + 1\<rparr>"
  using assms by (auto simp: storage_insert_def Let_def newMetadata_def split: option.splits)

lemma storage_insert_ok:
  assumes "storage_ok s" and "storage_insert H js opts now key v ttl s = (entry, s')"
  shows "storage_ok s'"
proof -
  note f = storage_insert_fields[OF assms(2)]
  from assms(1) have ok: "js_map_ok (se_store s)" by (simp add: storage_ok_def)
  with assms(1) f sum_list_js_set[OF ok, of entry_size key entry] show ?thesis
    by (auto simp: storage_ok_def set_js_set split: option.splits)
qed

lemma storage_ok_hit:
  assumes "storage_ok s" and "js_get (se_store s) k = Some e"
    and "ce_key e' = ce_key e" and "cm_sizeBytes (ce_metadata e') = cm_sizeBytes (ce_metadata e)"
    and "se_store s' = js_set k e' (se_store s)" and "se_totalSizeBytes s' = se_totalSizeBytes s"
  shows "storage_ok s'"
proof -
  from assms(1) have ok: "js_map_ok (se_store s)" by (simp add: storage_ok_def)
  from assms(1,2) have "ce_key e = k" by (force simp: storage_ok_def dest: map_of_SomeD)
  with assms ok sum_list_js_set[OF ok, of entry_size k e'] show ?thesis
    by (auto simp: storage_ok_def set_js_set)
qed

lemma storage_ok_cong:
  "storage_ok s \<Longrightarrow> se_store s' = se_store s \<Longrightarrow> se_totalSizeBytes s' = se_totalSizeBytes s \<Longrightarrow> storage_ok s'"
  by (simp add: storage_ok_def)

lemma storage_get_ok:
  assumes "storage_ok s"
  shows "storage_ok (snd (storage_get H now k s))"
proof (cases "js_get (se_store s) k")
  case None
  then show ?thesis by (simp add: storage_get_def storage_ok_cong[OF assms])
next
  case (Some e)
  show ?thesis
  proof (cases "isExpired now e")
    case True
    with Some show ?thesis
      by (simp add: storage_get_def storage_ok_cong[OF removeInternal_ok[OF assms]] removeInternal_total)
  next
    case False
    with Some show ?thesis
      by (simp add: storage_get_def Let_def) (rule storage_ok_hit[OF assms Some], simp_all)
  qed
qed

lemma sweep_fold_ok:
  "storage_ok s \<Longrightarrow> storage_ok (snd (fold (sweepExpired_step H now) ps (n, s)))"
proof (induction ps arbitrary: n s)
  case (Cons p ps)
  then show ?case by (simp add: sweepExpired_step_def removeInternal_ok)
qed simp

section \<open>The eviction loop\<close>

abbreviation evict_step :: "'h EvictionHook \<Rightarrow> CacheKey \<Rightarrow> ('v, 'h) StorageEngine \<Rightarrow> ('v, 'h) StorageEngine" where
  "evict_step H victim s \<equiv>
     upd_stats (\<lambda>t. t\<lparr>st_evictions := st_evictions t + 1\<rparr>) (removeInternal H victim ByEvict s)"

text \<open>A loop rule: what every eviction keeps, the loop keeps.\<close>

lemma enforceCapacity_loop_rule:
  assumes "P s"
    and "\<And>s v. P s \<Longrightarrow> overCapacity opts s \<Longrightarrow>
      selectVictim H (evictionCandidates k s) (se_hook s) = Some v \<Longrightarrow> P (evict_step H v s)"
  shows "P (enforceCapacity_loop H opts k g s)"
  using assms
proof (induction H opts k g s rule: enforceCapacity_loop.induct)
  case (1 H opts k g s)
  show ?case
  proof (cases "overCapacity opts s \<and> g < length (se_store s) + 1")
    case False
    then have "enforceCapacity_loop H opts k g s = s"
      by (subst enforceCapacity_loop.simps) (rule if_not_P)
    with 1(2) show ?thesis by simp
  next
    case True
    show ?thesis
    proof (cases "selectVictim H (evictionCandidates k s) (se_hook s)")
      case None
      with True 1(2) show ?thesis by (simp add: enforceCapacity_loop.simps[of H opts k g s])
    next
      case (Some v)
      with True 1 have "P (enforceCapacity_loop H opts k (g + 1) (evict_step H v s))" by blast
      with True Some show ?thesis by (simp add: enforceCapacity_loop.simps[of H opts k g s])
    qed
  qed
qed

lemma enforceCapacity_loop_idle:
  "\<not> overCapacity opts s \<Longrightarrow> enforceCapacity_loop H opts k g s = s"
  by (simp add: enforceCapacity_loop.simps[of H opts k g s])

lemma evict_step_ok: "storage_ok s \<Longrightarrow> storage_ok (evict_step H v s)"
  by (rule storage_ok_cong[OF removeInternal_ok]) simp_all

lemma enforceCapacity_ok: "storage_ok s \<Longrightarrow> storage_ok (enforceCapacity H opts k s)"
  unfolding enforceCapacity_def by (rule enforceCapacity_loop_rule, assumption, rule evict_step_ok)

lemma storage_set_Inr:
  assumes "storage_set H js opts now key v ttl s = Inr (entry, s')"
  obtains s1 where "key \<noteq> []" and "storage_insert H js opts now key v ttl s = (entry, s1)"
    and "s' = enforceCapacity H opts key s1"
  using assms by (auto simp: storage_set_def split: if_splits prod.splits)

lemma storage_exec_ok: "storage_ok s \<Longrightarrow> storage_ok (storage_exec H js opts op s)"
proof (cases op)
  case (OpSet now k v ttl)
  assume "storage_ok s"
  with OpSet show ?thesis
    by (auto split: sum.splits prod.splits elim!: storage_set_Inr
        intro: enforceCapacity_ok storage_insert_ok)
next
  case (OpGet now k)
  then show "storage_ok s \<Longrightarrow> ?thesis" by (simp add: storage_get_ok)
next
  case (OpHas now k)
  then show "storage_ok s \<Longrightarrow> ?thesis"
    by (auto simp: storage_has_def intro: removeInternal_ok split: option.splits)
next
  case (OpDelete k)
  then show "storage_ok s \<Longrightarrow> ?thesis"
    by (auto simp: storage_delete_def Let_def intro: storage_ok_cong[OF removeInternal_ok])
next
  case OpClear
  then show ?thesis by (simp add: storage_clear_def storage_ok_def)
next
  case (OpSweep now)
  then show "storage_ok s \<Longrightarrow> ?thesis" by (simp add: sweepExpired_def sweep_fold_ok)
qed

lemma new_StorageEngine_ok: "storage_ok (new_StorageEngine h)"
  by (simp add: storage_ok_def new_StorageEngine_def)

lemma overCapacity_nonempty: "storage_ok s \<Longrightarrow> overCapacity opts s \<Longrightarrow> se_store s \<noteq> []"
  by (auto simp: overCapacity_def storage_ok_def zero_enat_def[symmetric])

lemma evictionCandidates_nonempty:
  assumes "storage_ok s" and "se_store s \<noteq> []"
  shows "evictionCandidates k s \<noteq> []"
proof (cases "length (se_store s) = 1")
  case True
  with assms(2) show ?thesis by (auto simp: evictionCandidates_def)
next
  case False
  with assms(2) obtain p q ps where s: "se_store s = p # q # ps"
    by (metis One_nat_def length_Cons list.exhaust list.size(3))
  with assms(1) have "fst p \<noteq> fst q" by (simp add: storage_ok_def)
  then have "fst p \<noteq> k \<or> fst q \<noteq> k" by auto
  with s show ?thesis by (auto simp: evictionCandidates_def)
qed

lemma evictionCandidates_subset: "set (evictionCandidates k s) \<subseteq> fst ` set (se_store s)"
  by (auto simp: evictionCandidates_def)

lemma just_written_victim:
  "storage_ok s \<Longrightarrow> k \<in> set (evictionCandidates k s) \<Longrightarrow> js_get (se_store s) k = Some e \<Longrightarrow>
   se_store s = [(k, e)]"
  by (auto simp: evictionCandidates_def length_Suc_conv split: if_splits)

section \<open>What every hook operation keeps, the engine keeps\<close>

locale hook_property =
  fixes H :: "'h EvictionHook"
    and Q :: "'h \<Rightarrow> bool"
  assumes Q_access: "Q h \<Longrightarrow> Q (recordAccess H k h)"
    and Q_write: "Q h \<Longrightarrow> Q (recordWrite H k h)"
    and Q_removal: "Q h \<Longrightarrow> Q (recordRemoval H k h)"
    and Q_event: "Q h \<Longrightarrow> Q (onEvent H ev k h)"
begin

lemma Q_removeInternal: "Q (se_hook s) \<Longrightarrow> Q (se_hook (removeInternal H k r s))"
  by (cases r) (simp_all add: removeInternal_def Let_def Q_removal Q_event split: option.split)

lemma Q_sweep_fold: "Q (se_hook s) \<Longrightarrow> Q (se_hook (snd (fold (sweepExpired_step H now) ps (n, s))))"
proof (induction ps arbitrary: n s)
  case (Cons p ps)
  then show ?case by (simp add: sweepExpired_step_def Q_removeInternal)
qed simp

lemma Q_enforce: "Q (se_hook s) \<Longrightarrow> Q (se_hook (enforceCapacity H opts k s))"
  unfolding enforceCapacity_def
  by (rule enforceCapacity_loop_rule[where P = "\<lambda>s. Q (se_hook s)"]) (simp_all add: Q_removeInternal)

lemma Q_set:
  assumes "Q (se_hook s)" and "storage_set H js opts now key v ttl s = Inr (e, s')"
  shows "Q (se_hook s')"
proof -
  obtain s1 where "storage_insert H js opts now key v ttl s = (e, s1)" and s': "s' = enforceCapacity H opts key s1"
    using assms(2) by (blast elim: storage_set_Inr)
  then have "Q (se_hook s1)" using assms(1) storage_insert_fields(5) by (metis Q_write Q_event)
  then show ?thesis unfolding s' by (rule Q_enforce)
qed

lemma Q_exec: "Q (se_hook s) \<Longrightarrow> Q (se_hook (storage_exec H js opts op s))"
proof (cases op)
  case (OpSet now k v ttl)
  assume "Q (se_hook s)"
  with OpSet show ?thesis by (auto intro: Q_set split: sum.split)
next
  case (OpGet now k)
  assume "Q (se_hook s)"
  with OpGet show ?thesis
    by (simp add: storage_get_def Let_def Q_access Q_event Q_removeInternal split: option.split)
next
  case (OpHas now k)
  assume "Q (se_hook s)"
  with OpHas show ?thesis by (simp add: storage_has_def Q_removeInternal split: option.split)
next
  case (OpDelete k)
  assume "Q (se_hook s)"
  with OpDelete show ?thesis by (simp add: storage_delete_def Let_def Q_removeInternal)
qed (simp_all add: storage_clear_def sweepExpired_def Q_sweep_fold)

end

section \<open>The contract of an eviction hook\<close>

locale eviction_hook =
  fixes H :: "'h EvictionHook"
    and hinv :: "'h \<Rightarrow> bool"
    and tracked :: "'h \<Rightarrow> CacheKey set"
  assumes inv_access: "hinv h \<Longrightarrow> hinv (recordAccess H k h)"
    and inv_write: "hinv h \<Longrightarrow> hinv (recordWrite H k h)"
    and inv_removal: "hinv h \<Longrightarrow> hinv (recordRemoval H k h)"
    and inv_event: "hinv h \<Longrightarrow> hinv (onEvent H ev k h)"
    and tracked_access: "hinv h \<Longrightarrow> tracked h \<subseteq> tracked (recordAccess H k h)"
    and tracked_write: "hinv h \<Longrightarrow> insert k (tracked h) \<subseteq> tracked (recordWrite H k h)"
    and tracked_removal: "hinv h \<Longrightarrow> tracked h - {k} \<subseteq> tracked (recordRemoval H k h)"
    and tracked_event: "hinv h \<Longrightarrow> tracked h \<subseteq> tracked (onEvent H ev k h)"
    and victim_candidate: "hinv h \<Longrightarrow> selectVictim H ks h = Some v \<Longrightarrow> v \<in> set ks"
    and victim_exists: "hinv h \<Longrightarrow> ks \<noteq> [] \<Longrightarrow> set ks \<subseteq> tracked h \<Longrightarrow> selectVictim H ks h \<noteq> None"
begin

definition wf :: "('v, 'h) StorageEngine \<Rightarrow> bool" where
  "wf s \<longleftrightarrow> storage_ok s \<and> hinv (se_hook s) \<and> fst ` set (se_store s) \<subseteq> tracked (se_hook s)"

lemma wf_ok: "wf s \<Longrightarrow> storage_ok s"
  by (simp add: wf_def)

lemma wf_new: "hinv h \<Longrightarrow> wf (new_StorageEngine h)"
  by (simp add: wf_def new_StorageEngine_ok) (simp add: new_StorageEngine_def)

lemma removeInternal_hook:
  assumes "wf s"
  shows "hinv (se_hook (removeInternal H k r s)) \<and>
    fst ` set (se_store s) - {k} \<subseteq> tracked (se_hook (removeInternal H k r s))"
proof (cases "js_get (se_store s) k")
  case None
  with assms show ?thesis by (auto simp: removeInternal_def wf_def)
next
  case (Some e)
  let ?h = "recordRemoval H k (se_hook s)"
  obtain ev where h: "se_hook (removeInternal H k r s) = onEvent H ev k ?h"
    using Some by (cases r) (auto simp: removeInternal_def Let_def)
  from assms have inv: "hinv (se_hook s)" and sub: "fst ` set (se_store s) \<subseteq> tracked (se_hook s)"
    by (auto simp: wf_def)
  have "fst ` set (se_store s) - {k} \<subseteq> tracked ?h" using sub tracked_removal[OF inv, of k] by blast
  also have "\<dots> \<subseteq> tracked (onEvent H ev k ?h)" by (rule tracked_event[OF inv_removal[OF inv]])
  finally show ?thesis using h inv by (simp add: inv_removal inv_event)
qed

lemma wf_removeInternal: "wf s \<Longrightarrow> wf (removeInternal H k r s)"
  using removeInternal_hook[of s k r] by (simp add: wf_def removeInternal_ok js_keys_delete)

lemma wf_upd_stats: "wf (upd_stats f s) \<longleftrightarrow> wf s"
  by (simp add: wf_def storage_ok_def)

lemma wf_emit: "wf s \<Longrightarrow> wf (emit H ev k s)"
  using tracked_event[of "se_hook s" ev k] by (auto simp: wf_def storage_ok_def inv_event)

lemma wf_miss: "wf s \<Longrightarrow> wf (recordMissOf H k s)"
  by (simp add: recordMissOf_def wf_emit wf_upd_stats)

lemma wf_evict_step: "wf s \<Longrightarrow> wf (evict_step H v s)"
  by (simp only: wf_upd_stats wf_removeInternal)

lemma wf_insert:
  assumes "wf s" and "storage_insert H js opts now key v ttl s = (entry, s')"
  shows "wf s'"
proof -
  note f = storage_insert_fields[OF assms(2)]
  from assms(1) have inv: "hinv (se_hook s)" and sub: "fst ` set (se_store s) \<subseteq> tracked (se_hook s)"
    by (auto simp: wf_def)
  have "insert key (fst ` set (se_store s)) \<subseteq> tracked (se_hook s')"
    using tracked_write[OF inv, of key] tracked_event[OF inv_write[OF inv], of key Write key] sub f(5)
    by (metis insert_mono order_trans)
  with f inv assms show ?thesis
    by (auto simp: wf_def js_map_simps inv_write inv_event intro: storage_insert_ok)
qed

lemma wf_hit:
  assumes "wf s" and "js_get (se_store s) k = Some e" and "\<not> isExpired now e"
  shows "wf (snd (storage_get H now k s))"
proof -
  let ?s' = "snd (storage_get H now k s)"
  from assms have inv: "hinv (se_hook s)" and sub: "fst ` set (se_store s) \<subseteq> tracked (se_hook s)"
    by (auto simp: wf_def)
  have "tracked (se_hook s) \<subseteq> tracked (onEvent H Hit k (recordAccess H k (se_hook s)))"
    using tracked_access[OF inv, of k] tracked_event[OF inv_access[OF inv], of k Hit k] by blast
  moreover have "se_hook ?s' = onEvent H Hit k (recordAccess H k (se_hook s))"
    and "fst ` set (se_store ?s') = fst ` set (se_store s)"
    using assms(2,3) by (auto simp: storage_get_def Let_def js_map_simps dest: map_of_Some_fst)
  ultimately show ?thesis
    using assms(1) inv sub by (simp add: wf_def storage_get_ok inv_access inv_event)
qed

lemma wf_get: "wf s \<Longrightarrow> wf (snd (storage_get H now k s))"
proof (cases "js_get (se_store s) k")
  case None
  then show "wf s \<Longrightarrow> ?thesis" by (simp add: storage_get_def wf_miss)
next
  case (Some e)
  assume "wf s"
  with Some show ?thesis
    by (cases "isExpired now e") (simp add: storage_get_def wf_miss wf_removeInternal, simp add: wf_hit)
qed

lemma wf_sweep_fold: "wf s \<Longrightarrow> wf (snd (fold (sweepExpired_step H now) ps (n, s)))"
proof (induction ps arbitrary: n s)
  case (Cons p ps)
  then show ?case by (simp add: sweepExpired_step_def wf_removeInternal)
qed simp

lemma wf_enforceCapacity: "wf s \<Longrightarrow> wf (enforceCapacity H opts k s)"
  unfolding enforceCapacity_def by (rule enforceCapacity_loop_rule, assumption, rule wf_evict_step)

lemma wf_set:
  "wf s \<Longrightarrow> storage_set H js opts now key v ttl s = Inr (entry, s') \<Longrightarrow> wf s'"
  by (auto elim!: storage_set_Inr intro: wf_enforceCapacity wf_insert)

lemma wf_exec: "wf s \<Longrightarrow> wf (storage_exec H js opts op s)"
proof (cases op)
  case (OpSet now k v ttl)
  assume "wf s"
  with OpSet show ?thesis by (auto split: sum.splits prod.splits intro: wf_set)
next
  case (OpHas now k)
  then show "wf s \<Longrightarrow> ?thesis"
    by (auto simp: storage_has_def intro: wf_removeInternal split: option.splits)
next
  case (OpDelete k)
  then show "wf s \<Longrightarrow> ?thesis"
    by (simp add: storage_delete_def Let_def wf_upd_stats wf_removeInternal)
next
  case OpClear
  then show "wf s \<Longrightarrow> ?thesis" by (simp add: wf_def storage_clear_def storage_ok_def)
qed (simp_all add: wf_get sweepExpired_def wf_sweep_fold)

subsection \<open>What one pass of the eviction loop achieves\<close>

lemma victim_of_over:
  assumes "wf s" and "overCapacity opts s"
  obtains v where "selectVictim H (evictionCandidates k s) (se_hook s) = Some v"
    and "v \<in> set (evictionCandidates k s)" and "v \<in> fst ` set (se_store s)"
proof -
  from assms have ok: "storage_ok s" and inv: "hinv (se_hook s)"
    and sub: "fst ` set (se_store s) \<subseteq> tracked (se_hook s)" by (auto simp: wf_def)
  have ne: "evictionCandidates k s \<noteq> []"
    by (rule evictionCandidates_nonempty[OF ok overCapacity_nonempty[OF ok assms(2)]])
  obtain v where v: "selectVictim H (evictionCandidates k s) (se_hook s) = Some v"
    using victim_exists[OF inv ne] sub evictionCandidates_subset[of k s] by blast
  then show ?thesis using that victim_candidate[OF inv v] evictionCandidates_subset[of k s] by blast
qed

lemma evict_step_length:
  assumes "wf s" and "v \<in> fst ` set (se_store s)"
  shows "Suc (length (se_store (evict_step H v s))) = length (se_store s)"
  using length_js_delete[of "se_store s" v] assms by (simp add: wf_def storage_ok_def)

text \<open>The loop either ends within the limits or stops because the guard has met the shrinking
  store: with \<open>n\<close> entries at the start it never evicts more than \<open>n div 2 + 1\<close>.\<close>

lemma enforceCapacity_loop_outcome:
  assumes "wf s" and "r = enforceCapacity_loop H opts k g s"
  shows "length (se_store r) \<le> length (se_store s) \<and>
    (\<not> overCapacity opts r \<or> length (se_store r) + 1 \<le> g + (length (se_store s) - length (se_store r))) \<and>
    (length (se_store r) = length (se_store s) \<or>
       g + (length (se_store s) - length (se_store r)) \<le> length (se_store r) + 2) \<and>
    st_evictions (se_stats r) = st_evictions (se_stats s) + (length (se_store s) - length (se_store r))"
  using assms(1) unfolding assms(2)
proof (induction "length (se_store s)" arbitrary: g s rule: less_induct)
  case less
  show ?case
  proof (cases "overCapacity opts s \<and> g < length (se_store s) + 1")
    case False
    then have "enforceCapacity_loop H opts k g s = s"
      by (subst enforceCapacity_loop.simps) (rule if_not_P)
    with False show ?thesis by auto
  next
    case True
    obtain v where v: "selectVictim H (evictionCandidates k s) (se_hook s) = Some v"
      and mem: "v \<in> fst ` set (se_store s)"
      using True less.prems by (blast elim: victim_of_over)
    let ?t = "evict_step H v s"
    have len: "Suc (length (se_store ?t)) = length (se_store s)"
      using evict_step_length[OF less.prems mem] .
    have stats: "st_evictions (se_stats ?t) = Suc (st_evictions (se_stats s))"
      by (cases "js_get (se_store s) v") (simp_all add: removeInternal_def Let_def)
    have eq: "enforceCapacity_loop H opts k g s = enforceCapacity_loop H opts k (g + 1) ?t"
      using True v by (subst enforceCapacity_loop.simps) simp
    have "wf ?t" by (rule wf_evict_step[OF less.prems])
    from less.hyps[OF _ this, of "g + 1"] len
    show ?thesis unfolding eq using True stats by auto
  qed
qed

lemma enforceCapacity_outcome:
  assumes "wf s" and n_def: "n = length (se_store s)" and r_def: "r = enforceCapacity H opts k s"
  shows "(\<not> overCapacity opts r \<or> n - length (se_store r) = n div 2 + 1) \<and>
    length (se_store r) \<le> n \<and> n - length (se_store r) \<le> n div 2 + 1 \<and>
    st_evictions (se_stats r) = st_evictions (se_stats s) + (n - length (se_store r))"
  using enforceCapacity_loop_outcome[OF assms(1) refl, of opts k 0]
  unfolding n_def r_def enforceCapacity_def by auto

lemma set_outcome:
  assumes "wf s" and "storage_set H js opts now key v ttl s = Inr (entry, s')"
  shows "\<exists>s1. storage_insert H js opts now key v ttl s = (entry, s1) \<and>
    length (se_store s1) = (if key \<in> fst ` set (se_store s) then length (se_store s) else Suc (length (se_store s))) \<and>
    (\<not> overCapacity opts s' \<or> length (se_store s1) - length (se_store s') = length (se_store s1) div 2 + 1) \<and>
    length (se_store s') \<le> length (se_store s1)"
proof -
  obtain s1 where ins: "storage_insert H js opts now key v ttl s = (entry, s1)"
    and s': "s' = enforceCapacity H opts key s1"
    using assms(2) by (blast elim: storage_set_Inr)
  have "wf s1" by (rule wf_insert[OF assms(1) ins])
  from enforceCapacity_outcome[OF this refl refl, of opts key] ins s' show ?thesis
    using storage_insert_fields(1)[OF ins] by (auto simp: length_js_set)
qed

lemma set_keeps_maxEntries:
  fixes s :: "('v, 'h) StorageEngine"
  assumes "wf s" and "storage_set H js opts now key v ttl s = Inr (entry, s')"
    and "enat (length (se_store s)) \<le> so_maxEntries opts"
  shows "enat (length (se_store s')) \<le> so_maxEntries opts"
proof -
  from set_outcome[OF assms(1,2)] obtain s1 :: "('v, 'h) StorageEngine"
    where n: "length (se_store s1) =
        (if key \<in> fst ` set (se_store s) then length (se_store s) else Suc (length (se_store s)))"
      and out: "\<not> overCapacity opts s' \<or>
        length (se_store s1) - length (se_store s') = length (se_store s1) div 2 + 1"
      and le: "length (se_store s') \<le> length (se_store s1)" by blast
  show ?thesis
  proof (cases "overCapacity opts s'")
    case False
    then show ?thesis by (auto simp: overCapacity_def)
  next
    case True
    with out le n have "length (se_store s') \<le> length (se_store s)" by (auto split: if_splits)
    with assms(3) show ?thesis by (meson enat_ord_simps(1) order_trans)
  qed
qed

lemma set_retains_key:
  fixes s :: "('v, 'h) StorageEngine"
  assumes "wf s" and "storage_set H js opts now key v ttl s = Inr (entry, s')"
    and fits: "enat (approximateSizeBytes js v) \<le> so_maxSizeBytes opts" and "1 \<le> so_maxEntries opts"
  shows "js_get (se_store s') key = Some entry"
proof -
  obtain s1 where ins: "storage_insert H js opts now key v ttl s = (entry, s1)"
    and s': "s' = enforceCapacity H opts key s1"
    using assms(2) by (blast elim: storage_set_Inr)
  note f = storage_insert_fields[OF ins]
  let ?P = "\<lambda>t :: ('v, 'h) StorageEngine. wf t \<and> js_get (se_store t) key = Some entry"
  have "?P (enforceCapacity_loop H opts key 0 s1)"
  proof (rule enforceCapacity_loop_rule)
    show "?P s1" using f wf_insert[OF assms(1) ins] by (simp add: js_map_simps)
  next
    fix t w assume P: "?P t" and over: "overCapacity opts t"
      and w: "selectVictim H (evictionCandidates key t) (se_hook t) = Some w"
    have "w \<noteq> key"
    proof
      assume "w = key"
      then have "key \<in> set (evictionCandidates key t)"
        using P w by (auto simp: wf_def dest: victim_candidate)
      then have t: "se_store t = [(key, entry)]"
        using P by (blast intro: just_written_victim wf_ok)
      with P have "se_totalSizeBytes t = int (approximateSizeBytes js v)"
        using f(4) by (simp add: wf_def storage_ok_def)
      with over t fits assms(4) show False by (auto simp: overCapacity_def one_enat_def)
    qed
    then show "?P (evict_step H w t)" using P wf_evict_step[of t w] by (simp add: js_map_simps)
  qed
  then show ?thesis by (simp add: s' enforceCapacity_def)
qed

lemma set_frame:
  fixes s :: "('v, 'h) StorageEngine"
  assumes "storage_set H js opts now key v ttl s = Inr (entry, s')" and "k \<noteq> key"
  shows "js_get (se_store s') k = None \<or> js_get (se_store s') k = js_get (se_store s) k"
proof -
  obtain s1 where ins: "storage_insert H js opts now key v ttl s = (entry, s1)"
    and s': "s' = enforceCapacity H opts key s1"
    using assms(1) by (blast elim: storage_set_Inr)
  let ?P = "\<lambda>t :: ('v, 'h) StorageEngine.
    js_get (se_store t) k = None \<or> js_get (se_store t) k = js_get (se_store s) k"
  have "?P (enforceCapacity_loop H opts key 0 s1)"
    by (rule enforceCapacity_loop_rule)
       (use assms(2) storage_insert_fields(1)[OF ins] in \<open>auto simp: js_map_simps\<close>)
  then show ?thesis by (simp add: s' enforceCapacity_def)
qed

end

section \<open>The default FIFO hook meets the contract\<close>

interpretation fifo: eviction_hook FifoEvictionHook "\<lambda>_. True" "\<lambda>_. UNIV"
  by unfold_locales (auto simp: FifoEvictionHook_def split: if_splits)

section \<open>Expiry\<close>

lemma sweep_fold_store:
  "se_store (snd (fold (sweepExpired_step H now) ps (n, s))) =
     filter (\<lambda>q. fst q \<notin> fst ` set (filter (\<lambda>p. isExpired now (snd p)) ps)) (se_store s) \<and>
   fst (fold (sweepExpired_step H now) ps (n, s)) = n + length (filter (\<lambda>p. isExpired now (snd p)) ps)"
proof (induction ps arbitrary: n s)
  case (Cons p ps)
  show ?case
  proof (cases "isExpired now (snd p)")
    case True
    then show ?thesis using Cons
      by (auto simp: sweepExpired_step_def js_delete_filter filter_filter intro!: filter_cong)
  qed (use Cons in \<open>simp add: sweepExpired_step_def\<close>)
qed simp

lemma js_map_ok_key: "js_map_ok m \<Longrightarrow> p \<in> set m \<Longrightarrow> q \<in> set m \<Longrightarrow> fst p = fst q \<Longrightarrow> p = q"
  by (metis eq_key_imp_eq_value prod.collapse)

lemma sweepExpired_store:
  assumes "storage_ok s"
  shows "se_store (snd (sweepExpired H now s)) = filter (\<lambda>p. \<not> isExpired now (snd p)) (se_store s)"
    and "fst (sweepExpired H now s) = length (filter (\<lambda>p. isExpired now (snd p)) (se_store s))"
proof -
  from assms have ok: "js_map_ok (se_store s)" by (simp add: storage_ok_def)
  have "fst q \<in> fst ` set (filter (\<lambda>p. isExpired now (snd p)) (se_store s)) \<longleftrightarrow> isExpired now (snd q)"
    if "q \<in> set (se_store s)" for q
    using js_map_ok_key[OF ok _ that] that by auto
  then show "se_store (snd (sweepExpired H now s)) = filter (\<lambda>p. \<not> isExpired now (snd p)) (se_store s)"
    and "fst (sweepExpired H now s) = length (filter (\<lambda>p. isExpired now (snd p)) (se_store s))"
    by (simp_all add: sweepExpired_def sweep_fold_store cong: filter_cong)
qed

lemma storage_get_value:
  "map_option ce_value (fst (storage_get H now k s)) = map_option ce_value (storage_peek now k s)"
  by (simp add: storage_get_def storage_peek_def Let_def split: option.split)

lemma storage_exec_shrinks:
  assumes "storage_ok s" and "\<not> (\<exists>now k v ttl. op = OpSet now k v ttl)"
  shows "length (se_store (storage_exec H js opts op s)) \<le> length (se_store s)"
proof (cases op)
  case (OpGet now k)
  show ?thesis
  proof (cases "js_get (se_store s) k")
    case (Some e)
    then have "k \<in> fst ` set (se_store s)" by (rule map_of_Some_fst)
    with OpGet Some show ?thesis
      by (simp add: storage_get_def Let_def length_js_set AList.length_delete_le)
  qed (simp add: OpGet storage_get_def)
next
  case (OpHas now k)
  then show ?thesis by (simp add: storage_has_def AList.length_delete_le split: option.split)
next
  case (OpDelete k)
  then show ?thesis by (simp add: storage_delete_def Let_def AList.length_delete_le)
next
  case (OpSweep now)
  then show ?thesis using sweepExpired_store(1)[OF assms(1)] by simp
qed (use assms(2) in \<open>auto simp: storage_clear_def\<close>)

end
