(* ===== verification/Lru.thy ===== *)
theory Lru
  imports StorageProps
begin

text \<open>
  \<open>packages/eviction/src/LRU.ts\<close>: recency order as a doubly linked list of heap nodes plus a
  \<open>Map\<close> from keys to nodes.  Nodes are addresses of an explicit heap, so the pointer surgery of
  \<open>unlink\<close> and \<open>pushFront\<close> is modelled as written.  The abstract value is the list of keys from
  most to least recently used; every operation refines the corresponding list operation.
\<close>

section \<open>State and pointer access\<close>

record DllNode =
  dn_key :: CacheKey
  dn_prev :: "nat option"
  dn_next :: "nat option"

type_synonym dll_heap = "nat \<Rightarrow> DllNode option"

record LruEvictionPolicy =
  lru_heap :: dll_heap
  lru_fresh :: nat
  lru_nodes :: "(CacheKey, nat) js_map"
  lru_head :: "nat option"
  lru_tail :: "nat option"

definition get_key :: "dll_heap \<Rightarrow> nat \<Rightarrow> CacheKey" where
  "get_key h a = (case h a of None \<Rightarrow> [] | Some n \<Rightarrow> dn_key n)"

definition get_prev :: "dll_heap \<Rightarrow> nat \<Rightarrow> nat option" where
  "get_prev h a = (case h a of None \<Rightarrow> None | Some n \<Rightarrow> dn_prev n)"

definition get_next :: "dll_heap \<Rightarrow> nat \<Rightarrow> nat option" where
  "get_next h a = (case h a of None \<Rightarrow> None | Some n \<Rightarrow> dn_next n)"

definition set_prev :: "nat \<Rightarrow> nat option \<Rightarrow> dll_heap \<Rightarrow> dll_heap" where
  "set_prev a p h = (case h a of None \<Rightarrow> h | Some n \<Rightarrow> h(a \<mapsto> n\<lparr>dn_prev := p\<rparr>))"

definition set_next :: "nat \<Rightarrow> nat option \<Rightarrow> dll_heap \<Rightarrow> dll_heap" where
  "set_next a p h = (case h a of None \<Rightarrow> h | Some n \<Rightarrow> h(a \<mapsto> n\<lparr>dn_next := p\<rparr>))"

section \<open>The operations\<close>

definition new_LruEvictionPolicy :: LruEvictionPolicy where
  "new_LruEvictionPolicy =
     \<lparr>lru_heap = (\<lambda>_. None), lru_fresh = 0, lru_nodes = [], lru_head = None, lru_tail = None\<rparr>"

definition lru_unlink :: "nat \<Rightarrow> LruEvictionPolicy \<Rightarrow> LruEvictionPolicy" where
  "lru_unlink node s =
     (let s1 = (case get_prev (lru_heap s) node of
                  Some p \<Rightarrow> s\<lparr>lru_heap := set_next p (get_next (lru_heap s) node) (lru_heap s)\<rparr>
                | None \<Rightarrow> if lru_head s = Some node
                          then s\<lparr>lru_head := get_next (lru_heap s) node\<rparr> else s);
          s2 = (case get_next (lru_heap s1) node of
                  Some q \<Rightarrow> s1\<lparr>lru_heap := set_prev q (get_prev (lru_heap s1) node) (lru_heap s1)\<rparr>
                | None \<Rightarrow> if lru_tail s1 = Some node
                          then s1\<lparr>lru_tail := get_prev (lru_heap s1) node\<rparr> else s1)
      in s2\<lparr>lru_heap := set_next node None (set_prev node None (lru_heap s2))\<rparr>)"

definition lru_pushFront :: "nat \<Rightarrow> LruEvictionPolicy \<Rightarrow> LruEvictionPolicy" where
  "lru_pushFront node s =
     (let s1 = s\<lparr>lru_heap := set_next node (lru_head s) (set_prev node None (lru_heap s))\<rparr>;
          s2 = (case lru_head s1 of
                  Some a \<Rightarrow> s1\<lparr>lru_heap := set_prev a (Some node) (lru_heap s1)\<rparr>
                | None \<Rightarrow> s1);
          s3 = s2\<lparr>lru_head := Some node\<rparr>
      in if lru_tail s3 = None then s3\<lparr>lru_tail := Some node\<rparr> else s3)"

definition lru_touch :: "CacheKey \<Rightarrow> LruEvictionPolicy \<Rightarrow> LruEvictionPolicy" where
  "lru_touch key s =
     (case js_get (lru_nodes s) key of
        Some node \<Rightarrow> lru_pushFront node (lru_unlink node s)
      | None \<Rightarrow>
          (let node = lru_fresh s
           in lru_pushFront node
                (s\<lparr>lru_heap := (lru_heap s)(node \<mapsto> \<lparr>dn_key = key, dn_prev = None, dn_next = None\<rparr>),
                   lru_fresh := node + 1,
                   lru_nodes := js_set key node (lru_nodes s)\<rparr>)))"

definition lru_recordAccess :: "CacheKey \<Rightarrow> LruEvictionPolicy \<Rightarrow> LruEvictionPolicy" where
  "lru_recordAccess key s = lru_touch key s"

definition lru_recordWrite :: "CacheKey \<Rightarrow> LruEvictionPolicy \<Rightarrow> LruEvictionPolicy" where
  "lru_recordWrite key s = lru_touch key s"

definition lru_recordRemoval :: "CacheKey \<Rightarrow> LruEvictionPolicy \<Rightarrow> LruEvictionPolicy" where
  "lru_recordRemoval key s =
     (case js_get (lru_nodes s) key of
        None \<Rightarrow> s
      | Some node \<Rightarrow>
          (let s1 = lru_unlink node s in s1\<lparr>lru_nodes := js_delete key (lru_nodes s1)\<rparr>))"

fun lru_walk :: "dll_heap \<Rightarrow> CacheKey list \<Rightarrow> nat \<Rightarrow> nat \<Rightarrow> nat option \<Rightarrow> CacheKey list \<Rightarrow> CacheKey list" where
  "lru_walk h candidates limit 0 node result = result"
| "lru_walk h candidates limit (Suc guard) None result = result"
| "lru_walk h candidates limit (Suc guard) (Some a) result =
     (if length result < limit
      then lru_walk h candidates limit guard (get_prev h a)
             (if get_key h a \<in> set candidates then result @ [get_key h a] else result)
      else result)"

definition leastRecentlyUsedCandidates :: "CacheKey list \<Rightarrow> nat \<Rightarrow> LruEvictionPolicy \<Rightarrow> CacheKey list" where
  "leastRecentlyUsedCandidates candidateKeys limit s =
     (if limit \<le> 0 then []
      else lru_walk (lru_heap s) candidateKeys limit (length (lru_nodes s) + 1) (lru_tail s) [])"

definition lru_selectVictim :: "CacheKey list \<Rightarrow> LruEvictionPolicy \<Rightarrow> CacheKey option" where
  "lru_selectVictim candidateKeys s =
     (let matches = leastRecentlyUsedCandidates candidateKeys 1 s
      in if length matches > 0 then Some (matches ! 0) else None)"

definition lru_reset :: "LruEvictionPolicy \<Rightarrow> LruEvictionPolicy" where
  "lru_reset s = s\<lparr>lru_nodes := [], lru_head := None, lru_tail := None\<rparr>"

definition lru_seed :: "'v CacheEntry list \<Rightarrow> LruEvictionPolicy \<Rightarrow> LruEvictionPolicy" where
  "lru_seed entries s =
     fold (\<lambda>entry. lru_touch (ce_key entry))
       (sort_key (\<lambda>e. cm_lastAccessedAt (ce_metadata e)) entries) (lru_reset s)"

definition lru_size :: "LruEvictionPolicy \<Rightarrow> nat" where
  "lru_size s = length (lru_nodes s)"

text \<open>The abstract value: the keys reached from \<open>head\<close> along \<open>next\<close>, at most one per map entry.\<close>

fun keys_from :: "dll_heap \<Rightarrow> nat \<Rightarrow> nat option \<Rightarrow> CacheKey list" where
  "keys_from h 0 p = []"
| "keys_from h (Suc n) None = []"
| "keys_from h (Suc n) (Some a) = get_key h a # keys_from h n (get_next h a)"

definition lru_list :: "LruEvictionPolicy \<Rightarrow> CacheKey list" where
  "lru_list s = keys_from (lru_heap s) (length (lru_nodes s)) (lru_head s)"

section \<open>Doubly linked segments\<close>

definition first_of :: "'a list \<Rightarrow> 'a option \<Rightarrow> 'a option" where
  "first_of as q = (case as of [] \<Rightarrow> q | a # _ \<Rightarrow> Some a)"

definition last_of :: "'a option \<Rightarrow> 'a list \<Rightarrow> 'a option" where
  "last_of p as = (if as = [] then p else Some (last as))"

lemma first_last_simps [simp]:
  "first_of [] q = q" "first_of (a # as) q = Some a" "last_of p [] = p" "last_of p (as @ [a]) = Some a"
  "last_of p [a] = Some a" "last_of p (a # b # as) = last_of p (b # as)"
  "first_of (as @ bs) q = first_of as (first_of bs q)" "last_of p (as @ a # bs) = last_of p (a # bs)"
  by (simp_all add: first_of_def last_of_def split: list.split)

lemma last_of_Cons: "last_of p (a # as) = last_of (Some a) as"
  by (simp add: last_of_def)

primrec dll :: "dll_heap \<Rightarrow> nat option \<Rightarrow> nat list \<Rightarrow> nat option \<Rightarrow> bool" where
  "dll h p [] q \<longleftrightarrow> True"
| "dll h p (a # as) q \<longleftrightarrow>
     (\<exists>k. h a = Some \<lparr>dn_key = k, dn_prev = p, dn_next = first_of as q\<rparr>) \<and> dll h (Some a) as q"

lemma dll_append [simp]:
  "dll h p (as @ bs) q \<longleftrightarrow> dll h p as (first_of bs q) \<and> dll h (last_of p as) bs q"
  by (induction as arbitrary: p) (auto simp: last_of_Cons simp del: first_last_simps(6))

lemma dll_upd [simp]: "u \<notin> set as \<Longrightarrow> dll (h(u := v)) p as q = dll h p as q"
  by (induction as arbitrary: p) auto

lemma dll_alloc: "dll h p as q \<Longrightarrow> a \<in> set as \<Longrightarrow> h a \<noteq> None"
  by (induction as arbitrary: p) auto

lemmas ptr_defs = get_key_def get_prev_def get_next_def set_prev_def set_next_def

lemma get_key_set [simp]:
  "get_key (set_prev a p h) = get_key h" "get_key (set_next a p h) = get_key h"
  by (auto simp: ptr_defs fun_eq_iff split: option.split)

definition dll_state :: "LruEvictionPolicy \<Rightarrow> nat list \<Rightarrow> bool" where
  "dll_state s as \<longleftrightarrow> dll (lru_heap s) None as None \<and> distinct as \<and>
     lru_head s = first_of as None \<and> lru_tail s = last_of None as"

lemma unlink_frame [simp]:
  "lru_nodes (lru_unlink a s) = lru_nodes s" "lru_fresh (lru_unlink a s) = lru_fresh s"
  "get_key (lru_heap (lru_unlink a s)) = get_key (lru_heap s)"
  by (simp_all add: lru_unlink_def Let_def split: option.split)

lemma pushFront_frame [simp]:
  "lru_nodes (lru_pushFront a s) = lru_nodes s" "lru_fresh (lru_pushFront a s) = lru_fresh s"
  "get_key (lru_heap (lru_pushFront a s)) = get_key (lru_heap s)"
  by (simp_all add: lru_pushFront_def Let_def split: option.split)

text \<open>Unlinking a node removes exactly that node, whatever its neighbours are.\<close>

lemma unlink_dll_state:
  assumes "dll_state s (xs @ a # ys)"
  shows "dll_state (lru_unlink a s) (xs @ ys) \<and> lru_heap (lru_unlink a s) a \<noteq> None"
proof (cases xs rule: rev_cases)
  case Nil
  with assms show ?thesis
    by (cases ys) (auto simp: dll_state_def lru_unlink_def Let_def ptr_defs)
next
  case (snoc us p)
  with assms show ?thesis
    by (cases ys) (auto simp: dll_state_def lru_unlink_def Let_def ptr_defs)
qed

lemma pushFront_dll_state:
  assumes "dll_state s as" and "a \<notin> set as" and "lru_heap s a \<noteq> None"
  shows "dll_state (lru_pushFront a s) (a # as)"
proof -
  from assms(3) obtain k p q where a: "lru_heap s a = Some \<lparr>dn_key = k, dn_prev = p, dn_next = q\<rparr>"
    by (metis not_Some_eq DllNode.cases)
  show ?thesis
  proof (cases as)
    case Nil
    with assms a show ?thesis
      by (auto simp: dll_state_def lru_pushFront_def Let_def ptr_defs)
  next
    case (Cons b bs)
    with assms a show ?thesis
      by (auto simp: dll_state_def lru_pushFront_def Let_def ptr_defs last_of_def)
  qed
qed

section \<open>The representation invariant and the abstract list\<close>

declare map_of_eq_Some_iff [simp del] Some_eq_map_of_iff [simp del]

definition lru_rep :: "LruEvictionPolicy \<Rightarrow> nat list \<Rightarrow> bool" where
  "lru_rep s as \<longleftrightarrow> dll_state s as \<and> js_map_ok (lru_nodes s) \<and>
     (\<forall>k a. js_get (lru_nodes s) k = Some a \<longleftrightarrow> a \<in> set as \<and> get_key (lru_heap s) a = k) \<and>
     (\<forall>a \<in> set as. a < lru_fresh s)"

definition lru_inv :: "LruEvictionPolicy \<Rightarrow> bool" where
  "lru_inv s \<longleftrightarrow> (\<exists>as. lru_rep s as)"

lemma lru_rep_inj: "lru_rep s as \<Longrightarrow> inj_on (get_key (lru_heap s)) (set as)"
  unfolding lru_rep_def inj_on_def by (metis option.inject)

lemma lru_rep_keys:
  assumes "lru_rep s as"
  shows "distinct (map (get_key (lru_heap s)) as)"
    and "fst ` set (lru_nodes s) = get_key (lru_heap s) ` set as"
    and "length (lru_nodes s) = length as"
proof -
  from assms have d: "distinct as" by (simp add: lru_rep_def dll_state_def)
  then show dk: "distinct (map (get_key (lru_heap s)) as)"
    by (simp add: distinct_map lru_rep_inj[OF assms])
  show ks: "fst ` set (lru_nodes s) = get_key (lru_heap s) ` set as"
  proof -
    have "k \<in> fst ` set (lru_nodes s) \<longleftrightarrow> (\<exists>a. js_get (lru_nodes s) k = Some a)" for k
      by (meson fst_map_of_Some map_of_Some_fst)
    moreover have "(\<exists>a. js_get (lru_nodes s) k = Some a) \<longleftrightarrow> k \<in> get_key (lru_heap s) ` set as" for k
      using assms by (auto simp: lru_rep_def)
    ultimately show ?thesis by blast
  qed
  from assms have "length (lru_nodes s) = card (fst ` set (lru_nodes s))"
    by (metis distinct_card length_map lru_rep_def set_map)
  also have "\<dots> = length as" unfolding ks using distinct_card[OF dk] by simp
  finally show "length (lru_nodes s) = length as" .
qed

lemma keys_from_dll:
  "dll h p as None \<Longrightarrow> n \<ge> length as \<Longrightarrow> keys_from h n (first_of as None) = map (get_key h) as"
proof (induction as arbitrary: p n)
  case Nil
  then show ?case by (cases n) simp_all
next
  case (Cons a as)
  then show ?case by (cases n) (auto simp: get_next_def)
qed

lemma lru_list_rep: "lru_rep s as \<Longrightarrow> lru_list s = map (get_key (lru_heap s)) as"
  using keys_from_dll[of "lru_heap s" None as "length (lru_nodes s)"] lru_rep_keys(3)[of s as]
  by (simp add: lru_list_def lru_rep_def dll_state_def)

lemma lru_list_distinct: "lru_inv s \<Longrightarrow> distinct (lru_list s)"
  by (auto simp: lru_inv_def lru_list_rep lru_rep_keys(1))

lemma lru_list_nodes: "lru_inv s \<Longrightarrow> set (lru_list s) = fst ` set (lru_nodes s)"
  unfolding lru_inv_def using lru_list_rep lru_rep_keys(2) by (metis set_map)

lemma lru_inv_new: "lru_inv new_LruEvictionPolicy" "lru_list new_LruEvictionPolicy = []"
proof -
  have "lru_rep new_LruEvictionPolicy []"
    by (simp add: lru_rep_def dll_state_def new_LruEvictionPolicy_def)
  then show "lru_inv new_LruEvictionPolicy" "lru_list new_LruEvictionPolicy = []"
    by (auto simp: lru_inv_def lru_list_rep)
qed

lemma lru_inv_reset: "lru_inv (lru_reset s)" "lru_list (lru_reset s) = []"
proof -
  have "lru_rep (lru_reset s) []" by (simp add: lru_rep_def dll_state_def lru_reset_def)
  then show "lru_inv (lru_reset s)" "lru_list (lru_reset s) = []"
    by (auto simp: lru_inv_def lru_list_rep)
qed

lemma lru_rep_split:
  assumes "lru_rep s as" and "js_get (lru_nodes s) k = Some a"
  obtains xs ys where "as = xs @ a # ys" and "get_key (lru_heap s) a = k"
    and "a \<notin> set (xs @ ys)" and "k \<notin> get_key (lru_heap s) ` set (xs @ ys)"
proof -
  from assms have mem: "a \<in> set as" and key: "get_key (lru_heap s) a = k" and d: "distinct as"
    by (auto simp: lru_rep_def dll_state_def)
  from split_list[OF mem] obtain xs ys where as: "as = xs @ a # ys" by blast
  with d have notin: "a \<notin> set (xs @ ys)" by auto
  have "k \<notin> get_key (lru_heap s) ` set (xs @ ys)"
  proof
    assume "k \<in> get_key (lru_heap s) ` set (xs @ ys)"
    then obtain b where b: "b \<in> set (xs @ ys)" "get_key (lru_heap s) b = k" by auto
    with as key lru_rep_inj[OF assms(1)] mem have "a = b" by (auto simp: inj_on_def)
    with b notin show False by simp
  qed
  with that as key notin show ?thesis by blast
qed

lemma removeAll_map_fresh: "k \<notin> f ` set xs \<Longrightarrow> removeAll k (map f xs) = map f xs"
  by (simp add: removeAll_id)

lemma lru_touch_present:
  assumes "lru_rep s as" and Some: "js_get (lru_nodes s) k = Some a"
  shows "\<exists>bs. lru_rep (lru_touch k s) bs \<and>
    map (get_key (lru_heap (lru_touch k s))) bs = k # removeAll k (map (get_key (lru_heap s)) as)"
proof -
  obtain xs ys where as: "as = xs @ a # ys" and key: "get_key (lru_heap s) a = k"
    and notin: "a \<notin> set (xs @ ys)" and fresh: "k \<notin> get_key (lru_heap s) ` set (xs @ ys)"
    using lru_rep_split[OF assms] by blast
  let ?u = "lru_unlink a s"
  from assms(1) as have "dll_state ?u (xs @ ys) \<and> lru_heap ?u a \<noteq> None"
    by (intro unlink_dll_state) (simp add: lru_rep_def)
  then have "dll_state (lru_touch k s) (a # xs @ ys)"
    using notin Some by (simp add: lru_touch_def pushFront_dll_state)
  moreover have "set (a # xs @ ys) = set as" using as by auto
  moreover have "lru_nodes (lru_touch k s) = lru_nodes s" "lru_fresh (lru_touch k s) = lru_fresh s"
    "get_key (lru_heap (lru_touch k s)) = get_key (lru_heap s)"
    using Some by (simp_all add: lru_touch_def)
  ultimately have "lru_rep (lru_touch k s) (a # xs @ ys)"
    using assms(1) unfolding lru_rep_def by metis
  moreover have "map (get_key (lru_heap (lru_touch k s))) (a # xs @ ys) =
      k # removeAll k (map (get_key (lru_heap s)) as)"
  proof -
    have "removeAll k (map (get_key (lru_heap s)) as) = removeAll k (map (get_key (lru_heap s)) (xs @ ys))"
      by (simp add: as key)
    also have "\<dots> = map (get_key (lru_heap s)) (xs @ ys)" by (rule removeAll_map_fresh[OF fresh])
    finally show ?thesis using Some key by (simp only: lru_touch_def option.case pushFront_frame unlink_frame list.map)
  qed
  ultimately show ?thesis by (intro exI conjI)
qed

lemma lru_touch_absent:
  assumes "lru_rep s as" and None: "js_get (lru_nodes s) k = None"
  shows "\<exists>bs. lru_rep (lru_touch k s) bs \<and>
    map (get_key (lru_heap (lru_touch k s))) bs = k # removeAll k (map (get_key (lru_heap s)) as)"
proof -
  let ?a = "lru_fresh s"
  let ?h = "(lru_heap s)(?a \<mapsto> \<lparr>dn_key = k, dn_prev = None, dn_next = None\<rparr>)"
  let ?t = "s\<lparr>lru_heap := ?h, lru_fresh := ?a + 1, lru_nodes := js_set k ?a (lru_nodes s)\<rparr>"
  from assms(1) have notin: "?a \<notin> set as" by (auto simp: lru_rep_def)
  then have keys: "b \<in> set as \<Longrightarrow> get_key ?h b = get_key (lru_heap s) b" for b
    by (auto simp: get_key_def)
  have kn: "k \<notin> get_key (lru_heap s) ` set as"
    using None lru_rep_keys(2)[OF assms(1)] by (simp add: map_of_eq_None_iff)
  have "dll_state ?t as" using assms(1) notin by (simp add: lru_rep_def dll_state_def)
  then have "dll_state (lru_touch k s) (?a # as)"
    using None notin by (simp add: lru_touch_def Let_def pushFront_dll_state)
  moreover have "js_map_ok (lru_nodes (lru_touch k s))"
    using None assms(1) by (simp add: lru_touch_def Let_def lru_rep_def)
  moreover have heap: "get_key (lru_heap (lru_touch k s)) = get_key ?h"
    using None by (simp add: lru_touch_def Let_def)
  moreover have "js_get (lru_nodes (lru_touch k s)) j = Some b \<longleftrightarrow>
      b \<in> set (?a # as) \<and> get_key ?h b = j" for j b
    using None assms(1) kn keys notin
    by (auto simp: lru_touch_def Let_def lru_rep_def js_map_simps get_key_def[of ?h ?a])
  moreover have "\<forall>b \<in> set (?a # as). b < lru_fresh (lru_touch k s)"
    using None assms(1) by (auto simp: lru_touch_def Let_def lru_rep_def)
  ultimately have "lru_rep (lru_touch k s) (?a # as)"
    by (simp add: lru_rep_def)
  moreover have "map (get_key (lru_heap (lru_touch k s))) (?a # as) =
      k # removeAll k (map (get_key (lru_heap s)) as)"
    unfolding heap using kn keys by (simp add: get_key_def[of ?h ?a] removeAll_id)
  ultimately show ?thesis by (intro exI conjI)
qed

lemma lru_touch_rep:
  assumes "lru_rep s as"
  shows "\<exists>bs. lru_rep (lru_touch k s) bs \<and>
    map (get_key (lru_heap (lru_touch k s))) bs = k # removeAll k (map (get_key (lru_heap s)) as)"
  using lru_touch_present[OF assms] lru_touch_absent[OF assms] by (cases "js_get (lru_nodes s) k") simp_all

lemma lru_touch_list:
  assumes "lru_inv s"
  shows "lru_inv (lru_touch k s) \<and> lru_list (lru_touch k s) = k # removeAll k (lru_list s)"
proof -
  from assms obtain as where as: "lru_rep s as" by (auto simp: lru_inv_def)
  from lru_touch_rep[OF this, of k] obtain bs where "lru_rep (lru_touch k s) bs"
    and "map (get_key (lru_heap (lru_touch k s))) bs = k # removeAll k (map (get_key (lru_heap s)) as)"
    by (elim exE conjE)
  with lru_list_rep[OF as] show ?thesis by (metis lru_inv_def lru_list_rep)
qed

lemma lru_removal_list:
  assumes "lru_inv s"
  shows "lru_inv (lru_recordRemoval k s) \<and> lru_list (lru_recordRemoval k s) = removeAll k (lru_list s)"
proof -
  from assms obtain as where as: "lru_rep s as" by (auto simp: lru_inv_def)
  show ?thesis
  proof (cases "js_get (lru_nodes s) k")
    case None
    then have "k \<notin> set (lru_list s)"
      using lru_list_nodes[OF assms] by (simp add: map_of_eq_None_iff)
    with None assms show ?thesis by (simp add: lru_recordRemoval_def removeAll_id)
  next
    case (Some a)
    obtain xs ys where split: "as = xs @ a # ys" and key: "get_key (lru_heap s) a = k"
      and notin: "a \<notin> set (xs @ ys)" and fresh: "k \<notin> get_key (lru_heap s) ` set (xs @ ys)"
      using lru_rep_split[OF as Some] by blast
    let ?t = "lru_recordRemoval k s"
    have "dll_state (lru_unlink a s) (xs @ ys)"
      using unlink_dll_state[of s xs a ys] as split by (simp add: lru_rep_def)
    moreover have t: "?t = (lru_unlink a s)\<lparr>lru_nodes := js_delete k (lru_nodes s)\<rparr>"
      using Some by (simp add: lru_recordRemoval_def Let_def)
    moreover have "js_get (js_delete k (lru_nodes s)) j = Some b \<longleftrightarrow>
        b \<in> set (xs @ ys) \<and> get_key (lru_heap s) b = j" for j b
    proof -
      have *: "js_get (lru_nodes s) j = Some b \<longleftrightarrow> b \<in> set as \<and> get_key (lru_heap s) b = j"
        using as by (simp add: lru_rep_def)
      show ?thesis
      proof (cases "j = k")
        case True
        with fresh show ?thesis by (auto simp: js_map_simps)
      next
        case False
        with * key split show ?thesis by (auto simp: js_map_simps)
      qed
    qed
    ultimately have "lru_rep ?t (xs @ ys)"
      using as split unfolding lru_rep_def by (simp add: dll_state_def js_map_ok_delete)
    moreover have "map (get_key (lru_heap ?t)) (xs @ ys) = removeAll k (lru_list s)"
    proof -
      have "removeAll k (lru_list s) = removeAll k (map (get_key (lru_heap s)) (xs @ ys))"
        by (simp add: split key lru_list_rep[OF as])
      also have "\<dots> = map (get_key (lru_heap s)) (xs @ ys)" by (rule removeAll_map_fresh[OF fresh])
      finally show ?thesis by (simp add: t)
    qed
    ultimately show ?thesis by (auto simp: lru_inv_def lru_list_rep)
  qed
qed

section \<open>Walking from the tail\<close>

lemma lru_walk_dll:
  "dll h None as q \<Longrightarrow> length as \<le> g \<Longrightarrow> length res \<le> limit \<Longrightarrow>
   lru_walk h C limit g (last_of None as) res =
     take limit (res @ filter (\<lambda>k. k \<in> set C) (map (get_key h) (rev as)))"
proof (induction as arbitrary: g q res rule: rev_induct)
  case Nil
  then show ?case by (cases g) simp_all
next
  case (snoc a as)
  from snoc.prems(2) obtain g' where g: "g = Suc g'" "length as \<le> g'" by (cases g) auto
  from snoc.prems(1) have "get_prev h a = last_of None as" and "dll h None as (Some a)"
    by (auto simp: get_prev_def)
  with snoc g show ?case by (auto simp: take_Cons' Suc_diff_Suc)
qed

lemma lru_candidates_list:
  assumes "lru_inv s"
  shows "leastRecentlyUsedCandidates C limit s = take limit (filter (\<lambda>k. k \<in> set C) (rev (lru_list s)))"
proof -
  from assms obtain as where as: "lru_rep s as" by (auto simp: lru_inv_def)
  then have "dll (lru_heap s) None as None" and "lru_tail s = last_of None as"
    by (auto simp: lru_rep_def dll_state_def)
  with lru_walk_dll[of "lru_heap s" as None "length (lru_nodes s) + 1" "[]" limit C]
  show ?thesis using lru_rep_keys(3)[OF as] lru_list_rep[OF as]
    by (simp add: leastRecentlyUsedCandidates_def rev_map)
qed

lemma lru_victim_find:
  "lru_inv s \<Longrightarrow> lru_selectVictim C s = find (\<lambda>k. k \<in> set C) (rev (lru_list s))"
  by (simp add: lru_selectVictim_def lru_candidates_list hd_filter_find Let_def split: list.split)

lemma lru_seed_fold:
  "lru_inv s \<Longrightarrow> lru_inv (fold (\<lambda>e. lru_touch (ce_key e)) es s) \<and>
   set (lru_list (fold (\<lambda>e. lru_touch (ce_key e)) es s)) = ce_key ` set es \<union> set (lru_list s)"
  by (induction es arbitrary: s) (auto simp: lru_touch_list)

lemma lru_seed_list:
  "lru_inv (lru_seed es s) \<and> set (lru_list (lru_seed es s)) = ce_key ` set es"
  unfolding lru_seed_def
  using lru_seed_fold[OF lru_inv_reset(1), of "sort_key (\<lambda>e. cm_lastAccessedAt (ce_metadata e)) es" s]
  by (simp add: lru_inv_reset(2))

section \<open>LRU as an eviction hook\<close>

definition lru_hook :: "LruEvictionPolicy EvictionHook" where
  "lru_hook = \<lparr>recordAccess = lru_recordAccess, recordWrite = lru_recordWrite,
     recordRemoval = lru_recordRemoval, selectVictim = lru_selectVictim, onEvent = (\<lambda>_ _ s. s)\<rparr>"

lemma lru_hook_simps [hook_simps]:
  "recordAccess lru_hook = lru_touch" "recordWrite lru_hook = lru_touch"
  "recordRemoval lru_hook = lru_recordRemoval" "selectVictim lru_hook = lru_selectVictim"
  "onEvent lru_hook ev k s = s"
  by (simp_all add: lru_hook_def lru_recordAccess_def lru_recordWrite_def fun_eq_iff)

interpretation lru: eviction_hook lru_hook lru_inv "\<lambda>s. set (lru_list s)"
proof unfold_locales
  fix h :: LruEvictionPolicy and ks v
  assume "lru_inv h" and "selectVictim lru_hook ks h = Some v"
  then show "v \<in> set ks" by (auto simp: hook_simps lru_victim_find dest: find_Some_mem)
next
  fix h :: LruEvictionPolicy and ks :: "CacheKey list"
  assume "lru_inv h" and "ks \<noteq> []" and "set ks \<subseteq> set (lru_list h)"
  then show "selectVictim lru_hook ks h \<noteq> None"
    by (cases ks) (auto simp: hook_simps lru_victim_find find_None_iff)
qed (auto simp: hook_simps lru_touch_list lru_removal_list)

section \<open>Refinement of the abstract recency list\<close>

datatype lru_op = LruAccess CacheKey | LruWrite CacheKey | LruRemoval CacheKey | LruReset

fun lru_exec :: "lru_op \<Rightarrow> LruEvictionPolicy \<Rightarrow> LruEvictionPolicy" where
  "lru_exec (LruAccess k) s = lru_recordAccess k s"
| "lru_exec (LruWrite k) s = lru_recordWrite k s"
| "lru_exec (LruRemoval k) s = lru_recordRemoval k s"
| "lru_exec LruReset s = lru_reset s"

fun recency_exec :: "lru_op \<Rightarrow> CacheKey list \<Rightarrow> CacheKey list" where
  "recency_exec (LruAccess k) xs = k # removeAll k xs"
| "recency_exec (LruWrite k) xs = k # removeAll k xs"
| "recency_exec (LruRemoval k) xs = removeAll k xs"
| "recency_exec LruReset xs = []"

lemma lru_exec_refines:
  "lru_inv s \<Longrightarrow> lru_inv (lru_exec op s) \<and> lru_list (lru_exec op s) = recency_exec op (lru_list s)"
  by (cases op)
     (simp_all add: lru_recordAccess_def lru_recordWrite_def lru_touch_list lru_removal_list lru_inv_reset)

lemma lru_fold_refines:
  "lru_inv s \<Longrightarrow> lru_inv (fold lru_exec ops s) \<and> lru_list (fold lru_exec ops s) = fold recency_exec ops (lru_list s)"
  by (induction ops arbitrary: s) (simp_all add: lru_exec_refines)

text \<open>C6. The linked-list LRU refines the recency list: after any sequence of accesses, writes,
  removals and resets, following \<open>next\<close> from \<open>head\<close> yields the keys from most to least recently
  used, and \<open>selectVictim\<close> answers the least recently used key among the candidates (or none
  when no candidate is tracked).\<close>

theorem lru_refines_recency_list:
  "let s = fold lru_exec ops new_LruEvictionPolicy; spec = fold recency_exec ops []
   in lru_list s = spec \<and> distinct spec \<and> lru_size s = length spec \<and>
      lru_selectVictim C s = find (\<lambda>k. k \<in> set C) (rev spec) \<and>
      leastRecentlyUsedCandidates C n s = take n (filter (\<lambda>k. k \<in> set C) (rev spec))"
proof -
  let ?s = "fold lru_exec ops new_LruEvictionPolicy"
  have inv: "lru_inv ?s" and list: "lru_list ?s = fold recency_exec ops []"
    using lru_fold_refines[OF lru_inv_new(1), of ops] by (simp_all add: lru_inv_new)
  moreover from inv have "lru_size ?s = length (lru_list ?s)"
    by (auto simp: lru_inv_def lru_size_def lru_rep_keys(3) lru_list_rep)
  ultimately show ?thesis
    using lru_list_distinct[OF inv] lru_victim_find[OF inv, of C] lru_candidates_list[OF inv, of C n]
    by (simp add: Let_def)
qed

end
