(* ===== verification/Lfu.thy ===== *)
theory Lfu
  imports StorageProps
begin

text \<open>
  \<open>packages/eviction/src/LFU.ts\<close>: the constant-time LFU with a map from keys to frequencies, a map
  from frequencies to buckets (JavaScript \<open>Set\<close>s, iterated in insertion order) and a running
  minimum.  The abstract value is the partial map from keys to their use counts; the theorems say
  that the buckets always partition it and that the victim is a least frequently used candidate.
\<close>

section \<open>State and operations\<close>

record LfuEvictionPolicy =
  lfu_frequency :: "(CacheKey, nat) js_map"
  lfu_buckets :: "(nat, CacheKey list) js_map"
  lfu_minFrequency :: nat

definition new_LfuEvictionPolicy :: LfuEvictionPolicy where
  "new_LfuEvictionPolicy = \<lparr>lfu_frequency = [], lfu_buckets = [], lfu_minFrequency = 0\<rparr>"

definition lowestRemainingFrequency :: "LfuEvictionPolicy \<Rightarrow> nat" where
  "lowestRemainingFrequency s =
     (if length (lfu_buckets s) = 0 then 0
      else case fold (\<lambda>freq m. if enat freq < m then enat freq else m) (js_keys (lfu_buckets s)) \<infinity> of
             \<infinity> \<Rightarrow> 0
           | enat m \<Rightarrow> m)"

definition addToBucket :: "nat \<Rightarrow> CacheKey \<Rightarrow> LfuEvictionPolicy \<Rightarrow> LfuEvictionPolicy" where
  "addToBucket freq key s =
     (let bucket = (case js_get (lfu_buckets s) freq of None \<Rightarrow> [] | Some b \<Rightarrow> b)
      in s\<lparr>lfu_buckets := js_set freq (set_add key bucket) (lfu_buckets s)\<rparr>)"

text \<open>The steps \<open>bump\<close> and \<open>recordRemoval\<close> share: delete the key from its bucket and drop the
  bucket when that empties it; the flag tells whether it did.\<close>

definition leaveBucket :: "nat \<Rightarrow> CacheKey \<Rightarrow> LfuEvictionPolicy \<Rightarrow> bool \<times> LfuEvictionPolicy" where
  "leaveBucket freq key s =
     (case js_get (lfu_buckets s) freq of
        None \<Rightarrow> (False, s)
      | Some bucket \<Rightarrow>
          (let bucket' = set_delete key bucket;
               s' = s\<lparr>lfu_buckets := js_set freq bucket' (lfu_buckets s)\<rparr>
           in if length bucket' = 0
              then (True, s'\<lparr>lfu_buckets := js_delete freq (lfu_buckets s')\<rparr>)
              else (False, s')))"

definition lfu_initialize :: "CacheKey \<Rightarrow> LfuEvictionPolicy \<Rightarrow> LfuEvictionPolicy" where
  "lfu_initialize key s =
     (let s1 = s\<lparr>lfu_frequency := js_set key 1 (lfu_frequency s)\<rparr>;
          s2 = addToBucket 1 key s1
      in s2\<lparr>lfu_minFrequency := 1\<rparr>)"

definition lfu_bump :: "CacheKey \<Rightarrow> LfuEvictionPolicy \<Rightarrow> LfuEvictionPolicy" where
  "lfu_bump key s =
     (let oldFreq = (case js_get (lfu_frequency s) key of None \<Rightarrow> 0 | Some f \<Rightarrow> f);
          newFreq = oldFreq + 1;
          s1 = s\<lparr>lfu_frequency := js_set key newFreq (lfu_frequency s)\<rparr>;
          s2 = (if oldFreq > 0
                then (let (emptied, s') = leaveBucket oldFreq key s1
                      in if emptied \<and> lfu_minFrequency s' = oldFreq
                         then s'\<lparr>lfu_minFrequency := newFreq\<rparr> else s')
                else s1\<lparr>lfu_minFrequency :=
                          min (if lfu_minFrequency s1 = 0 then newFreq else lfu_minFrequency s1) newFreq\<rparr>)
      in addToBucket newFreq key s2)"

definition lfu_recordAccess :: "CacheKey \<Rightarrow> LfuEvictionPolicy \<Rightarrow> LfuEvictionPolicy" where
  "lfu_recordAccess key s = lfu_bump key s"

definition lfu_recordWrite :: "CacheKey \<Rightarrow> LfuEvictionPolicy \<Rightarrow> LfuEvictionPolicy" where
  "lfu_recordWrite key s = (if js_has (lfu_frequency s) key then lfu_bump key s else lfu_initialize key s)"

definition lfu_recordRemoval :: "CacheKey \<Rightarrow> LfuEvictionPolicy \<Rightarrow> LfuEvictionPolicy" where
  "lfu_recordRemoval key s =
     (case js_get (lfu_frequency s) key of
        None \<Rightarrow> s
      | Some freq \<Rightarrow>
          (let s1 = s\<lparr>lfu_frequency := js_delete key (lfu_frequency s)\<rparr>;
               (emptied, s2) = leaveBucket freq key s1
           in if emptied \<and> lfu_minFrequency s2 = freq
              then s2\<lparr>lfu_minFrequency := lowestRemainingFrequency s2\<rparr> else s2))"

definition first_candidate_of :: "CacheKey list \<Rightarrow> nat \<Rightarrow> LfuEvictionPolicy \<Rightarrow> CacheKey option" where
  "first_candidate_of candidateSet freq s =
     (case js_get (lfu_buckets s) freq of
        None \<Rightarrow> None
      | Some bucket \<Rightarrow> find (\<lambda>key. key \<in> set candidateSet) bucket)"

fun walk_buckets :: "CacheKey list \<Rightarrow> nat list \<Rightarrow> LfuEvictionPolicy \<Rightarrow> CacheKey option" where
  "walk_buckets candidateSet [] s = None"
| "walk_buckets candidateSet (freq # freqs) s =
     (case first_candidate_of candidateSet freq s of
        Some key \<Rightarrow> Some key
      | None \<Rightarrow> walk_buckets candidateSet freqs s)"

definition lfu_selectVictim :: "CacheKey list \<Rightarrow> LfuEvictionPolicy \<Rightarrow> CacheKey option" where
  "lfu_selectVictim candidateKeys s =
     (if length candidateKeys = 0 then None
      else case first_candidate_of candidateKeys (lfu_minFrequency s) s of
             Some key \<Rightarrow> Some key
           | None \<Rightarrow>
               (case walk_buckets candidateKeys (sort (js_keys (lfu_buckets s))) s of
                  Some key \<Rightarrow> Some key
                | None \<Rightarrow> Some (candidateKeys ! 0)))"

definition lfu_reset :: "LfuEvictionPolicy \<Rightarrow> LfuEvictionPolicy" where
  "lfu_reset s = s\<lparr>lfu_frequency := [], lfu_buckets := [], lfu_minFrequency := 0\<rparr>"

definition lfu_seed_step :: "'v CacheEntry \<Rightarrow> LfuEvictionPolicy \<Rightarrow> LfuEvictionPolicy" where
  "lfu_seed_step entry s =
     (let f = cm_frequency (ce_metadata entry);
          freq = max 1 (if f = 0 then 1 else f)
      in addToBucket freq (ce_key entry)
           (s\<lparr>lfu_frequency := js_set (ce_key entry) freq (lfu_frequency s)\<rparr>))"

definition lfu_seed :: "'v CacheEntry list \<Rightarrow> LfuEvictionPolicy \<Rightarrow> LfuEvictionPolicy" where
  "lfu_seed entries s =
     (let s1 = fold lfu_seed_step entries (lfu_reset s)
      in s1\<lparr>lfu_minFrequency := lowestRemainingFrequency s1\<rparr>)"

definition lfu_size :: "LfuEvictionPolicy \<Rightarrow> nat" where
  "lfu_size s = length (lfu_frequency s)"

section \<open>The representation invariant\<close>

declare map_of_eq_Some_iff [simp del] Some_eq_map_of_iff [simp del]

definition bucket_of :: "LfuEvictionPolicy \<Rightarrow> nat \<Rightarrow> CacheKey list" where
  "bucket_of s f = (case js_get (lfu_buckets s) f of None \<Rightarrow> [] | Some b \<Rightarrow> b)"

abbreviation freq_of :: "LfuEvictionPolicy \<Rightarrow> CacheKey \<Rightarrow> nat option" where
  "freq_of s \<equiv> map_of (lfu_frequency s)"

text \<open>\<open>parts F m B N\<close>: the buckets \<open>B\<close> list exactly the keys of \<open>F\<close> by frequency.\<close>

definition lfu_parts :: "(CacheKey \<Rightarrow> nat option) \<Rightarrow> LfuEvictionPolicy \<Rightarrow> bool" where
  "lfu_parts F s \<longleftrightarrow> (\<forall>f. js_get (lfu_buckets s) f \<noteq> Some []) \<and>
     (\<forall>f. distinct (bucket_of s f)) \<and> (\<forall>f k. k \<in> set (bucket_of s f) \<longleftrightarrow> F k = Some f)"

definition lfu_min_ok :: "(CacheKey \<Rightarrow> nat option) \<Rightarrow> nat \<Rightarrow> bool" where
  "lfu_min_ok F m \<longleftrightarrow> (\<forall>k f. F k = Some f \<longrightarrow> 1 \<le> f \<and> m \<le> f) \<and>
     (if F = Map.empty then m = 0 else \<exists>k. F k = Some m)"

definition lfu_inv :: "LfuEvictionPolicy \<Rightarrow> bool" where
  "lfu_inv s \<longleftrightarrow> js_map_ok (lfu_frequency s) \<and> lfu_parts (freq_of s) s \<and>
     lfu_min_ok (freq_of s) (lfu_minFrequency s)"

lemma addToBucket_frame [simp]:
  "lfu_frequency (addToBucket f k s) = lfu_frequency s"
  "lfu_minFrequency (addToBucket f k s) = lfu_minFrequency s"
  by (simp_all add: addToBucket_def)

lemma leaveBucket_frame [simp]:
  "lfu_frequency (snd (leaveBucket f k s)) = lfu_frequency s"
  "lfu_minFrequency (snd (leaveBucket f k s)) = lfu_minFrequency s"
  by (simp_all add: leaveBucket_def Let_def split: option.split)

lemma addToBucket_bucket: "bucket_of (addToBucket f k s) g = (if g = f then set_add k (bucket_of s f) else bucket_of s g)"
  by (simp add: addToBucket_def bucket_of_def js_map_simps)

lemma lfu_parts_frame [simp]:
  "lfu_parts F (s\<lparr>lfu_frequency := a\<rparr>) = lfu_parts F s" "lfu_parts F (s\<lparr>lfu_minFrequency := m\<rparr>) = lfu_parts F s"
  by (simp_all add: lfu_parts_def bucket_of_def)

lemma addToBucket_parts:
  assumes "lfu_parts F s" and "F k = None"
  shows "lfu_parts (F(k \<mapsto> f)) (addToBucket f k s)"
  unfolding lfu_parts_def
proof (intro conjI allI)
  fix g
  have "set_add k b \<noteq> []" for b by (simp add: set_add_def) (auto split: list.split)
  then show "js_get (lfu_buckets (addToBucket f k s)) g \<noteq> Some []"
    using assms(1) by (simp add: addToBucket_def Let_def js_map_simps lfu_parts_def)
  show "distinct (bucket_of (addToBucket f k s) g)"
    using assms(1) by (simp add: addToBucket_bucket lfu_parts_def)
  show "j \<in> set (bucket_of (addToBucket f k s) g) \<longleftrightarrow> (F(k \<mapsto> f)) j = Some g" for j
    using assms by (auto simp: addToBucket_bucket lfu_parts_def)
qed

lemma leaveBucket_parts:
  assumes "lfu_parts F s" and "F k = Some f"
  shows "lfu_parts (F(k := None)) (snd (leaveBucket f k s))"
    and "fst (leaveBucket f k s) \<longleftrightarrow> (\<forall>j. F j = Some f \<longrightarrow> j = k)"
proof -
  from assms have mem: "k \<in> set (bucket_of s f)" by (simp add: lfu_parts_def)
  then obtain b where b: "js_get (lfu_buckets s) f = Some b" "bucket_of s f = b"
    by (cases "js_get (lfu_buckets s) f") (simp_all add: bucket_of_def)
  have bucket: "bucket_of (snd (leaveBucket f k s)) g = (if g = f then set_delete k b else bucket_of s g)" for g
    using b by (auto simp: leaveBucket_def Let_def bucket_of_def js_map_simps)
  have ne: "js_get (lfu_buckets (snd (leaveBucket f k s))) g \<noteq> Some []" for g
    using b assms(1) by (auto simp: leaveBucket_def Let_def lfu_parts_def js_map_simps)
  show "lfu_parts (F(k := None)) (snd (leaveBucket f k s))"
    using ne assms b(2) by (auto simp: lfu_parts_def bucket)
  have "fst (leaveBucket f k s) \<longleftrightarrow> set b \<subseteq> {k}"
  proof -
    have "set_delete k b = [] \<longleftrightarrow> set b - {k} = {}" by (metis set_empty set_set_delete)
    with b show ?thesis by (simp add: leaveBucket_def Let_def)
  qed
  moreover have "set b = {j. F j = Some f}" using assms(1) b(2) by (auto simp: lfu_parts_def)
  ultimately show "fst (leaveBucket f k s) \<longleftrightarrow> (\<forall>j. F j = Some f \<longrightarrow> j = k)" by auto
qed

lemma lowest_min_ok:
  assumes "lfu_parts F s" and "\<forall>k f. F k = Some f \<longrightarrow> 1 \<le> f"
  shows "lfu_min_ok F (lowestRemainingFrequency s)"
proof -
  let ?K = "fst ` set (lfu_buckets s)"
  have dom: "f \<in> ?K \<longleftrightarrow> (\<exists>k. F k = Some f)" for f
  proof -
    have "f \<in> ?K \<longleftrightarrow> js_get (lfu_buckets s) f \<noteq> None" by (simp add: map_of_eq_None_iff)
    also have "\<dots> \<longleftrightarrow> bucket_of s f \<noteq> []"
      using assms(1) by (auto simp: bucket_of_def lfu_parts_def split: option.split)
    also have "\<dots> \<longleftrightarrow> (\<exists>k. F k = Some f)"
      using assms(1) by (metis lfu_parts_def list.set_intros(1) list.exhaust empty_iff empty_set)
    finally show ?thesis .
  qed
  show ?thesis
  proof (cases "lfu_buckets s = []")
    case True
    with dom have "F k = None" for k by (cases "F k") auto
    then have "F = Map.empty" by auto
    with True show ?thesis by (simp add: lfu_min_ok_def lowestRemainingFrequency_def)
  next
    case False
    have "Min (insert \<infinity> (enat ` ?K)) = enat (Min ?K)"
    proof -
      have "Min (insert \<infinity> (enat ` ?K)) = Min (enat ` ?K)" using False by (simp add: min_def)
      also have "\<dots> = enat (Min ?K)" using False by (subst mono_Min_commute) (auto simp: mono_def)
      finally show ?thesis .
    qed
    then have m: "lowestRemainingFrequency s = Min ?K"
      using False by (simp add: lowestRemainingFrequency_def fold_min_Min)
    have "\<exists>k. F k = Some (Min ?K)" using False by (subst dom[symmetric]) (rule Min_in, simp_all)
    moreover have "Min ?K \<le> f" if "F k = Some f" for k f
      using that dom[of f] by (intro Min_le) auto
    ultimately show ?thesis using assms(2) unfolding lfu_min_ok_def m by auto
  qed
qed

section \<open>Every operation keeps the invariant and updates the use counts\<close>

abbreviation count_up :: "CacheKey \<Rightarrow> (CacheKey \<Rightarrow> nat option) \<Rightarrow> CacheKey \<Rightarrow> nat option" where
  "count_up k F \<equiv> F(k \<mapsto> (case F k of None \<Rightarrow> 1 | Some n \<Rightarrow> n + 1))"

lemma lfu_inv_new: "lfu_inv new_LfuEvictionPolicy" "freq_of new_LfuEvictionPolicy = Map.empty"
  by (simp_all add: lfu_inv_def lfu_parts_def lfu_min_ok_def new_LfuEvictionPolicy_def bucket_of_def)

lemma lfu_inv_reset: "lfu_inv (lfu_reset s)" "freq_of (lfu_reset s) = Map.empty"
  by (simp_all add: lfu_inv_def lfu_parts_def lfu_min_ok_def lfu_reset_def bucket_of_def)

lemma lfu_min_first:
  "lfu_min_ok F m \<Longrightarrow> F k = None \<Longrightarrow> lfu_min_ok (F(k \<mapsto> 1)) 1"
  by (auto simp: lfu_min_ok_def fun_upd_idem_iff)

lemma lfu_initialize_inv:
  assumes "lfu_inv s" and "freq_of s k = None"
  shows "lfu_inv (lfu_initialize k s) \<and> freq_of (lfu_initialize k s) = count_up k (freq_of s)"
proof -
  let ?s1 = "s\<lparr>lfu_frequency := js_set k 1 (lfu_frequency s)\<rparr>"
  have "lfu_parts ((freq_of s)(k \<mapsto> 1)) (addToBucket 1 k ?s1)"
    by (rule addToBucket_parts) (use assms in \<open>simp_all add: lfu_inv_def\<close>)
  moreover have "lfu_min_ok ((freq_of s)(k \<mapsto> 1)) 1"
    using assms by (intro lfu_min_first[of _ "lfu_minFrequency s"]) (simp_all add: lfu_inv_def)
  moreover have "freq_of (lfu_initialize k s) = (freq_of s)(k \<mapsto> 1)"
    by (simp add: lfu_initialize_def Let_def AList.update_conv')
  ultimately show ?thesis using assms by (simp add: lfu_inv_def lfu_initialize_def Let_def)
qed

lemma lfu_bump_new:
  assumes "lfu_inv s" and "freq_of s k = None"
  shows "lfu_bump k s = lfu_initialize k s"
  using assms by (simp add: lfu_bump_def lfu_initialize_def addToBucket_def Let_def lfu_inv_def lfu_min_ok_def)

lemma lfu_min_bump:
  assumes "lfu_min_ok F m" and "F k = Some f"
  shows "lfu_min_ok (F(k \<mapsto> Suc f)) (if (\<forall>j. F j = Some f \<longrightarrow> j = k) \<and> m = f then Suc f else m)"
proof (cases "(\<forall>j. F j = Some f \<longrightarrow> j = k) \<and> m = f")
  case True
  have "Suc f \<le> g" if "F j = Some g" "j \<noteq> k" for j g
  proof -
    from assms(1) True that(1) have "f \<le> g" by (auto simp: lfu_min_ok_def)
    moreover from True that have "g \<noteq> f" by auto
    ultimately show ?thesis by simp
  qed
  with True show ?thesis using assms(1) by (auto simp: lfu_min_ok_def)
next
  case False
  from assms obtain j where j: "F j = Some m" by (auto simp: lfu_min_ok_def split: if_splits)
  have "\<exists>i. i \<noteq> k \<and> F i = Some m"
  proof (cases "j = k")
    case True
    with j assms(2) False show ?thesis by auto
  qed (use j in auto)
  then have "\<exists>i. (F(k \<mapsto> Suc f)) i = Some m" by auto
  moreover have "m \<le> Suc f" using assms by (auto simp: lfu_min_ok_def intro: le_SucI)
  ultimately show ?thesis using False assms(1) by (auto simp: lfu_min_ok_def)
qed

lemma lfu_bump_inv:
  assumes "lfu_inv s" and "freq_of s k = Some f"
  shows "lfu_inv (lfu_bump k s) \<and> freq_of (lfu_bump k s) = count_up k (freq_of s)"
proof -
  let ?s1 = "s\<lparr>lfu_frequency := js_set k (Suc f) (lfu_frequency s)\<rparr>"
  let ?F = "freq_of s" and ?l = "leaveBucket f k ?s1"
  from assms have parts: "lfu_parts ?F ?s1" by (simp add: lfu_inv_def)
  from assms have "1 \<le> f" unfolding lfu_inv_def lfu_min_ok_def by blast
  then have f: "0 < f" by simp
  note leave = leaveBucket_parts[OF parts assms(2)]
  let ?s2 = "if fst ?l \<and> lfu_minFrequency s = f then (snd ?l)\<lparr>lfu_minFrequency := Suc f\<rparr> else snd ?l"
  have bump: "lfu_bump k s = addToBucket (Suc f) k ?s2"
    using assms(2) f by (simp add: lfu_bump_def Let_def case_prod_unfold)
  have freq: "freq_of (lfu_bump k s) = ?F(k \<mapsto> Suc f)"
    by (simp add: bump js_map_simps)
  have "lfu_parts ((?F(k := None))(k \<mapsto> Suc f)) (lfu_bump k s)"
    unfolding bump by (rule addToBucket_parts) (use leave(1) in simp_all)
  moreover have "lfu_min_ok (?F(k \<mapsto> Suc f)) (lfu_minFrequency (lfu_bump k s))"
  proof -
    have "lfu_minFrequency (lfu_bump k s) =
        (if (\<forall>j. ?F j = Some f \<longrightarrow> j = k) \<and> lfu_minFrequency s = f then Suc f else lfu_minFrequency s)"
      unfolding bump leave(2) by simp
    then show ?thesis using lfu_min_bump[of ?F "lfu_minFrequency s" k f] assms by (simp add: lfu_inv_def)
  qed
  moreover have "js_map_ok (lfu_frequency (lfu_bump k s))"
    using assms(1) by (simp add: bump lfu_inv_def)
  ultimately show ?thesis using freq assms(2) by (simp add: lfu_inv_def)
qed

lemma lfu_access_inv:
  "lfu_inv s \<Longrightarrow> lfu_inv (lfu_recordAccess k s) \<and> freq_of (lfu_recordAccess k s) = count_up k (freq_of s)"
  by (cases "freq_of s k")
     (simp_all only: lfu_recordAccess_def lfu_bump_new lfu_initialize_inv lfu_bump_inv)

lemma lfu_write_inv:
  "lfu_inv s \<Longrightarrow> lfu_inv (lfu_recordWrite k s) \<and> freq_of (lfu_recordWrite k s) = count_up k (freq_of s)"
proof (cases "freq_of s k")
  case None
  then show "lfu_inv s \<Longrightarrow> ?thesis"
    using lfu_initialize_inv[of s k] by (simp add: lfu_recordWrite_def js_has_def)
next
  case (Some f)
  then show "lfu_inv s \<Longrightarrow> ?thesis"
    using lfu_bump_inv[of s k f] by (simp add: lfu_recordWrite_def js_has_def)
qed

lemma lfu_min_remove:
  assumes "lfu_min_ok F m" and "F k = Some f" and "\<not> ((\<forall>j. F j = Some f \<longrightarrow> j = k) \<and> m = f)"
  shows "lfu_min_ok (F(k := None)) m"
proof -
  from assms obtain j where j: "F j = Some m" by (auto simp: lfu_min_ok_def split: if_splits)
  have "\<exists>i. i \<noteq> k \<and> F i = Some m"
  proof (cases "j = k")
    case True
    with j assms(2,3) show ?thesis by auto
  qed (use j in auto)
  then obtain i where "(F(k := None)) i = Some m" by (metis fun_upd_other)
  moreover from this have "F(k := None) \<noteq> Map.empty" by (metis option.distinct(1))
  ultimately show ?thesis using assms(1) unfolding lfu_min_ok_def by (metis fun_upd_apply option.distinct(1))
qed

lemma lfu_removal_inv:
  assumes "lfu_inv s"
  shows "lfu_inv (lfu_recordRemoval k s) \<and> freq_of (lfu_recordRemoval k s) = (freq_of s)(k := None)"
proof (cases "freq_of s k")
  case None
  with assms show ?thesis by (simp add: lfu_recordRemoval_def fun_upd_idem)
next
  case (Some f)
  let ?s1 = "s\<lparr>lfu_frequency := js_delete k (lfu_frequency s)\<rparr>"
  let ?F = "freq_of s" and ?l = "leaveBucket f k ?s1"
  let ?c = "fst ?l \<and> lfu_minFrequency s = f"
  from assms have parts: "lfu_parts ?F ?s1" and min: "lfu_min_ok ?F (lfu_minFrequency s)"
    by (auto simp: lfu_inv_def)
  note leave = leaveBucket_parts[OF parts Some]
  have rem: "lfu_recordRemoval k s =
      (if ?c then (snd ?l)\<lparr>lfu_minFrequency := lowestRemainingFrequency (snd ?l)\<rparr> else snd ?l)"
    using Some by (simp add: lfu_recordRemoval_def Let_def case_prod_unfold)
  have freq: "freq_of (lfu_recordRemoval k s) = ?F(k := None)" by (simp add: rem js_map_simps)
  have "lfu_min_ok (?F(k := None)) (lfu_minFrequency (lfu_recordRemoval k s))"
  proof (cases ?c)
    case True
    moreover have "\<forall>j g. (?F(k := None)) j = Some g \<longrightarrow> 1 \<le> g"
      using min unfolding lfu_min_ok_def by (metis fun_upd_apply option.distinct(1))
    ultimately show ?thesis using lowest_min_ok[OF leave(1)] by (simp add: rem)
  next
    case False
    with lfu_min_remove[OF min Some] leave(2) show ?thesis by (auto simp: rem)
  qed
  moreover have "lfu_parts (?F(k := None)) (lfu_recordRemoval k s)" using leave(1) by (simp add: rem)
  moreover have "js_map_ok (lfu_frequency (lfu_recordRemoval k s))"
    using assms by (simp add: rem lfu_inv_def js_map_ok_delete)
  ultimately show ?thesis using freq by (simp add: lfu_inv_def)
qed

section \<open>The victim\<close>

lemma first_candidate_bucket:
  "first_candidate_of C f s = find (\<lambda>k. k \<in> set C) (bucket_of s f)"
  by (simp add: first_candidate_of_def bucket_of_def split: option.split)

lemma walk_buckets_Some:
  assumes "walk_buckets C fs s = Some v"
  obtains gs f hs where "fs = gs @ f # hs" and "find (\<lambda>k. k \<in> set C) (bucket_of s f) = Some v"
    and "\<And>g. g \<in> set gs \<Longrightarrow> find (\<lambda>k. k \<in> set C) (bucket_of s g) = None"
  using assms
proof (induction fs arbitrary: thesis)
  case (Cons g fs)
  show ?case
  proof (cases "first_candidate_of C g s")
    case None
    with Cons.prems(2) obtain gs f hs where "fs = gs @ f # hs"
      and "find (\<lambda>k. k \<in> set C) (bucket_of s f) = Some v"
      and "\<And>g. g \<in> set gs \<Longrightarrow> find (\<lambda>k. k \<in> set C) (bucket_of s g) = None"
      using Cons.IH by auto
    with None show ?thesis
      by (intro Cons.prems(1)[of "g # gs" f hs]) (auto simp: first_candidate_bucket)
  next
    case (Some k)
    with Cons.prems(2) show ?thesis
      by (intro Cons.prems(1)[of "[]" g fs]) (auto simp: first_candidate_bucket)
  qed
qed simp

lemma walk_buckets_None:
  "walk_buckets C fs s = None \<Longrightarrow> f \<in> set fs \<Longrightarrow> find (\<lambda>k. k \<in> set C) (bucket_of s f) = None"
  by (induction fs) (auto simp: first_candidate_bucket split: option.splits)

lemma find_bucket:
  assumes "lfu_inv s" and "find (\<lambda>k. k \<in> set C) (bucket_of s f) = Some v"
  shows "v \<in> set C" and "freq_of s v = Some f"
  using assms find_Some_mem[OF assms(2)] by (auto simp: lfu_inv_def lfu_parts_def)

lemma no_candidate_at:
  assumes "lfu_inv s" and "find (\<lambda>k. k \<in> set C) (bucket_of s f) = None" and "k \<in> set C"
  shows "freq_of s k \<noteq> Some f"
  using assms unfolding lfu_inv_def lfu_parts_def find_None_iff by blast

lemma bucket_listed: "lfu_inv s \<Longrightarrow> freq_of s k = Some f \<Longrightarrow> f \<in> set (js_keys (lfu_buckets s))"
proof -
  assume "lfu_inv s" and "freq_of s k = Some f"
  then have "k \<in> set (bucket_of s f)" by (simp add: lfu_inv_def lfu_parts_def)
  then show ?thesis
    by (cases "js_get (lfu_buckets s) f") (auto simp: bucket_of_def dest: map_of_Some_fst)
qed

text \<open>The fast path and the sorted walk agree on the specification: a tracked candidate of least
  frequency whenever any candidate is tracked.\<close>

lemma lfu_victim_least:
  assumes inv: "lfu_inv s" and v: "lfu_selectVictim C s = Some v" and k: "k \<in> set C" "freq_of s k = Some f"
  shows "\<exists>g. freq_of s v = Some g \<and> g \<le> f"
proof (cases "first_candidate_of C (lfu_minFrequency s) s")
  case (Some w)
  with v k(1) have "find (\<lambda>k. k \<in> set C) (bucket_of s (lfu_minFrequency s)) = Some v"
    by (auto simp: lfu_selectVictim_def first_candidate_bucket split: if_splits)
  with find_bucket[OF inv] have "freq_of s v = Some (lfu_minFrequency s)" by blast
  moreover have "lfu_minFrequency s \<le> f" using inv k(2) unfolding lfu_inv_def lfu_min_ok_def by blast
  ultimately show ?thesis by simp
next
  case None
  let ?fs = "sort (js_keys (lfu_buckets s))"
  have mem: "f \<in> set ?fs" using bucket_listed[OF inv k(2)] by simp
  obtain w where w: "walk_buckets C ?fs s = Some w"
    using walk_buckets_None[OF _ mem] no_candidate_at[OF inv _ k(1)] k(2) by (metis not_None_eq)
  with None v k(1) have "w = v" by (auto simp: lfu_selectVictim_def split: if_splits)
  with w obtain gs g hs where split: "?fs = gs @ g # hs"
    and at: "find (\<lambda>k. k \<in> set C) (bucket_of s g) = Some v"
    and none: "\<And>g. g \<in> set gs \<Longrightarrow> find (\<lambda>k. k \<in> set C) (bucket_of s g) = None"
    by (elim walk_buckets_Some) blast
  have "f \<notin> set gs" using none no_candidate_at[OF inv _ k(1)] k(2) by blast
  with mem split have "f \<in> set (g # hs)" by simp
  moreover have "sorted (gs @ g # hs)" using split by (metis sorted_sort)
  ultimately have "g \<le> f" by (auto simp: sorted_append)
  with find_bucket(2)[OF inv at] show ?thesis by blast
qed

lemma lfu_victim_mem:
  assumes "lfu_inv s" and "lfu_selectVictim C s = Some v"
  shows "v \<in> set C"
proof -
  have w: "v \<in> set C" if "walk_buckets C fs s = Some v" for fs
    using that find_bucket(1)[OF assms(1)] by (elim walk_buckets_Some) blast
  then show ?thesis using assms find_bucket(1)[OF assms(1)]
    by (auto simp: lfu_selectVictim_def first_candidate_bucket split: if_splits option.splits)
qed

lemma lfu_victim_some: "C \<noteq> [] \<Longrightarrow> lfu_selectVictim C s \<noteq> None"
  by (simp add: lfu_selectVictim_def split: option.split)

section \<open>LFU as an eviction hook\<close>

definition lfu_hook :: "LfuEvictionPolicy EvictionHook" where
  "lfu_hook = \<lparr>recordAccess = lfu_recordAccess, recordWrite = lfu_recordWrite,
     recordRemoval = lfu_recordRemoval, selectVictim = lfu_selectVictim, onEvent = (\<lambda>_ _ s. s)\<rparr>"

lemma lfu_hook_simps [hook_simps]:
  "recordAccess lfu_hook = lfu_recordAccess" "recordWrite lfu_hook = lfu_recordWrite"
  "recordRemoval lfu_hook = lfu_recordRemoval" "selectVictim lfu_hook = lfu_selectVictim"
  "onEvent lfu_hook ev k s = s"
  by (simp_all add: lfu_hook_def)

interpretation lfu: eviction_hook lfu_hook lfu_inv "\<lambda>s. dom (freq_of s)"
  by unfold_locales
     (auto simp only: hook_simps lfu_access_inv lfu_write_inv lfu_removal_inv lfu_victim_mem
        lfu_victim_some dom_fun_upd option.distinct if_False if_True simp_thms split: if_splits)

section \<open>Seeding from the stored entries\<close>

abbreviation seed_freq :: "'v CacheEntry \<Rightarrow> nat" where
  "seed_freq e \<equiv> max 1 (cm_frequency (ce_metadata e))"

lemma lfu_seed_step_parts:
  assumes "lfu_parts (freq_of s) s" and "freq_of s (ce_key e) = None"
  shows "lfu_parts (freq_of (lfu_seed_step e s)) (lfu_seed_step e s)"
    and "freq_of (lfu_seed_step e s) = (freq_of s)(ce_key e \<mapsto> seed_freq e)"
    and "lfu_frequency (lfu_seed_step e s) = js_set (ce_key e) (seed_freq e) (lfu_frequency s)"
proof -
  let ?k = "ce_key e" and ?f = "seed_freq e"
  have step: "lfu_seed_step e s = addToBucket ?f ?k (s\<lparr>lfu_frequency := js_set ?k ?f (lfu_frequency s)\<rparr>)"
    by (simp add: lfu_seed_step_def Let_def)
  then show "lfu_frequency (lfu_seed_step e s) = js_set (ce_key e) (seed_freq e) (lfu_frequency s)" by simp
  then show freq: "freq_of (lfu_seed_step e s) = (freq_of s)(?k \<mapsto> ?f)"
    by (simp add: AList.update_conv')
  show "lfu_parts (freq_of (lfu_seed_step e s)) (lfu_seed_step e s)"
    unfolding freq unfolding step by (rule addToBucket_parts) (use assms in simp_all)
qed

lemma lfu_seed_fold:
  assumes "lfu_parts (freq_of s) s" and "js_map_ok (lfu_frequency s)"
    and "distinct (map ce_key es)" and "\<forall>e \<in> set es. freq_of s (ce_key e) = None"
    and "\<forall>k f. freq_of s k = Some f \<longrightarrow> 1 \<le> f"
  shows "let t = fold lfu_seed_step es s
    in lfu_parts (freq_of t) t \<and> js_map_ok (lfu_frequency t) \<and> (\<forall>k f. freq_of t k = Some f \<longrightarrow> 1 \<le> f) \<and>
       freq_of t = freq_of s ++ map_of (map (\<lambda>e. (ce_key e, seed_freq e)) es)"
  using assms
proof (induction es arbitrary: s)
  case (Cons e es)
  let ?s = "lfu_seed_step e s"
  from Cons.prems have none: "freq_of s (ce_key e) = None" by simp
  note st = lfu_seed_step_parts[OF Cons.prems(1) none]
  have new: "freq_of ?s = (freq_of s)(ce_key e \<mapsto> seed_freq e)" by (rule st(2))
  have notin: "map_of (map (\<lambda>e. (ce_key e, seed_freq e)) es) (ce_key e) = None"
    using Cons.prems(3) by (simp add: map_of_eq_None_iff o_def image_iff)
  have "let t = fold lfu_seed_step es ?s
    in lfu_parts (freq_of t) t \<and> js_map_ok (lfu_frequency t) \<and> (\<forall>k f. freq_of t k = Some f \<longrightarrow> 1 \<le> f) \<and>
       freq_of t = freq_of ?s ++ map_of (map (\<lambda>e. (ce_key e, seed_freq e)) es)"
  proof (rule Cons.IH)
    show "lfu_parts (freq_of ?s) ?s" by (rule st(1))
    show "js_map_ok (lfu_frequency ?s)" unfolding st(3) using Cons.prems(2) by (rule js_map_ok_set)
    show "\<forall>e' \<in> set es. freq_of ?s (ce_key e') = None"
      using Cons.prems(3,4) unfolding new by (auto simp: image_iff)
    show "\<forall>k f. freq_of ?s k = Some f \<longrightarrow> 1 \<le> f" using Cons.prems(5) unfolding new by auto
  qed (use Cons.prems(3) in simp)
  moreover have "freq_of ?s ++ map_of (map (\<lambda>e. (ce_key e, seed_freq e)) es) =
      freq_of s ++ map_of (map (\<lambda>e. (ce_key e, seed_freq e)) (e # es))"
    unfolding new using notin by (auto simp: map_add_def split: option.split)
  ultimately show ?case by (simp only: fold.simps o_apply)
qed simp

lemma lfu_seed_inv:
  assumes "distinct (map ce_key es)"
  shows "lfu_inv (lfu_seed es s)"
    and "freq_of (lfu_seed es s) = map_of (map (\<lambda>e. (ce_key e, seed_freq e)) es)"
proof -
  let ?t = "fold lfu_seed_step es (lfu_reset s)"
  from lfu_inv_reset[of s] have r: "lfu_parts (freq_of (lfu_reset s)) (lfu_reset s)"
    "js_map_ok (lfu_frequency (lfu_reset s))" unfolding lfu_inv_def by blast+
  have *: "lfu_parts (freq_of ?t) ?t" "js_map_ok (lfu_frequency ?t)"
    "\<forall>k f. freq_of ?t k = Some f \<longrightarrow> 1 \<le> f"
    "freq_of ?t = map_of (map (\<lambda>e. (ce_key e, seed_freq e)) es)"
    using lfu_seed_fold[OF r assms] unfolding lfu_inv_reset(2) Let_def empty_map_add by blast+
  have seed: "lfu_seed es s = ?t\<lparr>lfu_minFrequency := lowestRemainingFrequency ?t\<rparr>"
    by (simp add: lfu_seed_def Let_def)
  show "lfu_inv (lfu_seed es s)" unfolding seed lfu_inv_def
    using *(1,2) lowest_min_ok[OF *(1,3)] by simp
  show "freq_of (lfu_seed es s) = map_of (map (\<lambda>e. (ce_key e, seed_freq e)) es)"
    using *(4) by (simp add: seed)
qed

section \<open>Refinement of the use counts\<close>

datatype lfu_op = LfuAccess CacheKey | LfuWrite CacheKey | LfuRemoval CacheKey | LfuReset

fun lfu_exec :: "lfu_op \<Rightarrow> LfuEvictionPolicy \<Rightarrow> LfuEvictionPolicy" where
  "lfu_exec (LfuAccess k) s = lfu_recordAccess k s"
| "lfu_exec (LfuWrite k) s = lfu_recordWrite k s"
| "lfu_exec (LfuRemoval k) s = lfu_recordRemoval k s"
| "lfu_exec LfuReset s = lfu_reset s"

fun usage_exec :: "lfu_op \<Rightarrow> (CacheKey \<Rightarrow> nat option) \<Rightarrow> CacheKey \<Rightarrow> nat option" where
  "usage_exec (LfuAccess k) F = count_up k F"
| "usage_exec (LfuWrite k) F = count_up k F"
| "usage_exec (LfuRemoval k) F = F(k := None)"
| "usage_exec LfuReset F = Map.empty"

lemma lfu_exec_refines:
  "lfu_inv s \<Longrightarrow> lfu_inv (lfu_exec op s) \<and> freq_of (lfu_exec op s) = usage_exec op (freq_of s)"
  by (cases op) (simp_all only: lfu_exec.simps usage_exec.simps lfu_access_inv lfu_write_inv lfu_removal_inv lfu_inv_reset)

lemma lfu_fold_refines:
  "lfu_inv s \<Longrightarrow> lfu_inv (fold lfu_exec ops s) \<and> freq_of (fold lfu_exec ops s) = fold usage_exec ops (freq_of s)"
  by (induction ops arbitrary: s) (simp_all add: lfu_exec_refines)

text \<open>C15. The bucketed LFU refines plain use counting: after any sequence of accesses, writes,
  removals and resets the frequency map holds exactly the number of uses of each key since it was
  last added, and \<open>selectVictim\<close> answers a candidate that is used no more often than any tracked
  candidate, whichever of its three paths it takes.\<close>

theorem lfu_victim_least_used:
  assumes "C \<noteq> []"
  shows "let s = fold lfu_exec ops new_LfuEvictionPolicy; F = fold usage_exec ops Map.empty
    in map_of (lfu_frequency s) = F \<and>
       (\<exists>v. lfu_selectVictim C s = Some v \<and> v \<in> set C \<and>
         (\<forall>k \<in> set C. \<forall>f. F k = Some f \<longrightarrow> (\<exists>g \<le> f. F v = Some g)))"
proof -
  let ?s = "fold lfu_exec ops new_LfuEvictionPolicy"
  have inv: "lfu_inv ?s" and F: "freq_of ?s = fold usage_exec ops Map.empty"
    using lfu_fold_refines[OF lfu_inv_new(1), of ops] by (simp_all add: lfu_inv_new)
  obtain v where v: "lfu_selectVictim C ?s = Some v" using lfu_victim_some[OF assms] by blast
  show ?thesis using F v lfu_victim_mem[OF inv v] lfu_victim_least[OF inv v]
    unfolding Let_def F[symmetric] by blast
qed

theorem lfu_victim_least_used_witness:
  "let F = fold usage_exec [LfuWrite ''a'', LfuAccess ''a'', LfuWrite ''b''] Map.empty
   in \<exists>v \<in> {''a'', ''b''}. lfu_selectVictim [''a'', ''b'']
        (fold lfu_exec [LfuWrite ''a'', LfuAccess ''a'', LfuWrite ''b''] new_LfuEvictionPolicy) = Some v \<and>
        (\<exists>g \<le> 1. F v = Some g)"
proof -
  let ?ops = "[LfuWrite ''a'', LfuAccess ''a'', LfuWrite ''b'']"
  have "fold usage_exec ?ops Map.empty ''b'' = Some 1" by simp
  with lfu_victim_least_used[of "[''a'', ''b'']" ?ops] show ?thesis
    unfolding Let_def by (metis list.set_intros insert_iff list.simps(3,15) list.set(1))
qed

end
