(* ===== verification/CountMinSketch.thy ===== *)
theory CountMinSketch
  imports Shared
begin

text \<open>
  \<open>packages/eviction/src/CountMinSketch.ts\<close>: the frequency table of TinyLFU, with its
  \<open>Uint16Array\<close> as a list of 16-bit words and the FNV-1a row hash on 32-bit words.  The theorems give
  the exact content of every counter between two agings, from which "never under-counts" follows,
  and the effect of saturation and aging.
\<close>

unbundle bit_operations_syntax

section \<open>State and operations\<close>

definition DEFAULT_WIDTH :: nat where "DEFAULT_WIDTH = 2048"
definition DEFAULT_DEPTH :: nat where "DEFAULT_DEPTH = 4"
definition MAX_COUNTER :: "16 word" where "MAX_COUNTER = 65535"
definition DEFAULT_AGING_THRESHOLD :: nat where "DEFAULT_AGING_THRESHOLD = 50000"

record CountMinSketch =
  cms_width :: nat
  cms_depth :: nat
  cms_agingThreshold :: nat
  cms_table :: "16 word list"
  cms_additionsSinceAging :: nat

definition new_CountMinSketch :: "nat \<Rightarrow> nat \<Rightarrow> nat \<Rightarrow> CountMinSketch result" where
  "new_CountMinSketch width depth agingThreshold =
     (if width \<le> 0 \<or> depth \<le> 0
      then Inl (RangeError ''CountMinSketch width and depth must be positive'')
      else Inr \<lparr>cms_width = width, cms_depth = depth, cms_agingThreshold = agingThreshold,
                 cms_table = replicate (width * depth) 0, cms_additionsSinceAging = 0\<rparr>)"

definition fnv1aWithSeed :: "string \<Rightarrow> nat \<Rightarrow> 32 word" where
  "fnv1aWithSeed key seed =
     fold (\<lambda>c hash. (hash XOR of_nat (of_char c)) * 0x01000193) key (0x811c9dc5 XOR of_nat seed)"

definition indexFor :: "nat \<Rightarrow> string \<Rightarrow> nat \<Rightarrow> nat" where
  "indexFor width key row = row * width + unat (fnv1aWithSeed key row) mod width"

definition cms_bump_row :: "string \<Rightarrow> nat \<Rightarrow> CountMinSketch \<Rightarrow> CountMinSketch" where
  "cms_bump_row key row s =
     (let idx = indexFor (cms_width s) key row
      in if cms_table s ! idx < MAX_COUNTER
         then s\<lparr>cms_table := (cms_table s)[idx := cms_table s ! idx + 1]\<rparr> else s)"

definition cms_age :: "CountMinSketch \<Rightarrow> CountMinSketch" where
  "cms_age s = s\<lparr>cms_table := map (drop_bit 1) (cms_table s), cms_additionsSinceAging := 0\<rparr>"

definition cms_increment :: "string \<Rightarrow> CountMinSketch \<Rightarrow> CountMinSketch" where
  "cms_increment key s =
     (let s1 = fold (cms_bump_row key) [0..<cms_depth s] s;
          s2 = s1\<lparr>cms_additionsSinceAging := cms_additionsSinceAging s1 + 1\<rparr>
      in if cms_additionsSinceAging s2 \<ge> cms_agingThreshold s2 then cms_age s2 else s2)"

definition cms_estimate :: "string \<Rightarrow> CountMinSketch \<Rightarrow> 16 word" where
  "cms_estimate key s =
     fold (\<lambda>row m. if cms_table s ! indexFor (cms_width s) key row < m
                    then cms_table s ! indexFor (cms_width s) key row else m)
       [0..<cms_depth s] MAX_COUNTER"

definition cms_reset :: "CountMinSketch \<Rightarrow> CountMinSketch" where
  "cms_reset s = s\<lparr>cms_table := replicate (length (cms_table s)) 0, cms_additionsSinceAging := 0\<rparr>"

section \<open>The shape of the table\<close>

definition cms_ok :: "CountMinSketch \<Rightarrow> bool" where
  "cms_ok s \<longleftrightarrow> 0 < cms_width s \<and> 0 < cms_depth s \<and> length (cms_table s) = cms_width s * cms_depth s"

lemma indexFor_div [simp]: "0 < w \<Longrightarrow> indexFor w k r div w = r"
  by (simp add: indexFor_def)

lemma indexFor_less: "0 < w \<Longrightarrow> r < d \<Longrightarrow> indexFor w k r < w * d"
proof -
  assume "0 < w" and "r < d"
  then have "indexFor w k r < r * w + w" by (simp add: indexFor_def)
  also have "\<dots> = w * Suc r" by simp
  also have "\<dots> \<le> w * d" using \<open>r < d\<close> by (intro mult_le_mono) auto
  finally show ?thesis .
qed

definition sat_inc :: "16 word \<Rightarrow> 16 word" where
  "sat_inc x = (if x < MAX_COUNTER then x + 1 else x)"

lemma unat_le_max: "unat (x :: 16 word) \<le> 65535"
proof -
  have "unat x < 2 ^ LENGTH(16)" by (rule unsigned_less)
  then show ?thesis by simp
qed

lemma unat_sat_inc: "unat (sat_inc x) = min 65535 (Suc (unat x))"
proof -
  have max: "unat MAX_COUNTER = 65535" by (simp add: MAX_COUNTER_def)
  have le: "unat x \<le> 65535" by (rule unat_le_max)
  show ?thesis
  proof (cases "x < MAX_COUNTER")
    case True
    then have lt: "unat x < 65535" using max by (simp add: word_less_nat_alt)
    then have "unat (x + 1) = Suc (unat x)" by (simp add: unat_plus_simple[THEN iffD1] unat_word_ariths)
    with True lt show ?thesis by (simp add: sat_inc_def)
  next
    case False
    then have "unat x = 65535" using le max by (simp add: word_less_nat_alt)
    with False show ?thesis by (simp add: sat_inc_def)
  qed
qed

lemma cms_bump_row_fields [simp]:
  "cms_width (cms_bump_row k r s) = cms_width s" "cms_depth (cms_bump_row k r s) = cms_depth s"
  "cms_agingThreshold (cms_bump_row k r s) = cms_agingThreshold s"
  "cms_additionsSinceAging (cms_bump_row k r s) = cms_additionsSinceAging s"
  "length (cms_table (cms_bump_row k r s)) = length (cms_table s)"
  by (simp_all add: cms_bump_row_def Let_def)

lemma cms_bump_row_table:
  "j < length (cms_table s) \<Longrightarrow> cms_table (cms_bump_row k r s) ! j =
     (if j = indexFor (cms_width s) k r then sat_inc (cms_table s ! j) else cms_table s ! j)"
  by (auto simp: cms_bump_row_def Let_def sat_inc_def nth_list_update)

lemma cms_bump_rows_fields [simp]:
  "cms_width (fold (cms_bump_row k) rs s) = cms_width s" "cms_depth (fold (cms_bump_row k) rs s) = cms_depth s"
  "cms_agingThreshold (fold (cms_bump_row k) rs s) = cms_agingThreshold s"
  "cms_additionsSinceAging (fold (cms_bump_row k) rs s) = cms_additionsSinceAging s"
  "length (cms_table (fold (cms_bump_row k) rs s)) = length (cms_table s)"
  by (induction rs arbitrary: s) simp_all

lemma cms_bump_rows_table:
  assumes "0 < cms_width s" and "j < length (cms_table s)"
  shows "cms_table (fold (cms_bump_row k) [0..<n] s) ! j =
    (if j div cms_width s < n \<and> j = indexFor (cms_width s) k (j div cms_width s)
     then sat_inc (cms_table s ! j) else cms_table s ! j)"
proof (induction n)
  case (Suc n)
  then show ?case using assms by (auto simp: cms_bump_row_table less_Suc_eq)
qed simp

lemma cms_increment_fields [simp]:
  "cms_width (cms_increment k s) = cms_width s" "cms_depth (cms_increment k s) = cms_depth s"
  "cms_agingThreshold (cms_increment k s) = cms_agingThreshold s"
  "length (cms_table (cms_increment k s)) = length (cms_table s)"
  by (simp_all add: cms_increment_def Let_def cms_age_def)

lemma cms_ok_ops:
  "cms_ok s \<Longrightarrow> cms_ok (cms_increment k s)" "cms_ok s \<Longrightarrow> cms_ok (cms_age s)" "cms_ok s \<Longrightarrow> cms_ok (cms_reset s)"
  "new_CountMinSketch w d t = Inr s \<Longrightarrow> cms_ok s"
  by (auto simp: cms_ok_def cms_age_def cms_reset_def new_CountMinSketch_def split: if_splits)

section \<open>The estimate\<close>

lemma unat_Min: "finite A \<Longrightarrow> A \<noteq> {} \<Longrightarrow> unat (Min A) = Min (unat ` A)"
  by (rule mono_Min_commute) (auto simp: mono_def word_le_nat_alt)

lemma cms_estimate_Min:
  assumes "cms_ok s"
  shows "unat (cms_estimate k s) =
    Min ((\<lambda>r. unat (cms_table s ! indexFor (cms_width s) k r)) ` {..<cms_depth s})"
proof -
  let ?A = "(\<lambda>r. unat (cms_table s ! indexFor (cms_width s) k r)) ` {..<cms_depth s}"
  have ne: "?A \<noteq> {}" using assms by (auto simp: cms_ok_def)
  have "unat (cms_estimate k s) = Min (insert (unat MAX_COUNTER) ?A)"
    unfolding cms_estimate_def fold_min_Min
    by (subst unat_Min) (simp_all add: image_image atLeast0LessThan)
  also have "\<dots> = min 65535 (Min ?A)" using ne by (simp add: MAX_COUNTER_def)
  also have "\<dots> = Min ?A"
  proof -
    have "Min ?A \<in> ?A" using ne by (intro Min_in) simp_all
    then have "Min ?A \<le> 65535" using unat_le_max by fastforce
    then show ?thesis by simp
  qed
  finally show ?thesis .
qed

text \<open>Halving commutes with the minimum.\<close>

lemma cms_age_estimate: "cms_ok s \<Longrightarrow> unat (cms_estimate k (cms_age s)) = unat (cms_estimate k s) div 2"
proof -
  assume ok: "cms_ok s"
  let ?c = "\<lambda>r. cms_table s ! indexFor (cms_width s) k r"
  have cell: "unat (cms_table (cms_age s) ! indexFor (cms_width s) k r) = unat (?c r) div 2"
    if "r < cms_depth s" for r
    using that ok indexFor_less[of "cms_width s" r "cms_depth s" k]
    by (simp add: cms_age_def cms_ok_def unat_drop_bit_eq drop_bit_eq_div unat_div)
  have "unat (cms_estimate k (cms_age s)) = Min ((\<lambda>r. unat (?c r) div 2) ` {..<cms_depth s})"
    unfolding cms_estimate_Min[OF cms_ok_ops(2)[OF ok]]
    by (simp add: cms_age_def[of s, THEN arg_cong[where f = cms_width]]
        cms_age_def[of s, THEN arg_cong[where f = cms_depth]] cell cong: image_cong_simp)
  also have "\<dots> = Min ((\<lambda>n. n div 2) ` (\<lambda>r. unat (?c r)) ` {..<cms_depth s})"
    by (simp add: image_image)
  also have "\<dots> = Min ((\<lambda>r. unat (?c r)) ` {..<cms_depth s}) div 2"
    using ok by (subst mono_Min_commute[of "\<lambda>n. n div 2"]) (auto simp: mono_def div_le_mono cms_ok_def)
  finally show ?thesis by (simp add: cms_estimate_Min[OF ok])
qed

section \<open>Exact counter contents between agings\<close>

definition hits :: "nat \<Rightarrow> nat \<Rightarrow> string list \<Rightarrow> nat" where
  "hits w j ks = length (filter (\<lambda>x. j = indexFor w x (j div w)) ks)"

lemma cms_fold_fields [simp]:
  "cms_width (fold cms_increment ks s) = cms_width s" "cms_depth (fold cms_increment ks s) = cms_depth s"
  "cms_agingThreshold (fold cms_increment ks s) = cms_agingThreshold s"
  "length (cms_table (fold cms_increment ks s)) = length (cms_table s)"
  by (induction ks arbitrary: s) simp_all

lemma cms_increment_quiet:
  assumes "cms_additionsSinceAging s + 1 < cms_agingThreshold s"
  shows "cms_additionsSinceAging (cms_increment k s) = cms_additionsSinceAging s + 1"
    and "cms_table (cms_increment k s) = cms_table (fold (cms_bump_row k) [0..<cms_depth s] s)"
  using assms by (simp_all add: cms_increment_def Let_def)

lemma cms_fold_table:
  assumes "cms_ok s" and "cms_additionsSinceAging s + length ks < cms_agingThreshold s"
    and "j < length (cms_table s)"
  shows "unat (cms_table (fold cms_increment ks s) ! j) =
    min 65535 (unat (cms_table s ! j) + hits (cms_width s) j ks)"
  using assms
proof (induction ks arbitrary: s)
  case Nil
  then show ?case by (simp add: hits_def unat_le_max min_absorb2)
next
  case (Cons k ks)
  let ?t = "cms_increment k s" and ?w = "cms_width s"
  from Cons.prems(2) have q: "cms_additionsSinceAging s + 1 < cms_agingThreshold s" by simp
  note quiet = cms_increment_quiet[OF q]
  have row: "j div ?w < cms_depth s"
    using Cons.prems by (simp add: cms_ok_def less_mult_imp_div_less mult.commute)
  have "unat (cms_table ?t ! j) =
      min 65535 (unat (cms_table s ! j) + (if j = indexFor ?w k (j div ?w) then 1 else 0))"
    using Cons.prems row
    by (simp add: quiet(2) cms_bump_rows_table cms_ok_def unat_sat_inc unat_le_max min_absorb2)
  moreover have "unat (cms_table (fold cms_increment ks ?t) ! j) =
      min 65535 (unat (cms_table ?t ! j) + hits ?w j ks)"
    using Cons.IH[of ?t] Cons.prems quiet(1) by (simp add: cms_ok_ops(1))
  ultimately show ?case by (auto simp: hits_def)
qed

lemma hits_indexFor:
  "0 < w \<Longrightarrow> hits w (indexFor w k r) ks = length (filter (\<lambda>x. indexFor w x r = indexFor w k r) ks)"
  by (auto simp: hits_def intro!: arg_cong[where f = length] filter_cong)

lemma count_le_hits: "count_list ks k \<le> length (filter (\<lambda>x. indexFor w x r = indexFor w k r) ks)"
  by (induction ks) auto

lemma new_sketch:
  assumes "new_CountMinSketch w d t = Inr s"
  shows "cms_ok s" "cms_width s = w" "cms_depth s = d" "cms_agingThreshold s = t"
    "cms_additionsSinceAging s = 0" "0 < w" "0 < d" "j < w * d \<Longrightarrow> cms_table s ! j = 0" "length (cms_table s) = w * d"
  using assms by (auto simp: new_CountMinSketch_def cms_ok_def split: if_splits)

text \<open>C20. Between two agings the sketch counts exactly: after the increments \<open>ks\<close> on a new sketch the
  estimate of \<open>k\<close> is the least, over the rows, of the number of increments that fell into the cell
  of \<open>k\<close>, saturated at 65535.  In particular it never under-counts and never exceeds the number
  of increments.\<close>

theorem cms_estimate_exact:
  assumes "new_CountMinSketch w d t = Inr s0" and "length ks < t"
  shows "let e = unat (cms_estimate k (fold cms_increment ks s0))
    in e = Min ((\<lambda>r. min 65535 (length (filter (\<lambda>x. indexFor w x r = indexFor w k r) ks))) ` {..<d}) \<and>
       min 65535 (count_list ks k) \<le> e \<and> e \<le> length ks"
proof -
  note n = new_sketch[OF assms(1)]
  let ?s = "fold cms_increment ks s0"
  let ?h = "\<lambda>r. min 65535 (length (filter (\<lambda>x. indexFor w x r = indexFor w k r) ks))"
  have ok: "cms_ok ?s" using n(1) by (simp add: cms_ok_def)
  have cell: "unat (cms_table ?s ! indexFor w k r) = ?h r" if "r < d" for r
    using that cms_fold_table[OF n(1), of ks "indexFor w k r"] indexFor_less[OF n(6) that, of k] assms(2) n
    by (simp add: hits_indexFor)
  have e: "unat (cms_estimate k ?s) = Min (?h ` {..<d})"
    unfolding cms_estimate_Min[OF ok] using n(2,3) cell by (simp cong: image_cong_simp)
  have fin: "finite (?h ` {..<d})" "?h ` {..<d} \<noteq> {}" using n(7) by auto
  have "min 65535 (count_list ks k) \<le> Min (?h ` {..<d})"
    using fin count_le_hits[of ks k w] by (auto simp: Min_ge_iff intro: min.coboundedI2)
  moreover have "Min (?h ` {..<d}) \<le> ?h 0" using fin n(7) by (intro Min_le) auto
  moreover have "?h 0 \<le> length ks" by (meson length_filter_le min.coboundedI2)
  ultimately show ?thesis using e unfolding Let_def by linarith
qed

theorem cms_estimate_exact_witness:
  "\<exists>s0. new_CountMinSketch 8 2 100 = Inr s0 \<and>
     2 \<le> unat (cms_estimate ''a'' (fold cms_increment [''a'', ''b'', ''a''] s0)) \<and>
     unat (cms_estimate ''a'' (fold cms_increment [''a'', ''b'', ''a''] s0)) \<le> 3"
proof -
  obtain s0 where s0: "new_CountMinSketch 8 2 100 = Inr s0" by (simp add: new_CountMinSketch_def)
  with cms_estimate_exact[OF s0, of "[''a'', ''b'', ''a'']" "''a''"] show ?thesis by (auto simp: Let_def)
qed

lemma cms_bumped_estimate:
  assumes "cms_ok s"
  shows "unat (cms_estimate k (fold (cms_bump_row k) [0..<cms_depth s] s)) =
    min 65535 (Suc (unat (cms_estimate k s)))"
proof -
  let ?c = "\<lambda>r. unat (cms_table s ! indexFor (cms_width s) k r)" and ?d = "cms_depth s"
  let ?t = "fold (cms_bump_row k) [0..<?d] s"
  from assms have ok: "cms_ok ?t" by (simp add: cms_ok_def)
  have cell: "unat (cms_table ?t ! indexFor (cms_width s) k r) = min 65535 (Suc (?c r))" if "r < ?d" for r
    using that assms indexFor_less[of "cms_width s" r ?d k]
    by (simp add: cms_bump_rows_table cms_ok_def unat_sat_inc)
  have "unat (cms_estimate k ?t) = Min ((\<lambda>n. min 65535 (Suc n)) ` ?c ` {..<?d})"
    unfolding cms_estimate_Min[OF ok] by (simp add: cell image_image cong: image_cong_simp)
  also have "\<dots> = min 65535 (Suc (Min (?c ` {..<?d})))"
    using assms by (subst mono_Min_commute[of "\<lambda>n. min 65535 (Suc n)"]) (auto simp: mono_def cms_ok_def)
  finally show ?thesis by (simp add: cms_estimate_Min[OF assms])
qed

lemma cms_estimate_additions [simp]:
  "cms_estimate k (s\<lparr>cms_additionsSinceAging := n\<rparr>) = cms_estimate k s"
  unfolding cms_estimate_def by (simp cong: if_cong)

text \<open>One increment raises the estimate of its key by one, saturating at 65535; the increment
  that reaches the aging threshold halves the result and restarts the count of additions.\<close>

theorem cms_increment_estimate:
  assumes "cms_ok s"
  shows "unat (cms_estimate k (cms_increment k s)) =
      (if cms_additionsSinceAging s + 1 < cms_agingThreshold s
       then min 65535 (unat (cms_estimate k s) + 1)
       else min 65535 (unat (cms_estimate k s) + 1) div 2) \<and>
    cms_additionsSinceAging (cms_increment k s) =
      (if cms_additionsSinceAging s + 1 < cms_agingThreshold s then cms_additionsSinceAging s + 1 else 0)"
proof -
  let ?t = "fold (cms_bump_row k) [0..<cms_depth s] s"
  let ?u = "?t\<lparr>cms_additionsSinceAging := Suc (cms_additionsSinceAging s)\<rparr>"
  have inc: "cms_increment k s =
      (if cms_additionsSinceAging s + 1 < cms_agingThreshold s then ?u else cms_age ?u)"
    by (simp add: cms_increment_def Let_def)
  have "cms_ok ?u" using assms by (simp add: cms_ok_def)
  with cms_bumped_estimate[OF assms, of k] show ?thesis
    by (simp add: inc cms_age_estimate) (simp add: cms_age_def)
qed

theorem cms_increment_estimate_witness:
  "\<exists>s. cms_ok s \<and> cms_additionsSinceAging (cms_increment ''a'' s) = 0 \<and>
     unat (cms_estimate ''a'' (cms_increment ''a'' s)) = min 65535 (unat (cms_estimate ''a'' s) + 1) div 2"
proof -
  let ?s = "\<lparr>cms_width = 2, cms_depth = 1, cms_agingThreshold = 1, cms_table = [7, 9],
    cms_additionsSinceAging = 0\<rparr>"
  have "cms_ok ?s" by (simp add: cms_ok_def)
  with cms_increment_estimate[of ?s "''a''"] show ?thesis by (intro exI[of _ ?s]) simp
qed

end
