(* ===== verification/TinyLfu.thy ===== *)
theory TinyLfu
  imports Lru CountMinSketch
begin

text \<open>
  \<open>packages/eviction/src/TinyLFU.ts\<close>: recency from a composed LRU list, frequency from the
  sketch; among the \<open>bottomK\<close> least recently used candidates the one with the least estimated
  frequency is evicted.
\<close>

section \<open>State and operations\<close>

definition DEFAULT_BOTTOM_K :: nat where "DEFAULT_BOTTOM_K = 5"

record TinyLfuEvictionPolicy =
  tl_recency :: LruEvictionPolicy
  tl_sketch :: CountMinSketch
  tl_bottomK :: nat

definition new_TinyLfuEvictionPolicy :: "nat option \<Rightarrow> CountMinSketch option \<Rightarrow> TinyLfuEvictionPolicy result" where
  "new_TinyLfuEvictionPolicy bottomK sketch =
     (case (case sketch of
              Some s \<Rightarrow> Inr s
            | None \<Rightarrow> new_CountMinSketch DEFAULT_WIDTH DEFAULT_DEPTH DEFAULT_AGING_THRESHOLD) of
        Inl e \<Rightarrow> Inl e
      | Inr s \<Rightarrow> Inr \<lparr>tl_recency = new_LruEvictionPolicy, tl_sketch = s,
                  tl_bottomK = (case bottomK of None \<Rightarrow> DEFAULT_BOTTOM_K | Some k \<Rightarrow> k)\<rparr>)"

definition tl_recordAccess :: "CacheKey \<Rightarrow> TinyLfuEvictionPolicy \<Rightarrow> TinyLfuEvictionPolicy" where
  "tl_recordAccess key s =
     s\<lparr>tl_recency := lru_recordAccess key (tl_recency s), tl_sketch := cms_increment key (tl_sketch s)\<rparr>"

definition tl_recordWrite :: "CacheKey \<Rightarrow> TinyLfuEvictionPolicy \<Rightarrow> TinyLfuEvictionPolicy" where
  "tl_recordWrite key s =
     s\<lparr>tl_recency := lru_recordWrite key (tl_recency s), tl_sketch := cms_increment key (tl_sketch s)\<rparr>"

definition tl_recordRemoval :: "CacheKey \<Rightarrow> TinyLfuEvictionPolicy \<Rightarrow> TinyLfuEvictionPolicy" where
  "tl_recordRemoval key s = s\<lparr>tl_recency := lru_recordRemoval key (tl_recency s)\<rparr>"

definition least_estimate :: "CountMinSketch \<Rightarrow> CacheKey \<Rightarrow> CacheKey list \<Rightarrow> CacheKey" where
  "least_estimate sk first rest =
     fst (fold (\<lambda>candidate (victim, victimFreq).
            let freq = cms_estimate candidate sk
            in if freq < victimFreq then (candidate, freq) else (victim, victimFreq))
          rest (first, cms_estimate first sk))"

definition tl_selectVictim :: "CacheKey list \<Rightarrow> TinyLfuEvictionPolicy \<Rightarrow> CacheKey option" where
  "tl_selectVictim candidateKeys s =
     (case leastRecentlyUsedCandidates candidateKeys (tl_bottomK s) (tl_recency s) of
        [] \<Rightarrow> lru_selectVictim candidateKeys (tl_recency s)
      | first # rest \<Rightarrow> Some (least_estimate (tl_sketch s) first rest))"

definition tl_reset :: "TinyLfuEvictionPolicy \<Rightarrow> TinyLfuEvictionPolicy" where
  "tl_reset s = s\<lparr>tl_recency := lru_reset (tl_recency s), tl_sketch := cms_reset (tl_sketch s)\<rparr>"

definition replayCount :: "'v CacheEntry \<Rightarrow> nat" where
  "replayCount entry = min (max 1 (cm_frequency (ce_metadata entry))) 32"

definition tl_seed :: "'v CacheEntry list \<Rightarrow> TinyLfuEvictionPolicy \<Rightarrow> TinyLfuEvictionPolicy" where
  "tl_seed entries s =
     s\<lparr>tl_recency := lru_seed entries (tl_recency s),
       tl_sketch := fold (\<lambda>entry. (cms_increment (ce_key entry) ^^ replayCount entry))
                      entries (cms_reset (tl_sketch s))\<rparr>"

definition tl_size :: "TinyLfuEvictionPolicy \<Rightarrow> nat" where
  "tl_size s = lru_size (tl_recency s)"

section \<open>The least estimate among the bottom candidates\<close>

lemma least_estimate_first:
  "\<exists>xs ys. first # rest = xs @ least_estimate sk first rest # ys \<and>
     (\<forall>x \<in> set xs. cms_estimate (least_estimate sk first rest) sk < cms_estimate x sk) \<and>
     (\<forall>y \<in> set ys. cms_estimate (least_estimate sk first rest) sk \<le> cms_estimate y sk)"
proof (induction rest rule: rev_induct)
  case Nil
  then show ?case by (intro exI[of _ "[]"]) (simp add: least_estimate_def)
next
  case (snoc c rest)
  let ?v = "least_estimate sk first rest"
  have acc: "fold (\<lambda>candidate (victim, victimFreq).
            let freq = cms_estimate candidate sk
            in if freq < victimFreq then (candidate, freq) else (victim, victimFreq))
          rest (first, cms_estimate first sk) = (?v, cms_estimate ?v sk)"
    unfolding least_estimate_def by (induction rest rule: rev_induct) (auto simp: Let_def split: prod.splits)
  then have step: "least_estimate sk first (rest @ [c]) =
      (if cms_estimate c sk < cms_estimate ?v sk then c else ?v)"
    by (simp add: least_estimate_def[of sk first "rest @ [c]"] Let_def)
  from snoc obtain xs ys where split: "first # rest = xs @ ?v # ys"
    and less: "\<forall>x \<in> set xs. cms_estimate ?v sk < cms_estimate x sk"
    and le: "\<forall>y \<in> set ys. cms_estimate ?v sk \<le> cms_estimate y sk" by blast
  show ?case
  proof (cases "cms_estimate c sk < cms_estimate ?v sk")
    case True
    have "\<forall>x \<in> set (first # rest). cms_estimate c sk < cms_estimate x sk"
      unfolding split using True less le by (auto intro: order.strict_trans order.strict_trans2)
    with True step show ?thesis by (intro exI[of _ "first # rest"] exI[of _ "[]"]) simp
  next
    case False
    with split less le step show ?thesis
      by (intro exI[of _ xs] exI[of _ "ys @ [c]"]) (auto simp: not_less)
  qed
qed

lemma least_estimate_mem: "least_estimate sk first rest \<in> set (first # rest)"
  using least_estimate_first[of first rest sk] by (metis in_set_conv_decomp)

abbreviation tl_inv :: "TinyLfuEvictionPolicy \<Rightarrow> bool" where
  "tl_inv s \<equiv> lru_inv (tl_recency s)"

abbreviation tl_tracked :: "TinyLfuEvictionPolicy \<Rightarrow> CacheKey set" where
  "tl_tracked s \<equiv> set (lru_list (tl_recency s))"

lemma tl_victim_mem:
  assumes "tl_inv s" and "tl_selectVictim C s = Some v"
  shows "v \<in> set C"
proof (cases "leastRecentlyUsedCandidates C (tl_bottomK s) (tl_recency s)")
  case Nil
  with assms show ?thesis by (auto simp: tl_selectVictim_def lru_victim_find dest: find_Some_mem)
next
  case (Cons c cs)
  with assms(2) have "v \<in> set (leastRecentlyUsedCandidates C (tl_bottomK s) (tl_recency s))"
    using least_estimate_mem by (auto simp: tl_selectVictim_def)
  then show ?thesis by (auto simp: lru_candidates_list[OF assms(1)] dest: in_set_takeD)
qed

lemma tl_victim_some:
  assumes "tl_inv s" and "C \<noteq> []" and "set C \<subseteq> tl_tracked s"
  shows "tl_selectVictim C s \<noteq> None"
proof -
  from assms have "\<exists>k \<in> set (lru_list (tl_recency s)). k \<in> set C" by (cases C) auto
  then have "lru_selectVictim C (tl_recency s) \<noteq> None"
    unfolding lru_victim_find[OF assms(1)] by (auto simp: find_None_iff simp del: not_None_eq)
  then show ?thesis by (auto simp: tl_selectVictim_def split: list.split)
qed

lemma tl_seed_inv: "tl_inv (tl_seed es s) \<and> tl_tracked (tl_seed es s) = ce_key ` set es"
  by (simp add: tl_seed_def lru_seed_list)

section \<open>TinyLFU as an eviction hook\<close>

definition tl_hook :: "TinyLfuEvictionPolicy EvictionHook" where
  "tl_hook = \<lparr>recordAccess = tl_recordAccess, recordWrite = tl_recordWrite,
     recordRemoval = tl_recordRemoval, selectVictim = tl_selectVictim, onEvent = (\<lambda>_ _ s. s)\<rparr>"

lemma tl_hook_simps [hook_simps]:
  "recordAccess tl_hook = tl_recordAccess" "recordWrite tl_hook = tl_recordWrite"
  "recordRemoval tl_hook = tl_recordRemoval" "selectVictim tl_hook = tl_selectVictim"
  "onEvent tl_hook ev k s = s"
  by (simp_all add: tl_hook_def)

lemma tl_recency_ops [simp]:
  "tl_recency (tl_recordAccess k s) = lru_touch k (tl_recency s)"
  "tl_recency (tl_recordWrite k s) = lru_touch k (tl_recency s)"
  "tl_recency (tl_recordRemoval k s) = lru_recordRemoval k (tl_recency s)"
  "tl_bottomK (tl_recordAccess k s) = tl_bottomK s" "tl_bottomK (tl_recordWrite k s) = tl_bottomK s"
  "tl_bottomK (tl_recordRemoval k s) = tl_bottomK s"
  by (simp_all add: tl_recordAccess_def tl_recordWrite_def tl_recordRemoval_def
      lru_recordAccess_def lru_recordWrite_def)

interpretation tiny_lfu: eviction_hook tl_hook tl_inv tl_tracked
  by unfold_locales (auto simp: hook_simps lru_touch_list lru_removal_list tl_victim_mem tl_victim_some)

section \<open>Which candidate is evicted\<close>

fun tl_exec :: "lru_op \<Rightarrow> TinyLfuEvictionPolicy \<Rightarrow> TinyLfuEvictionPolicy" where
  "tl_exec (LruAccess k) s = tl_recordAccess k s"
| "tl_exec (LruWrite k) s = tl_recordWrite k s"
| "tl_exec (LruRemoval k) s = tl_recordRemoval k s"
| "tl_exec LruReset s = tl_reset s"

lemma tl_fold_refines:
  "tl_inv s \<Longrightarrow> tl_inv (fold tl_exec ops s) \<and> tl_bottomK (fold tl_exec ops s) = tl_bottomK s \<and>
   lru_list (tl_recency (fold tl_exec ops s)) = fold recency_exec ops (lru_list (tl_recency s))"
proof (induction ops arbitrary: s)
  case (Cons op ops)
  have "tl_inv (tl_exec op s) \<and> tl_bottomK (tl_exec op s) = tl_bottomK s \<and>
      lru_list (tl_recency (tl_exec op s)) = recency_exec op (lru_list (tl_recency s))"
    using Cons.prems by (cases op) (simp_all add: lru_touch_list lru_removal_list tl_reset_def lru_inv_reset)
  with Cons.IH[of "tl_exec op s"] show ?case by simp
qed simp

text \<open>C22. TinyLFU evicts, of the \<open>bottomK\<close> least recently used candidates, the one with the least
  estimated frequency, and the least recently used of those that tie: after any sequence of
  operations the bottom candidates split around the victim into strictly more frequent ones before
  it and at least as frequent ones after it.\<close>

theorem tinylfu_victim:
  assumes "new_TinyLfuEvictionPolicy bottomK sketch = Inr s0"
    and "bottom = take (tl_bottomK s0) (filter (\<lambda>k. k \<in> set C) (rev (fold recency_exec ops [])))"
    and "bottom \<noteq> []"
  shows "let s = fold tl_exec ops s0; est = (\<lambda>k. unat (cms_estimate k (tl_sketch s)))
    in \<exists>v xs ys. tl_selectVictim C s = Some v \<and> bottom = xs @ v # ys \<and>
         (\<forall>x \<in> set xs. est v < est x) \<and> (\<forall>y \<in> set ys. est v \<le> est y)"
proof -
  let ?s = "fold tl_exec ops s0"
  have r0: "tl_recency s0 = new_LruEvictionPolicy"
    using assms(1) by (auto simp: new_TinyLfuEvictionPolicy_def split: sum.splits)
  have inv: "tl_inv ?s" and K: "tl_bottomK ?s = tl_bottomK s0"
    and list: "lru_list (tl_recency ?s) = fold recency_exec ops []"
    using tl_fold_refines[of s0 ops] by (simp_all add: r0 lru_inv_new)
  have b: "leastRecentlyUsedCandidates C (tl_bottomK ?s) (tl_recency ?s) = bottom"
    unfolding lru_candidates_list[OF inv] list K assms(2) ..
  obtain c cs where bottom: "bottom = c # cs" using assms(3) by (cases bottom) auto
  then have "tl_selectVictim C ?s = Some (least_estimate (tl_sketch ?s) c cs)"
    by (simp add: tl_selectVictim_def b)
  with least_estimate_first[of c cs "tl_sketch ?s"] bottom show ?thesis
    unfolding Let_def by (auto simp: word_less_nat_alt word_le_nat_alt)
qed

theorem tinylfu_victim_witness:
  "\<exists>s0 v. new_TinyLfuEvictionPolicy (Some 2) (Some \<lparr>cms_width = 2, cms_depth = 1, cms_agingThreshold = 9,
       cms_table = [0, 0], cms_additionsSinceAging = 0\<rparr>) = Inr s0 \<and>
     tl_selectVictim [''a'', ''b'', ''c''] (fold tl_exec [LruWrite ''a'', LruWrite ''b'', LruWrite ''c''] s0) = Some v \<and>
     v \<in> {''a'', ''b''}"
proof -
  let ?sk = "\<lparr>cms_width = 2, cms_depth = 1, cms_agingThreshold = 9, cms_table = [0, 0],
    cms_additionsSinceAging = 0\<rparr>"
  let ?s0 = "\<lparr>tl_recency = new_LruEvictionPolicy, tl_sketch = ?sk, tl_bottomK = 2\<rparr>"
  let ?ops = "[LruWrite ''a'', LruWrite ''b'', LruWrite ''c'']" and ?C = "[''a'', ''b'', ''c'']"
  have new: "new_TinyLfuEvictionPolicy (Some 2) (Some ?sk) = Inr ?s0"
    by (simp add: new_TinyLfuEvictionPolicy_def)
  have bottom: "[''a'', ''b''] = take (tl_bottomK ?s0) (filter (\<lambda>k. k \<in> set ?C) (rev (fold recency_exec ?ops [])))"
    by simp
  from tinylfu_victim[OF new bottom] obtain v xs ys
    where v: "tl_selectVictim ?C (fold tl_exec ?ops ?s0) = Some v" and "[''a'', ''b''] = xs @ v # ys"
    unfolding Let_def by blast
  then have "v \<in> set [''a'', ''b'']" by (metis in_set_conv_decomp)
  with new v show ?thesis by (intro exI[of _ ?s0] exI[of _ v]) simp
qed

end
