(* ===== verification/Workload.thy ===== *)
theory Workload
  imports Shared
begin

text \<open>
  \<open>packages/eviction/src/WorkloadMonitor.ts\<close> and \<open>DecisionRules.ts\<close>: the sliding-window statistics
  of the traffic, the Gini coefficient of the access frequencies, the detection of sequential scans
  and the rule table that recommends a policy.  Ratios are exact rationals.  The explanation text of
  a decision is kept as the rule that fired with the numbers it prints.
\<close>

section \<open>WorkloadMonitor.ts\<close>

definition WINDOW_CAPACITY :: nat where "WINDOW_CAPACITY = 2000"
definition EMA_ALPHA :: rat where "EMA_ALPHA = 1 / 4"

text \<open>The regular expression \<open>/(\d+)(?!.*\d)/\<close>: the leftmost maximal run of digits after which no
  digit follows on the same line (a shorter run is followed by a digit, so backtracking never helps).\<close>

definition line_terminator :: "char \<Rightarrow> bool" where
  "line_terminator c \<longleftrightarrow> (of_char c :: nat) = 10 \<or> (of_char c :: nat) = 13"

definition digit_ahead :: "string \<Rightarrow> bool" where
  "digit_ahead cs \<longleftrightarrow> list_ex is_digit (takeWhile (\<lambda>c. \<not> line_terminator c) cs)"

fun TRAILING_NUMBER :: "string \<Rightarrow> string option" where
  "TRAILING_NUMBER [] = None"
| "TRAILING_NUMBER (c # cs) =
     (if is_digit c \<and> \<not> digit_ahead (dropWhile is_digit cs)
      then Some (c # takeWhile is_digit cs) else TRAILING_NUMBER cs)"

record WorkloadMonitor =
  wm_recentKeys :: "CacheKey RingBuffer"
  wm_hitRateEma :: Ema
  wm_writeRatioEma :: Ema
  wm_hitsInWindow :: nat
  wm_missesInWindow :: nat
  wm_writesInWindow :: nat
  wm_readsInWindow :: nat
  wm_totalSamples :: nat
  wm_lastNumericSuffix :: "nat option"
  wm_sequentialMatches :: nat
  wm_sequentialSamples :: nat

definition new_WorkloadMonitor :: "WorkloadMonitor result" where
  "new_WorkloadMonitor =
     (case (new_RingBuffer WINDOW_CAPACITY, new_Ema EMA_ALPHA, new_Ema EMA_ALPHA) of
        (Inr rb, Inr h, Inr w) \<Rightarrow>
          Inr \<lparr>wm_recentKeys = rb, wm_hitRateEma = h, wm_writeRatioEma = w, wm_hitsInWindow = 0,
               wm_missesInWindow = 0, wm_writesInWindow = 0, wm_readsInWindow = 0, wm_totalSamples = 0,
               wm_lastNumericSuffix = None, wm_sequentialMatches = 0, wm_sequentialSamples = 0\<rparr>
      | (Inl e, _, _) \<Rightarrow> Inl e | (_, Inl e, _) \<Rightarrow> Inl e | (_, _, Inl e) \<Rightarrow> Inl e)"

definition updateSequentialDetection :: "CacheKey \<Rightarrow> WorkloadMonitor \<Rightarrow> WorkloadMonitor" where
  "updateSequentialDetection key m =
     (case TRAILING_NUMBER key of
        None \<Rightarrow> m
      | Some match \<Rightarrow>
          (let current = digits_value match;
               m1 = m\<lparr>wm_sequentialSamples := wm_sequentialSamples m + 1\<rparr>;
               m2 = (case wm_lastNumericSuffix m1 of
                       Some l \<Rightarrow> if \<bar>int current - int l\<bar> = 1
                                 then m1\<lparr>wm_sequentialMatches := wm_sequentialMatches m1 + 1\<rparr> else m1
                     | None \<Rightarrow> m1)
           in m2\<lparr>wm_lastNumericSuffix := Some current\<rparr>))"

definition observeKey :: "CacheKey \<Rightarrow> WorkloadMonitor \<Rightarrow> WorkloadMonitor" where
  "observeKey key m = updateSequentialDetection key (m\<lparr>wm_recentKeys := rb_push key (wm_recentKeys m)\<rparr>)"

definition wm_recordHit :: "CacheKey \<Rightarrow> WorkloadMonitor \<Rightarrow> WorkloadMonitor" where
  "wm_recordHit key m =
     observeKey key (m\<lparr>wm_hitsInWindow := wm_hitsInWindow m + 1, wm_readsInWindow := wm_readsInWindow m + 1,
                        wm_totalSamples := wm_totalSamples m + 1\<rparr>)"

definition wm_recordMiss :: "CacheKey \<Rightarrow> WorkloadMonitor \<Rightarrow> WorkloadMonitor" where
  "wm_recordMiss key m =
     observeKey key (m\<lparr>wm_missesInWindow := wm_missesInWindow m + 1, wm_readsInWindow := wm_readsInWindow m + 1,
                        wm_totalSamples := wm_totalSamples m + 1\<rparr>)"

definition wm_recordWrite :: "CacheKey \<Rightarrow> WorkloadMonitor \<Rightarrow> WorkloadMonitor" where
  "wm_recordWrite key m =
     observeKey key (m\<lparr>wm_writesInWindow := wm_writesInWindow m + 1, wm_totalSamples := wm_totalSamples m + 1\<rparr>)"

definition slideWindow :: "WorkloadMonitor \<Rightarrow> WorkloadMonitor" where
  "slideWindow m =
     m\<lparr>wm_hitsInWindow := 0, wm_missesInWindow := 0, wm_writesInWindow := 0, wm_readsInWindow := 0,
       wm_sequentialMatches := 0, wm_sequentialSamples := 0\<rparr>"

definition giniCoefficient :: "nat list \<Rightarrow> rat" where
  "giniCoefficient values =
     (if length values = 0 then 0
      else let sorted_v = sort values; n = length sorted_v; s = foldl (+) 0 sorted_v
           in if s = 0 then 0
              else let weightedCumulative = foldl (\<lambda>acc i. acc + (i + 1) * sorted_v ! i) 0 [0..<n];
                       gini = of_nat (2 * weightedCumulative) / of_nat (n * s) - of_nat (n + 1) / of_nat n
                   in max 0 (min 1 gini))"

definition frequencyByKey :: "CacheKey list \<Rightarrow> (CacheKey, nat) js_map" where
  "frequencyByKey keys =
     fold (\<lambda>key m. js_set key ((case js_get m key of None \<Rightarrow> 0 | Some n \<Rightarrow> n) + 1) m) keys []"

definition computeSignals :: "rat \<Rightarrow> WorkloadMonitor \<Rightarrow> WorkloadSignals \<times> WorkloadMonitor" where
  "computeSignals memoryUsageRatio m =
     (let reads = wm_readsInWindow m; writes = wm_writesInWindow m; totalOps = reads + writes;
          windowHitRate = (if reads > 0 then of_nat (wm_hitsInWindow m) / of_nat reads
                           else ema_get (wm_hitRateEma m));
          windowWriteRatio = (if totalOps > 0 then of_nat writes / of_nat totalOps
                              else ema_get (wm_writeRatioEma m));
          (smoothedHitRate, hitEma) = ema_update windowHitRate (wm_hitRateEma m);
          (smoothedWriteRatio, writeEma) = ema_update windowWriteRatio (wm_writeRatioEma m);
          keys = rb_toArray (wm_recentKeys m);
          freqs = frequencyByKey keys;
          signals = \<lparr>ws_hitRate = smoothedHitRate, ws_missRate = 1 - smoothedHitRate,
                     ws_memoryUsageRatio = memoryUsageRatio, ws_writeRatio = smoothedWriteRatio,
                     ws_readRatio = 1 - smoothedWriteRatio,
                     ws_frequencySkew = giniCoefficient (map snd freqs),
                     ws_sequentialAccessScore =
                       (if wm_sequentialSamples m > 0
                        then of_nat (wm_sequentialMatches m) / of_nat (wm_sequentialSamples m) else 0),
                     ws_workingSetSizeRatio =
                       (if length keys > 0 then of_nat (length freqs) / of_nat (length keys) else 0),
                     ws_windowSampleCount = wm_totalSamples m\<rparr>
      in (signals, slideWindow (m\<lparr>wm_hitRateEma := hitEma, wm_writeRatioEma := writeEma\<rparr>)))"

definition wm_reset :: "WorkloadMonitor \<Rightarrow> WorkloadMonitor" where
  "wm_reset m =
     m\<lparr>wm_recentKeys := rb_clear (wm_recentKeys m), wm_hitRateEma := ema_reset (wm_hitRateEma m),
       wm_writeRatioEma := ema_reset (wm_writeRatioEma m), wm_hitsInWindow := 0, wm_missesInWindow := 0,
       wm_writesInWindow := 0, wm_readsInWindow := 0, wm_totalSamples := 0, wm_lastNumericSuffix := None,
       wm_sequentialMatches := 0, wm_sequentialSamples := 0\<rparr>"

section \<open>DecisionRules.ts\<close>

datatype DecisionReason =
    MemoryPressure rat rat
  | SequentialScan rat
  | ReadHeavySkewed rat rat
  | WriteHeavy rat
  | NoDominantSignal
  | ManualOverride string

record PolicyDecision =
  pd_policy :: EvictionPolicyType
  pd_reason :: DecisionReason

definition MEMORY_PRESSURE_THRESHOLD :: rat where "MEMORY_PRESSURE_THRESHOLD = 85 / 100"
definition SEQUENTIAL_SCORE_THRESHOLD :: rat where "SEQUENTIAL_SCORE_THRESHOLD = 5 / 10"
definition READ_HEAVY_THRESHOLD :: rat where "READ_HEAVY_THRESHOLD = 7 / 10"
definition FREQUENCY_SKEW_THRESHOLD :: rat where "FREQUENCY_SKEW_THRESHOLD = 4 / 10"
definition WRITE_HEAVY_THRESHOLD :: rat where "WRITE_HEAVY_THRESHOLD = 6 / 10"

definition decidePolicy :: "WorkloadSignals \<Rightarrow> PolicyDecision" where
  "decidePolicy signals =
     (if ws_memoryUsageRatio signals \<ge> MEMORY_PRESSURE_THRESHOLD
      then \<lparr>pd_policy = TINY_LFU,
            pd_reason = MemoryPressure (ws_memoryUsageRatio signals * 100) (MEMORY_PRESSURE_THRESHOLD * 100)\<rparr>
      else if ws_sequentialAccessScore signals \<ge> SEQUENTIAL_SCORE_THRESHOLD
      then \<lparr>pd_policy = LRU, pd_reason = SequentialScan (ws_sequentialAccessScore signals * 100)\<rparr>
      else if ws_readRatio signals \<ge> READ_HEAVY_THRESHOLD \<and> ws_frequencySkew signals \<ge> FREQUENCY_SKEW_THRESHOLD
      then \<lparr>pd_policy = LFU, pd_reason = ReadHeavySkewed (ws_readRatio signals * 100) (ws_frequencySkew signals)\<rparr>
      else if ws_writeRatio signals \<ge> WRITE_HEAVY_THRESHOLD
      then \<lparr>pd_policy = LRU, pd_reason = WriteHeavy (ws_writeRatio signals * 100)\<rparr>
      else \<lparr>pd_policy = TINY_LFU, pd_reason = NoDominantSignal\<rparr>)"

lemmas rule_thresholds = MEMORY_PRESSURE_THRESHOLD_def SEQUENTIAL_SCORE_THRESHOLD_def
  READ_HEAVY_THRESHOLD_def FREQUENCY_SKEW_THRESHOLD_def WRITE_HEAVY_THRESHOLD_def

section \<open>The Gini coefficient\<close>

lemma foldl_weighted: "foldl (\<lambda>acc i. acc + f i) a [0..<n] = a + (\<Sum>i<n. f i :: nat)"
  by (induction n) auto

lemma foldl_plus_sum: "foldl (+) (a::nat) xs = a + (\<Sum>i<length xs. xs ! i)"
proof -
  have "foldl (+) a xs = a + sum_list xs" by (induction xs arbitrary: a) auto
  then show ?thesis by (simp add: sum_list_sum_nth atLeast0LessThan)
qed

text \<open>Chebyshev's sum inequality: on ascending values the rank-weighted sum is at least the mean
  rank times the sum.\<close>

lemma weighted_ge:
  fixes x :: "nat \<Rightarrow> rat"
  assumes "\<And>i j. i \<le> j \<Longrightarrow> j < n \<Longrightarrow> x i \<le> x j"
  shows "of_nat (n + 1) * (\<Sum>i<n. x i) \<le> 2 * (\<Sum>i<n. of_nat (i + 1) * x i)"
proof (cases "n = 0")
  case False
  have ranks: "2 * (\<Sum>i=0..<n. of_nat (i + 1)) = (of_nat n * of_nat (n + 1) :: rat)"
    by (induction n) (auto simp: algebra_simps)
  have "of_nat n * (\<Sum>k=0..<n. x k * - of_nat (k + 1)) \<le> (\<Sum>k=0..<n. x k) * (\<Sum>k=0..<n. - of_nat (k + 1))"
    by (rule Chebyshev_sum_upper) (use assms in auto)
  note cheb = this
  have "(\<Sum>k=0..<n. x k) * (\<Sum>k=0..<n. of_nat (k + 1)) \<le> of_nat n * (\<Sum>k=0..<n. of_nat (k + 1) * x k)"
  proof -
    have a: "(\<Sum>k=0..<n. x k * - of_nat (k + 1)) = - (\<Sum>k=0..<n. of_nat (k + 1) * x k)"
      by (simp only: sum_negf mult_minus_right mult.commute)
    have b: "(\<Sum>k=0..<n. - of_nat (k + 1)) = - (\<Sum>k=0..<n. of_nat (k + 1) :: rat)"
      by (simp only: sum_negf)
    from cheb have "- (of_nat n * (\<Sum>k=0..<n. of_nat (k + 1) * x k)) \<le>
        - ((\<Sum>k=0..<n. x k) * (\<Sum>k=0..<n. of_nat (k + 1)))"
      by (simp only: a b mult_minus_right[of "of_nat n"] mult_minus_right[of "sum x {0..<n}"])
    then show ?thesis by (rule neg_le_iff_le[THEN iffD1])
  qed
  then have "(\<Sum>k=0..<n. x k) * (2 * (\<Sum>k=0..<n. of_nat (k + 1))) \<le> of_nat n * (2 * (\<Sum>k=0..<n. of_nat (k + 1) * x k))"
    by linarith
  then have "of_nat n * (of_nat (n + 1) * (\<Sum>k=0..<n. x k)) \<le> of_nat n * (2 * (\<Sum>k=0..<n. of_nat (k + 1) * x k))"
    unfolding ranks by (simp add: mult_ac)
  with False show ?thesis by (simp add: atLeast0LessThan mult_le_cancel_left_pos)
qed simp

lemma weighted_le:
  fixes x :: "nat \<Rightarrow> rat"
  assumes "\<And>i. i < n \<Longrightarrow> 0 \<le> x i"
  shows "(\<Sum>i<n. of_nat (i + 1) * x i) \<le> of_nat n * (\<Sum>i<n. x i)"
  unfolding sum_distrib_left by (intro sum_mono mult_right_mono) (use assms in auto)

definition gini_raw :: "nat list \<Rightarrow> rat" where
  "gini_raw vs = of_nat (2 * (\<Sum>i<length vs. (i + 1) * sort vs ! i)) / of_nat (length vs * sum_list vs)
     - of_nat (length vs + 1) / of_nat (length vs)"

lemma gini_raw_range:
  assumes "0 < sum_list vs"
  shows "0 \<le> gini_raw vs" and "gini_raw vs < 1"
proof -
  let ?n = "length vs" and ?x = "\<lambda>i. of_nat (sort vs ! i) :: rat" and ?S = "of_nat (sum_list vs) :: rat"
  let ?W = "\<Sum>i<?n. of_nat (i + 1) * ?x i"
  have n: "0 < ?n" using assms by (cases vs) auto
  have S: "(\<Sum>i<?n. ?x i) = ?S"
  proof -
    have "sum_list (sort vs) = sum_list vs" by (metis mset_sort sum_mset_sum_list)
    then have "(\<Sum>i<?n. sort vs ! i) = sum_list vs"
      by (simp add: sum_list_sum_nth atLeast0LessThan)
    then show ?thesis by (metis of_nat_sum)
  qed
  have lo: "of_nat (?n + 1) * ?S \<le> 2 * ?W"
    using weighted_ge[of ?n ?x] S by (simp add: sorted_nth_le)
  have hi: "?W \<le> of_nat ?n * ?S" using weighted_le[of ?n ?x] S by simp
  have raw: "gini_raw vs = (2 * ?W - of_nat (?n + 1) * ?S) / (of_nat ?n * ?S)"
  proof -
    have frac: "a / (m * t) - b / m = (a - b * t) / (m * t)" if "m \<noteq> 0" "t \<noteq> 0" for a b m t :: rat
      using that by (simp add: field_simps)
    have w: "of_nat (2 * (\<Sum>i<?n. (i + 1) * sort vs ! i)) = 2 * ?W"
      by (simp only: of_nat_mult of_nat_sum of_nat_numeral)
    have m: "(of_nat (?n * sum_list vs) :: rat) = of_nat ?n * ?S" by (rule of_nat_mult)
    have "of_nat ?n \<noteq> (0::rat)" "?S \<noteq> 0" using n assms by (simp_all only: of_nat_eq_0_iff)
    then show ?thesis unfolding gini_raw_def w m by (rule frac)
  qed
  have pos: "0 < of_nat ?n * ?S" using assms n by simp
  show "0 \<le> gini_raw vs" unfolding raw using lo pos by simp
  have "2 * ?W - of_nat (?n + 1) * ?S < of_nat ?n * ?S"
  proof -
    have "2 * ?W - of_nat (?n + 1) * ?S \<le> 2 * (of_nat ?n * ?S) - of_nat (?n + 1) * ?S" using hi by simp
    also have "\<dots> < of_nat ?n * ?S" using assms by (simp add: algebra_simps)
    finally show ?thesis .
  qed
  then show "gini_raw vs < 1" unfolding raw using pos by (simp add: divide_less_eq)
qed

lemma foldl_sort_sum: "foldl (+) 0 (sort vs) = sum_list (vs :: nat list)"
proof -
  have sum: "sum_list (sort vs) = sum_list vs" by (metis mset_sort sum_mset_sum_list)
  show ?thesis unfolding foldl_plus_sum sum[symmetric] by (simp add: sum_list_sum_nth atLeast0LessThan)
qed

lemma gini_eq_raw:
  assumes "0 < sum_list vs"
  shows "giniCoefficient vs = gini_raw vs"
proof -
  from assms have ne: "length vs \<noteq> 0" by auto
  note S = foldl_sort_sum[of vs]
  have W: "foldl (\<lambda>acc i. acc + (i + 1) * sort vs ! i) 0 [0..<length vs] = (\<Sum>i<length vs. (i + 1) * sort vs ! i)"
    by (subst foldl_weighted) simp
  have nz: "sum_list vs \<noteq> 0" using assms by (rule gr_implies_not0)
  have "giniCoefficient vs = max 0 (min 1 (gini_raw vs))"
    unfolding giniCoefficient_def Let_def gini_raw_def length_sort S W if_not_P[OF ne] if_not_P[OF nz] ..
  then show ?thesis using gini_raw_range[OF assms] by simp
qed

lemma giniCoefficient_range: "0 \<le> giniCoefficient vs \<and> giniCoefficient vs \<le> 1"
  by (simp add: giniCoefficient_def Let_def)

lemma gini_uniform:
  assumes "\<forall>v \<in> set vs. v = c"
  shows "giniCoefficient vs = 0"
proof (cases "sum_list vs = 0")
  case True
  with foldl_sort_sum[of vs] show ?thesis by (simp add: giniCoefficient_def Let_def)
next
  case False
  then have pos: "0 < sum_list vs" by (rule neq0_conv[THEN iffD1])
  let ?n = "length vs"
  have vs: "vs = replicate ?n c" using assms by (simp add: list_eq_iff_nth_eq)
  then have srt: "sort vs = replicate ?n c" by (metis sort_replicate)
  have sum: "sum_list vs = ?n * c" by (subst vs) (simp add: sum_list_replicate)
  have W: "2 * (\<Sum>i<?n. (i + 1) * sort vs ! i) = ?n * (?n + 1) * c"
  proof -
    have "(\<Sum>i<?n. (i + 1) * sort vs ! i) = (\<Sum>i<?n. (i + 1)) * c" unfolding srt by (simp add: sum_distrib_right)
    moreover have "2 * (\<Sum>i<m. (i + 1)) = m * (m + 1)" for m :: nat by (induction m) auto
    ultimately show ?thesis by (simp add: mult.assoc[symmetric])
  qed
  have c: "0 < ?n" "0 < c" using pos sum by auto
  have "gini_raw vs = 0" unfolding gini_raw_def W sum using c by (simp add: field_simps)
  then show ?thesis using gini_eq_raw[OF pos] by simp
qed

text \<open>The mean difference of a list of values, and the rank formula for it.\<close>

definition total_difference :: "nat list \<Rightarrow> int" where
  "total_difference vs = (\<Sum>x \<leftarrow> vs. \<Sum>y \<leftarrow> vs. \<bar>int x - int y\<bar>)"

lemma total_difference_sort: "total_difference (sort vs) = total_difference vs"
proof -
  have perm: "(\<Sum>x \<leftarrow> sort vs. f x) = (\<Sum>x \<leftarrow> vs. f x)" for f :: "nat \<Rightarrow> int" by (metis mset_map mset_sort sum_mset_sum_list)
  show ?thesis unfolding total_difference_def perm ..
qed

lemma difference_to_last:
  assumes "\<And>x. x \<in> set xs \<Longrightarrow> x \<le> m"
  shows "(\<Sum>x \<leftarrow> xs. \<bar>int x - int m\<bar>) = int (length xs) * int m - int (sum_list xs)"
  using assms by (induction xs) (auto simp: algebra_simps)

lemma total_difference_snoc:
  assumes "\<And>x. x \<in> set xs \<Longrightarrow> x \<le> m"
  shows "total_difference (xs @ [m]) = total_difference xs + 2 * (int (length xs) * int m - int (sum_list xs))"
proof -
  have "(\<Sum>y \<leftarrow> xs. \<bar>int m - int y\<bar>) = (\<Sum>x \<leftarrow> xs. \<bar>int x - int m\<bar>)" by (simp add: abs_minus_commute)
  then show ?thesis using difference_to_last[OF assms] by (simp add: total_difference_def sum_list_addf)
qed

lemma total_difference_ranks:
  assumes "sorted xs"
  shows "total_difference xs = 4 * int (\<Sum>i<length xs. (i + 1) * xs ! i) - 2 * int (length xs + 1) * int (sum_list xs)"
  using assms
proof (induction xs rule: rev_induct)
  case (snoc m xs)
  have "(\<Sum>i<length xs. (i + 1) * (xs @ [m]) ! i) = (\<Sum>i<length xs. (i + 1) * xs ! i)" by (simp add: nth_append)
  with snoc show ?case by (simp add: total_difference_snoc sorted_append algebra_simps)
qed (simp add: total_difference_def)

lemma gini_mean_difference:
  assumes "0 < sum_list vs"
  shows "gini_raw vs = of_int (total_difference vs) / of_nat (2 * length vs * sum_list vs)"
proof -
  let ?n = "of_nat (length vs) :: rat" and ?S = "of_nat (sum_list vs) :: rat" and ?W = "of_nat (\<Sum>i<length vs. (i + 1) * sort vs ! i) :: rat"
  have sum: "sum_list (sort vs) = sum_list vs" by (metis mset_sort sum_mset_sum_list)
  have "of_int (total_difference vs) = 4 * ?W - 2 * (?n + 1) * ?S"
    using total_difference_ranks[of "sort vs"] by (simp only: total_difference_sort sorted_sort length_sort sum)
      (simp del: of_nat_sum)
  moreover have "?S \<noteq> 0" unfolding of_nat_eq_0_iff using assms by (rule gr_implies_not0)
  moreover have "?n \<noteq> 0" using assms by auto
  moreover have "2 * w / (n * t) - (n + 1) / n = (4 * w - 2 * (n + 1) * t) / (2 * n * t)" if "n \<noteq> 0" "t \<noteq> 0" for w n t :: rat
    using that by (simp add: field_simps)
  ultimately show ?thesis unfolding gini_raw_def of_nat_mult of_nat_add of_nat_1 of_nat_numeral by simp
qed

text \<open>C29. \<open>giniCoefficient\<close> is the Gini coefficient: on values that are not all zero it is half the relative mean
  difference, the sum of \<open>|x - y|\<close> over all pairs of values divided by \<open>2 n\<close> times their sum.  It lies in
  [0, 1), so the clamp to [0, 1] never changes it, and a uniform distribution has coefficient 0.\<close>

theorem giniCoefficient_correct:
  assumes "0 < sum_list vs"
  shows "giniCoefficient vs = of_int (\<Sum>x \<leftarrow> vs. \<Sum>y \<leftarrow> vs. \<bar>int x - int y\<bar>) / of_nat (2 * length vs * sum_list vs) \<and>
    0 \<le> giniCoefficient vs \<and> giniCoefficient vs < 1 \<and>
    ((\<forall>v \<in> set vs. v = c) \<longrightarrow> giniCoefficient vs = 0)"
  using gini_eq_raw[OF assms] gini_raw_range[OF assms] gini_uniform[of vs c] gini_mean_difference[OF assms]
  unfolding total_difference_def by simp

theorem giniCoefficient_correct_witness:
  "giniCoefficient [2, 2] = 0 \<and> giniCoefficient [7, 1] = 3 / 8"
  using giniCoefficient_correct[of "[2, 2]" 2] giniCoefficient_correct[of "[7, 1]" 1] by simp

section \<open>The monitor's invariant\<close>

datatype traffic = THit CacheKey | TMiss CacheKey | TWrite CacheKey

fun wm_exec :: "traffic \<Rightarrow> WorkloadMonitor \<Rightarrow> WorkloadMonitor" where
  "wm_exec (THit k) m = wm_recordHit k m"
| "wm_exec (TMiss k) m = wm_recordMiss k m"
| "wm_exec (TWrite k) m = wm_recordWrite k m"

fun traffic_key :: "traffic \<Rightarrow> CacheKey" where
  "traffic_key (THit k) = k"
| "traffic_key (TMiss k) = k"
| "traffic_key (TWrite k) = k"

definition wm_ok :: "WorkloadMonitor \<Rightarrow> bool" where
  "wm_ok m \<longleftrightarrow> rb_ok (wm_recentKeys m) \<and> ema_in 0 1 (wm_hitRateEma m) \<and> ema_in 0 1 (wm_writeRatioEma m) \<and>
     wm_hitsInWindow m + wm_missesInWindow m = wm_readsInWindow m \<and>
     wm_sequentialMatches m \<le> wm_sequentialSamples m"

lemma updateSequentialDetection_frame [simp]:
  "wm_recentKeys (updateSequentialDetection k m) = wm_recentKeys m"
  "wm_hitRateEma (updateSequentialDetection k m) = wm_hitRateEma m"
  "wm_writeRatioEma (updateSequentialDetection k m) = wm_writeRatioEma m"
  "wm_hitsInWindow (updateSequentialDetection k m) = wm_hitsInWindow m"
  "wm_missesInWindow (updateSequentialDetection k m) = wm_missesInWindow m"
  "wm_writesInWindow (updateSequentialDetection k m) = wm_writesInWindow m"
  "wm_readsInWindow (updateSequentialDetection k m) = wm_readsInWindow m"
  "wm_totalSamples (updateSequentialDetection k m) = wm_totalSamples m"
  by (simp_all add: updateSequentialDetection_def Let_def split: option.split)

lemma updateSequentialDetection_le:
  "wm_sequentialMatches m \<le> wm_sequentialSamples m \<Longrightarrow>
   wm_sequentialMatches (updateSequentialDetection k m) \<le> wm_sequentialSamples (updateSequentialDetection k m)"
  by (simp add: updateSequentialDetection_def Let_def split: option.split)

lemma wm_exec_ok: "wm_ok m \<Longrightarrow> wm_ok (wm_exec t m)"
  by (cases t)
     (simp_all add: wm_ok_def wm_recordHit_def wm_recordMiss_def wm_recordWrite_def observeKey_def
       rb_push_ok updateSequentialDetection_le)

lemma wm_new: "new_WorkloadMonitor = Inr m \<Longrightarrow> wm_ok m \<and> wm_sequentialMatches m = 0 \<and>
    wm_sequentialSamples m = 0 \<and> wm_lastNumericSuffix m = None \<and> wm_totalSamples m = 0"
  by (auto simp: new_WorkloadMonitor_def new_RingBuffer_def new_Ema_def WINDOW_CAPACITY_def EMA_ALPHA_def
      wm_ok_def rb_ok_def ema_in_def)

lemma wm_new_exists: "\<exists>m. new_WorkloadMonitor = Inr m"
  by (simp add: new_WorkloadMonitor_def new_RingBuffer_def new_Ema_def WINDOW_CAPACITY_def EMA_ALPHA_def)

lemma wm_fold_ok: "wm_ok m \<Longrightarrow> wm_ok (fold wm_exec ts m)"
  by (induction ts arbitrary: m) (simp_all add: wm_exec_ok)

lemma slideWindow_ok: "rb_ok (wm_recentKeys m) \<Longrightarrow> ema_in 0 1 (wm_hitRateEma m) \<Longrightarrow>
    ema_in 0 1 (wm_writeRatioEma m) \<Longrightarrow> wm_ok (slideWindow m)"
  by (simp add: wm_ok_def slideWindow_def)

abbreviation unit_ratio :: "rat \<Rightarrow> bool" where
  "unit_ratio r \<equiv> 0 \<le> r \<and> r \<le> 1"

lemma ratio_le_one: "a \<le> b \<Longrightarrow> 0 < b \<Longrightarrow> unit_ratio (of_nat a / of_nat b)"
  by (simp add: divide_le_eq)

lemma computeSignals_ok:
  assumes "wm_ok m"
  shows "wm_ok (snd (computeSignals r m))"
    and "unit_ratio (ws_hitRate (fst (computeSignals r m)))"
    and "unit_ratio (ws_writeRatio (fst (computeSignals r m)))"
proof -
  let ?h = "if wm_readsInWindow m > 0 then of_nat (wm_hitsInWindow m) / of_nat (wm_readsInWindow m)
            else ema_get (wm_hitRateEma m)"
  let ?t = "wm_readsInWindow m + wm_writesInWindow m"
  let ?w = "if ?t > 0 then of_nat (wm_writesInWindow m) / of_nat ?t else ema_get (wm_writeRatioEma m)"
  have h: "unit_ratio ?h"
    using assms ema_get_in[of 0 1 "wm_hitRateEma m"] ratio_le_one[of "wm_hitsInWindow m" "wm_readsInWindow m"]
    by (auto simp: wm_ok_def)
  have w: "unit_ratio ?w"
    using assms ema_get_in[of 0 1 "wm_writeRatioEma m"] ratio_le_one[of "wm_writesInWindow m" ?t]
    by (auto simp: wm_ok_def)
  have H: "ema_in 0 1 (snd (ema_update ?h (wm_hitRateEma m))) \<and> unit_ratio (fst (ema_update ?h (wm_hitRateEma m)))"
    by (rule ema_update_in) (use assms h in \<open>simp_all only: wm_ok_def\<close>)
  have W: "ema_in 0 1 (snd (ema_update ?w (wm_writeRatioEma m))) \<and> unit_ratio (fst (ema_update ?w (wm_writeRatioEma m)))"
    by (rule ema_update_in) (use assms w in \<open>simp_all only: wm_ok_def\<close>)
  have sig: "ws_hitRate (fst (computeSignals r m)) = fst (ema_update ?h (wm_hitRateEma m))"
    "ws_writeRatio (fst (computeSignals r m)) = fst (ema_update ?w (wm_writeRatioEma m))"
    "snd (computeSignals r m) = slideWindow (m\<lparr>wm_hitRateEma := snd (ema_update ?h (wm_hitRateEma m)),
       wm_writeRatioEma := snd (ema_update ?w (wm_writeRatioEma m))\<rparr>)"
    by (simp_all only: computeSignals_def Let_def case_prod_unfold fst_conv snd_conv WorkloadSignals.simps)
  show "wm_ok (snd (computeSignals r m))"
    unfolding sig(3) by (rule slideWindow_ok) (use assms H W in \<open>simp_all add: wm_ok_def\<close>)
  show "unit_ratio (ws_hitRate (fst (computeSignals r m)))" unfolding sig(1) using H by blast
  show "unit_ratio (ws_writeRatio (fst (computeSignals r m)))" unfolding sig(2) using W by blast
qed

lemma computeSignals_fields:
  "ws_missRate (fst (computeSignals r m)) = 1 - ws_hitRate (fst (computeSignals r m))"
  "ws_readRatio (fst (computeSignals r m)) = 1 - ws_writeRatio (fst (computeSignals r m))"
  "ws_memoryUsageRatio (fst (computeSignals r m)) = r"
  "ws_windowSampleCount (fst (computeSignals r m)) = wm_totalSamples m"
  "ws_frequencySkew (fst (computeSignals r m)) = giniCoefficient (map snd (frequencyByKey (rb_toArray (wm_recentKeys m))))"
  "ws_sequentialAccessScore (fst (computeSignals r m)) =
     (if wm_sequentialSamples m > 0 then of_nat (wm_sequentialMatches m) / of_nat (wm_sequentialSamples m) else 0)"
  "ws_workingSetSizeRatio (fst (computeSignals r m)) =
     (if length (rb_toArray (wm_recentKeys m)) > 0
      then of_nat (length (frequencyByKey (rb_toArray (wm_recentKeys m)))) / of_nat (length (rb_toArray (wm_recentKeys m))) else 0)"
  "wm_totalSamples (snd (computeSignals r m)) = wm_totalSamples m"
  "wm_recentKeys (snd (computeSignals r m)) = wm_recentKeys m"
  by (simp_all add: computeSignals_def Let_def case_prod_unfold slideWindow_def)

section \<open>Frequencies per key\<close>

lemma frequency_step:
  "js_get (fold (\<lambda>key m. js_set key ((case js_get m key of None \<Rightarrow> 0 | Some n \<Rightarrow> n) + 1) m) ks m) k =
     (case js_get m k of
        None \<Rightarrow> if k \<in> set ks then Some (count_list ks k) else None
      | Some n \<Rightarrow> Some (n + count_list ks k))"
  by (induction ks arbitrary: m) (auto simp: js_map_simps split: option.split)

lemma frequencyByKey_count:
  "js_get (frequencyByKey ks) k = (if k \<in> set ks then Some (count_list ks k) else None)"
  using frequency_step[of ks "[]" k] by (simp add: frequencyByKey_def)

lemma frequencyByKey_ok: "js_map_ok (frequencyByKey ks)"
proof -
  have "js_map_ok m \<Longrightarrow> js_map_ok (fold (\<lambda>key m. js_set key ((case js_get m key of None \<Rightarrow> 0 | Some n \<Rightarrow> n) + 1) m) ks m)"
    for m :: "(CacheKey, nat) js_map"
    by (induction ks arbitrary: m) simp_all
  then show ?thesis by (simp add: frequencyByKey_def)
qed

lemma frequencyByKey_size: "length (frequencyByKey ks) = card (set ks)"
proof -
  have "fst ` set (frequencyByKey ks) = set ks"
    using frequencyByKey_count[of ks] by (metis (no_types, lifting) map_of_eq_None_iff option.distinct(1) set_eqI)
  then show ?thesis using distinct_card[OF frequencyByKey_ok[of ks]] by simp
qed

lemma wm_ratios_ok:
  assumes "wm_ok m"
  shows "unit_ratio (ws_sequentialAccessScore (fst (computeSignals r m)))"
    and "unit_ratio (ws_workingSetSizeRatio (fst (computeSignals r m)))"
    and "unit_ratio (ws_frequencySkew (fst (computeSignals r m)))"
  using assms ratio_le_one[of "wm_sequentialMatches m" "wm_sequentialSamples m"]
    ratio_le_one[OF card_length[of "rb_toArray (wm_recentKeys m)"]]
  by (simp_all add: computeSignals_fields wm_ok_def frequencyByKey_size giniCoefficient_range)

text \<open>Every signal the monitor reports is a ratio: after any traffic and any number of earlier
  evaluations, hit rate, write ratio, skew, scan score and working-set ratio lie in [0, 1], miss and
  read ratio complement them, and the sample count is the whole traffic observed so far.\<close>

theorem computeSignals_ratios:
  assumes "new_WorkloadMonitor = Inr m0"
  shows "let run = (\<lambda>m (r, ts). fold wm_exec ts (snd (computeSignals r m)));
             m = foldl run (fold wm_exec ts0 m0) rounds; s = fst (computeSignals r m)
    in unit_ratio (ws_hitRate s) \<and> unit_ratio (ws_missRate s) \<and> ws_hitRate s + ws_missRate s = 1 \<and>
       unit_ratio (ws_writeRatio s) \<and> unit_ratio (ws_readRatio s) \<and> ws_writeRatio s + ws_readRatio s = 1 \<and>
       unit_ratio (ws_frequencySkew s) \<and> unit_ratio (ws_sequentialAccessScore s) \<and>
       unit_ratio (ws_workingSetSizeRatio s) \<and>
       ws_windowSampleCount s = length ts0 + sum_list (map (length \<circ> snd) rounds)"
proof -
  let ?run = "\<lambda>m (r, ts). fold wm_exec ts (snd (computeSignals r m))"
  have total: "wm_totalSamples (fold wm_exec ts m) = wm_totalSamples m + length ts" for ts m
  proof (induction ts arbitrary: m)
    case (Cons t ts)
    then show ?case
      by (cases t) (simp_all add: wm_recordHit_def wm_recordMiss_def wm_recordWrite_def observeKey_def)
  qed simp
  have run: "wm_ok m \<Longrightarrow> wm_ok (foldl ?run m rs) \<and>
      wm_totalSamples (foldl ?run m rs) = wm_totalSamples m + sum_list (map (length \<circ> snd) rs)" for m rs
  proof (induction rs arbitrary: m)
    case (Cons rt rs)
    have "wm_ok (?run m rt)" using Cons.prems by (cases rt) (simp add: wm_fold_ok computeSignals_ok(1))
    from Cons.IH[OF this] show ?case by (cases rt) (simp add: total computeSignals_fields)
  qed simp
  let ?m = "foldl ?run (fold wm_exec ts0 m0) rounds"
  have ok: "wm_ok ?m" and n: "wm_totalSamples ?m = length ts0 + sum_list (map (length \<circ> snd) rounds)"
    using run[OF wm_fold_ok, of m0 ts0 rounds] wm_new[OF assms] by (simp_all add: total)
  show ?thesis
    unfolding Let_def using computeSignals_ok(2,3)[OF ok, of r] wm_ratios_ok[OF ok, of r] n
    by (simp add: computeSignals_fields)
qed

theorem computeSignals_ratios_witness:
  "\<exists>m0. new_WorkloadMonitor = Inr m0 \<and>
     unit_ratio (ws_hitRate (fst (computeSignals (1/2) (fold wm_exec [THit ''a'', TMiss ''b''] m0)))) \<and>
     ws_windowSampleCount (fst (computeSignals (1/2) (fold wm_exec [THit ''a'', TMiss ''b''] m0))) = 2"
proof -
  obtain m0 where m0: "new_WorkloadMonitor = Inr m0" using wm_new_exists by blast
  from computeSignals_ratios[OF m0, of "[THit ''a'', TMiss ''b'']" "[]" "1/2"] m0 show ?thesis
    by (auto simp: Let_def)
qed

section \<open>Sequential scans\<close>

lemma takeWhile_digits_only: "\<forall>c \<in> set ds. is_digit c \<Longrightarrow> takeWhile is_digit ds = ds \<and> dropWhile is_digit ds = []"
  by (simp add: takeWhile_eq_all_conv)

lemma digit_no_terminator: "is_digit c \<Longrightarrow> \<not> line_terminator c"
  by (auto simp: is_digit_def line_terminator_def)

text \<open>A key made of a prefix and a number yields that number, whatever digits the prefix has, as long
  as the prefix is on one line and does not itself end in a digit.\<close>

lemma TRAILING_NUMBER_suffix:
  assumes "\<forall>c \<in> set ds. is_digit c" and "ds \<noteq> []"
    and "\<forall>c \<in> set p. \<not> line_terminator c" and "p = [] \<or> \<not> is_digit (last p)"
  shows "TRAILING_NUMBER (p @ ds) = Some ds"
  using assms(3,4)
proof (induction p)
  case Nil
  obtain d ds' where "ds = d # ds'" using assms(2) by (cases ds) auto
  moreover from this assms(1) have "\<not> digit_ahead (dropWhile is_digit ds')" "takeWhile is_digit ds' = ds'"
    using takeWhile_digits_only[of ds'] by (auto simp: digit_ahead_def simp del: dropWhile_eq_Nil_conv)
  ultimately show ?case using assms(1) by simp
next
  case (Cons c p)
  from Cons.prems have IH: "TRAILING_NUMBER (p @ ds) = Some ds" using Cons.IH by (cases p) auto
  show ?case
  proof (cases "is_digit c")
    case True
    with Cons.prems have p: "p \<noteq> []" "\<not> is_digit (last p)" by (auto split: if_splits)
    then have "dropWhile is_digit (p @ ds) = dropWhile is_digit p @ ds" by (intro dropWhile_append1[of "last p"]) auto
    moreover have "takeWhile (\<lambda>c. \<not> line_terminator c) (dropWhile is_digit p @ ds) = dropWhile is_digit p @ ds"
      using Cons.prems(1) assms(1) digit_no_terminator by (auto simp: takeWhile_eq_all_conv dest: set_dropWhileD)
    ultimately have "digit_ahead (dropWhile is_digit (p @ ds))"
      using assms(1,2) by (cases ds) (simp_all add: digit_ahead_def)
    with IH show ?thesis by simp
  qed (use IH in simp)
qed

lemma wm_exec_sequential:
  assumes "TRAILING_NUMBER (traffic_key t) = Some ds"
  shows "wm_sequentialSamples (wm_exec t m) = wm_sequentialSamples m + 1"
    and "wm_lastNumericSuffix (wm_exec t m) = Some (digits_value ds)"
    and "wm_sequentialMatches (wm_exec t m) = wm_sequentialMatches m +
      (case wm_lastNumericSuffix m of None \<Rightarrow> 0 | Some l \<Rightarrow> if \<bar>int (digits_value ds) - int l\<bar> = 1 then 1 else 0)"
  using assms
  by (cases t; simp add: wm_recordHit_def wm_recordMiss_def wm_recordWrite_def observeKey_def
      updateSequentialDetection_def Let_def split: option.split)+

lemma wm_scan:
  assumes "map traffic_key ts = map (\<lambda>i. p @ show_nat (a + i)) [0..<Suc n]"
    and "\<forall>c \<in> set p. \<not> line_terminator c" and "p = [] \<or> \<not> is_digit (last p)"
    and "wm_lastNumericSuffix m = None" "wm_sequentialMatches m = 0" "wm_sequentialSamples m = 0"
  shows "wm_lastNumericSuffix (fold wm_exec ts m) = Some (a + n) \<and>
    wm_sequentialMatches (fold wm_exec ts m) = n \<and> wm_sequentialSamples (fold wm_exec ts m) = n + 1"
  using assms(1)
proof (induction n arbitrary: ts)
  have key: "TRAILING_NUMBER (p @ show_nat i) = Some (show_nat i)" for i
    by (rule TRAILING_NUMBER_suffix) (use assms(2,3) show_nat_digits in auto)
  case 0
  then obtain t where "ts = [t]" "traffic_key t = p @ show_nat a" by auto
  then show ?case using wm_exec_sequential[of t "show_nat a" m] key assms(4-6) by simp
next
  have key: "TRAILING_NUMBER (p @ show_nat i) = Some (show_nat i)" for i
    by (rule TRAILING_NUMBER_suffix) (use assms(2,3) show_nat_digits in auto)
  case (Suc n)
  let ?f = "\<lambda>i. p @ show_nat (a + i)"
  have "map traffic_key ts = map ?f [0..<Suc n] @ [?f (Suc n)]" using Suc.prems by simp
  then obtain us t where ts: "ts = us @ [t]" and us: "map traffic_key us = map ?f [0..<Suc n]"
    and t: "traffic_key t = ?f (Suc n)"
    by (cases ts rule: rev_cases) auto
  note IH = Suc.IH[OF us]
  have "TRAILING_NUMBER (traffic_key t) = Some (show_nat (a + Suc n))" unfolding t by (rule key)
  from wm_exec_sequential[OF this, of "fold wm_exec us m"] IH ts show ?case by simp
qed

text \<open>A sequential scan is recognised: when a fresh monitor sees keys that share a one-line
  prefix (not ending in a digit) and count up from any number, the scan score is \<open>n / (n + 1)\<close>, so
  from the second key on the rules recommend LRU whatever the mix of hits, misses and writes, unless
  memory pressure takes precedence.\<close>

lemma scan_recommends_LRU:
  assumes "new_WorkloadMonitor = Inr m0"
    and "map traffic_key ts = map (\<lambda>i. p @ show_nat (a + i)) [0..<Suc n]" and "1 \<le> n"
    and "\<forall>c \<in> set p. \<not> line_terminator c" and "p = [] \<or> \<not> is_digit (last p)"
  shows "let s = fst (computeSignals r (fold wm_exec ts m0))
    in ws_sequentialAccessScore s = of_nat n / of_nat (n + 1) \<and>
       pd_policy (decidePolicy s) = (if r \<ge> 85 / 100 then TINY_LFU else LRU)"
proof -
  let ?s = "fst (computeSignals r (fold wm_exec ts m0))"
  have score: "ws_sequentialAccessScore ?s = of_nat n / of_nat (n + 1)"
    using wm_scan[OF assms(2,4,5)] wm_new[OF assms(1)] by (simp add: computeSignals_fields)
  have "(1::rat) / 2 \<le> of_nat n / of_nat (n + 1)" using assms(3) by (simp add: le_divide_eq)
  then have "SEQUENTIAL_SCORE_THRESHOLD \<le> ws_sequentialAccessScore ?s"
    unfolding score SEQUENTIAL_SCORE_THRESHOLD_def by simp
  then show ?thesis unfolding Let_def
    by (simp add: score decidePolicy_def computeSignals_fields(3) MEMORY_PRESSURE_THRESHOLD_def)
qed

end
