(* ===== verification/Adaptive.thy ===== *)
theory Adaptive
  imports Lru Lfu TinyLfu Workload
begin

text \<open>
  \<open>packages/eviction/src/PolicyFactory.ts\<close> and \<open>AdaptiveEvictionEngine.ts\<close>: the engine that
  delegates to the active policy, feeds the workload monitor from the storage events and swaps in a
  freshly seeded policy.  \<open>getMemoryUsageRatio\<close> and \<open>getCurrentEntries\<close>, the getters registered by
  \<open>attachStorage\<close>, are arguments of the operations that call them; \<open>evaluateNow\<close> and its companions
  at the end of the definitions supply them from the storage engine the way \<open>CacheNodeServer.ts\<close>
  wires them.  A \<open>policySwitch\<close> event is the first component of an operation's result.
\<close>

section \<open>The policies behind one interface\<close>

datatype EvictionPolicy =
    LruPolicy LruEvictionPolicy
  | LfuPolicy LfuEvictionPolicy
  | TinyLfuPolicy TinyLfuEvictionPolicy

fun policy_type :: "EvictionPolicy \<Rightarrow> EvictionPolicyType" where
  "policy_type (LruPolicy _) = LRU"
| "policy_type (LfuPolicy _) = LFU"
| "policy_type (TinyLfuPolicy _) = TINY_LFU"

fun createEvictionPolicy :: "EvictionPolicyType \<Rightarrow> EvictionPolicy result" where
  "createEvictionPolicy LRU = Inr (LruPolicy new_LruEvictionPolicy)"
| "createEvictionPolicy LFU = Inr (LfuPolicy new_LfuEvictionPolicy)"
| "createEvictionPolicy TINY_LFU =
     (case new_TinyLfuEvictionPolicy None None of Inl e \<Rightarrow> Inl e | Inr p \<Rightarrow> Inr (TinyLfuPolicy p))"

fun policy_recordAccess :: "CacheKey \<Rightarrow> EvictionPolicy \<Rightarrow> EvictionPolicy" where
  "policy_recordAccess k (LruPolicy p) = LruPolicy (lru_recordAccess k p)"
| "policy_recordAccess k (LfuPolicy p) = LfuPolicy (lfu_recordAccess k p)"
| "policy_recordAccess k (TinyLfuPolicy p) = TinyLfuPolicy (tl_recordAccess k p)"

fun policy_recordWrite :: "CacheKey \<Rightarrow> EvictionPolicy \<Rightarrow> EvictionPolicy" where
  "policy_recordWrite k (LruPolicy p) = LruPolicy (lru_recordWrite k p)"
| "policy_recordWrite k (LfuPolicy p) = LfuPolicy (lfu_recordWrite k p)"
| "policy_recordWrite k (TinyLfuPolicy p) = TinyLfuPolicy (tl_recordWrite k p)"

fun policy_recordRemoval :: "CacheKey \<Rightarrow> EvictionPolicy \<Rightarrow> EvictionPolicy" where
  "policy_recordRemoval k (LruPolicy p) = LruPolicy (lru_recordRemoval k p)"
| "policy_recordRemoval k (LfuPolicy p) = LfuPolicy (lfu_recordRemoval k p)"
| "policy_recordRemoval k (TinyLfuPolicy p) = TinyLfuPolicy (tl_recordRemoval k p)"

fun policy_selectVictim :: "CacheKey list \<Rightarrow> EvictionPolicy \<Rightarrow> CacheKey option" where
  "policy_selectVictim ks (LruPolicy p) = lru_selectVictim ks p"
| "policy_selectVictim ks (LfuPolicy p) = lfu_selectVictim ks p"
| "policy_selectVictim ks (TinyLfuPolicy p) = tl_selectVictim ks p"

fun policy_seed :: "'v CacheEntry list \<Rightarrow> EvictionPolicy \<Rightarrow> EvictionPolicy" where
  "policy_seed es (LruPolicy p) = LruPolicy (lru_seed es p)"
| "policy_seed es (LfuPolicy p) = LfuPolicy (lfu_seed es p)"
| "policy_seed es (TinyLfuPolicy p) = TinyLfuPolicy (tl_seed es p)"

section \<open>AdaptiveEvictionEngine.ts\<close>

record AdaptiveEvictionEngineOptions =
  ao_initialPolicy :: EvictionPolicyType
  ao_minSamplesBeforeSwitch :: nat
  ao_cooldownMs :: int
  ao_evaluationIntervalMs :: int
  ao_maxHistoryLength :: nat

definition ADAPTIVE_DEFAULTS :: AdaptiveEvictionEngineOptions where
  "ADAPTIVE_DEFAULTS =
     \<lparr>ao_initialPolicy = LRU, ao_minSamplesBeforeSwitch = 200, ao_cooldownMs = 15000,
      ao_evaluationIntervalMs = 5000, ao_maxHistoryLength = 200\<rparr>"

record PolicySwitchEvent =
  ps_timestamp :: time
  ps_fromPolicy :: EvictionPolicyType
  ps_toPolicy :: EvictionPolicyType
  ps_reason :: DecisionReason
  ps_signals :: WorkloadSignals

record AdaptiveEvictionEngine =
  ae_active :: EvictionPolicy
  ae_monitor :: WorkloadMonitor
  ae_options :: AdaptiveEvictionEngineOptions
  ae_lastSwitchAt :: time
  ae_evaluationTimer :: bool
  ae_switchHistory :: "PolicySwitchEvent list"
  ae_autoSwitchEnabled :: bool

definition new_AdaptiveEvictionEngine :: "AdaptiveEvictionEngineOptions \<Rightarrow> AdaptiveEvictionEngine result" where
  "new_AdaptiveEvictionEngine options =
     (case new_WorkloadMonitor of
        Inl e \<Rightarrow> Inl e
      | Inr monitor \<Rightarrow>
          (case createEvictionPolicy (ao_initialPolicy options) of
             Inl e \<Rightarrow> Inl e
           | Inr active \<Rightarrow>
               Inr \<lparr>ae_active = active, ae_monitor = monitor, ae_options = options, ae_lastSwitchAt = 0,
                    ae_evaluationTimer = (ao_evaluationIntervalMs options > 0), ae_switchHistory = [],
                    ae_autoSwitchEnabled = True\<rparr>))"

text \<open>The listeners that \<open>attachStorage\<close> registers on the storage engine.\<close>

fun ae_onEvent :: "StorageEngineEvent \<Rightarrow> CacheKey \<Rightarrow> AdaptiveEvictionEngine \<Rightarrow> AdaptiveEvictionEngine" where
  "ae_onEvent Hit k s = s\<lparr>ae_monitor := wm_recordHit k (ae_monitor s)\<rparr>"
| "ae_onEvent Miss k s = s\<lparr>ae_monitor := wm_recordMiss k (ae_monitor s)\<rparr>"
| "ae_onEvent Write k s = s\<lparr>ae_monitor := wm_recordWrite k (ae_monitor s)\<rparr>"
| "ae_onEvent Delete k s = s"
| "ae_onEvent Expire k s = s"
| "ae_onEvent Evict k s = s"

definition ae_recordAccess :: "CacheKey \<Rightarrow> AdaptiveEvictionEngine \<Rightarrow> AdaptiveEvictionEngine" where
  "ae_recordAccess key s = s\<lparr>ae_active := policy_recordAccess key (ae_active s)\<rparr>"

definition ae_recordWrite :: "CacheKey \<Rightarrow> AdaptiveEvictionEngine \<Rightarrow> AdaptiveEvictionEngine" where
  "ae_recordWrite key s = s\<lparr>ae_active := policy_recordWrite key (ae_active s)\<rparr>"

definition ae_recordRemoval :: "CacheKey \<Rightarrow> AdaptiveEvictionEngine \<Rightarrow> AdaptiveEvictionEngine" where
  "ae_recordRemoval key s = s\<lparr>ae_active := policy_recordRemoval key (ae_active s)\<rparr>"

definition ae_selectVictim :: "CacheKey list \<Rightarrow> AdaptiveEvictionEngine \<Rightarrow> CacheKey option" where
  "ae_selectVictim candidateKeys s = policy_selectVictim candidateKeys (ae_active s)"

definition getCurrentPolicy :: "AdaptiveEvictionEngine \<Rightarrow> EvictionPolicyType" where
  "getCurrentPolicy s = policy_type (ae_active s)"

definition getSignals :: "rat \<Rightarrow> AdaptiveEvictionEngine \<Rightarrow> WorkloadSignals \<times> AdaptiveEvictionEngine" where
  "getSignals memoryUsageRatio s =
     (let (signals, m) = computeSignals memoryUsageRatio (ae_monitor s) in (signals, s\<lparr>ae_monitor := m\<rparr>))"

definition getSwitchHistory :: "AdaptiveEvictionEngine \<Rightarrow> PolicySwitchEvent list" where
  "getSwitchHistory s = ae_switchHistory s"

definition switchTo :: "time \<Rightarrow> 'v CacheEntry list \<Rightarrow> EvictionPolicyType \<Rightarrow> DecisionReason \<Rightarrow> WorkloadSignals \<Rightarrow>
    AdaptiveEvictionEngine \<Rightarrow> (PolicySwitchEvent option \<times> AdaptiveEvictionEngine) result" where
  "switchTo now currentEntries policy reason signals s =
     (if policy = policy_type (ae_active s) then Inr (None, s)
      else case createEvictionPolicy policy of
             Inl e \<Rightarrow> Inl e
           | Inr fresh \<Rightarrow>
               (let fromPolicy = policy_type (ae_active s);
                    s1 = s\<lparr>ae_active := policy_seed currentEntries fresh, ae_lastSwitchAt := now\<rparr>;
                    event = \<lparr>ps_timestamp = ae_lastSwitchAt s1, ps_fromPolicy = fromPolicy,
                             ps_toPolicy = policy, ps_reason = reason, ps_signals = signals\<rparr>;
                    s2 = s1\<lparr>ae_switchHistory := ae_switchHistory s1 @ [event]\<rparr>;
                    s3 = (if length (ae_switchHistory s2) > ao_maxHistoryLength (ae_options s2)
                          then s2\<lparr>ae_switchHistory := tl (ae_switchHistory s2)\<rparr> else s2)
                in Inr (Some event, s3)))"

definition forceSwitch :: "time \<Rightarrow> rat \<Rightarrow> 'v CacheEntry list \<Rightarrow> EvictionPolicyType \<Rightarrow> string \<Rightarrow>
    AdaptiveEvictionEngine \<Rightarrow> (PolicySwitchEvent option \<times> AdaptiveEvictionEngine) result" where
  "forceSwitch now memoryUsageRatio currentEntries policy reason s =
     (let (signals, s1) = getSignals memoryUsageRatio s
      in switchTo now currentEntries policy (ManualOverride reason) signals s1)"

definition pauseAutoSwitch :: "AdaptiveEvictionEngine \<Rightarrow> AdaptiveEvictionEngine" where
  "pauseAutoSwitch s = s\<lparr>ae_autoSwitchEnabled := False\<rparr>"

definition resumeAutoSwitch :: "AdaptiveEvictionEngine \<Rightarrow> AdaptiveEvictionEngine" where
  "resumeAutoSwitch s = s\<lparr>ae_autoSwitchEnabled := True\<rparr>"

definition isAutoSwitchEnabled :: "AdaptiveEvictionEngine \<Rightarrow> bool" where
  "isAutoSwitchEnabled s = ae_autoSwitchEnabled s"

definition evaluate :: "time \<Rightarrow> rat \<Rightarrow> 'v CacheEntry list \<Rightarrow> AdaptiveEvictionEngine \<Rightarrow>
    (PolicySwitchEvent option \<times> AdaptiveEvictionEngine) result" where
  "evaluate now memoryUsageRatio currentEntries s =
     (if \<not> ae_autoSwitchEnabled s then Inr (None, s)
      else let (signals, m) = computeSignals memoryUsageRatio (ae_monitor s); s1 = s\<lparr>ae_monitor := m\<rparr>
           in if ws_windowSampleCount signals < ao_minSamplesBeforeSwitch (ae_options s1) then Inr (None, s1)
              else let decision = decidePolicy signals
                   in if pd_policy decision = policy_type (ae_active s1) then Inr (None, s1)
                      else if now - ae_lastSwitchAt s1 < ao_cooldownMs (ae_options s1) then Inr (None, s1)
                      else switchTo now currentEntries (pd_policy decision) (pd_reason decision) signals s1)"

definition ae_dispose :: "AdaptiveEvictionEngine \<Rightarrow> AdaptiveEvictionEngine" where
  "ae_dispose s = s\<lparr>ae_evaluationTimer := False\<rparr>"

definition adaptive_hook :: "AdaptiveEvictionEngine EvictionHook" where
  "adaptive_hook = \<lparr>recordAccess = ae_recordAccess, recordWrite = ae_recordWrite,
     recordRemoval = ae_recordRemoval, selectVictim = ae_selectVictim, onEvent = ae_onEvent\<rparr>"

section \<open>Wired to the storage engine\<close>

type_synonym 'v node_storage = "('v, AdaptiveEvictionEngine) StorageEngine"

definition memoryUsageRatio :: "nat \<Rightarrow> ('v, 'h) StorageEngine \<Rightarrow> rat" where
  "memoryUsageRatio maxMemoryBytes s = of_int (storage_sizeBytes s) / of_nat maxMemoryBytes"

definition with_engine :: "'v node_storage \<Rightarrow> (PolicySwitchEvent option \<times> AdaptiveEvictionEngine) result \<Rightarrow>
    (PolicySwitchEvent option \<times> 'v node_storage) result" where
  "with_engine s r = (case r of Inl e \<Rightarrow> Inl e | Inr (ev, h) \<Rightarrow> Inr (ev, s\<lparr>se_hook := h\<rparr>))"

definition evaluateNow :: "nat \<Rightarrow> time \<Rightarrow> 'v node_storage \<Rightarrow> (PolicySwitchEvent option \<times> 'v node_storage) result" where
  "evaluateNow maxMemoryBytes now s =
     with_engine s (evaluate now (memoryUsageRatio maxMemoryBytes s) (storage_entries s) (se_hook s))"

definition forceSwitchNow :: "nat \<Rightarrow> time \<Rightarrow> EvictionPolicyType \<Rightarrow> string \<Rightarrow> 'v node_storage \<Rightarrow>
    (PolicySwitchEvent option \<times> 'v node_storage) result" where
  "forceSwitchNow maxMemoryBytes now policy reason s =
     with_engine s (forceSwitch now (memoryUsageRatio maxMemoryBytes s) (storage_entries s) policy reason (se_hook s))"

definition getSignalsNow :: "nat \<Rightarrow> 'v node_storage \<Rightarrow> WorkloadSignals \<times> 'v node_storage" where
  "getSignalsNow maxMemoryBytes s =
     (let (signals, h) = getSignals (memoryUsageRatio maxMemoryBytes s) (se_hook s) in (signals, s\<lparr>se_hook := h\<rparr>))"

section \<open>Every policy keeps the hook contract\<close>

fun policy_inv :: "EvictionPolicy \<Rightarrow> bool" where
  "policy_inv (LruPolicy p) = lru_inv p"
| "policy_inv (LfuPolicy p) = lfu_inv p"
| "policy_inv (TinyLfuPolicy p) = tl_inv p"

fun policy_tracked :: "EvictionPolicy \<Rightarrow> CacheKey set" where
  "policy_tracked (LruPolicy p) = set (lru_list p)"
| "policy_tracked (LfuPolicy p) = dom (map_of (lfu_frequency p))"
| "policy_tracked (TinyLfuPolicy p) = tl_tracked p"

lemma policy_access:
  "policy_inv p \<Longrightarrow> policy_inv (policy_recordAccess k p) \<and>
     policy_tracked (policy_recordAccess k p) = insert k (policy_tracked p)"
  by (cases p) (auto simp: lru_recordAccess_def lru_touch_list lfu_access_inv simp del: map_of_eq_Some_iff)

lemma policy_write:
  "policy_inv p \<Longrightarrow> policy_inv (policy_recordWrite k p) \<and>
     policy_tracked (policy_recordWrite k p) = insert k (policy_tracked p)"
  by (cases p) (auto simp: lru_recordWrite_def lru_touch_list lfu_write_inv simp del: map_of_eq_Some_iff)

lemma policy_removal:
  "policy_inv p \<Longrightarrow> policy_inv (policy_recordRemoval k p) \<and>
     policy_tracked (policy_recordRemoval k p) = policy_tracked p - {k}"
  by (cases p) (auto simp: lru_removal_list lfu_removal_inv simp del: map_of_eq_Some_iff)

lemma policy_types [simp]:
  "policy_type (policy_recordAccess k p) = policy_type p" "policy_type (policy_recordWrite k p) = policy_type p"
  "policy_type (policy_recordRemoval k p) = policy_type p" "policy_type (policy_seed es p) = policy_type p"
  by (cases p; simp)+

lemma policy_victim_mem: "policy_inv p \<Longrightarrow> policy_selectVictim ks p = Some v \<Longrightarrow> v \<in> set ks"
  by (cases p) (auto simp: lru_victim_find lfu_victim_mem tl_victim_mem dest: find_Some_mem)

lemma policy_victim_some:
  "policy_inv p \<Longrightarrow> ks \<noteq> [] \<Longrightarrow> set ks \<subseteq> policy_tracked p \<Longrightarrow> policy_selectVictim ks p \<noteq> None"
proof (cases p)
  case (LruPolicy q)
  then show "policy_inv p \<Longrightarrow> ks \<noteq> [] \<Longrightarrow> set ks \<subseteq> policy_tracked p \<Longrightarrow> ?thesis"
    using lru.victim_exists[of q ks] by (simp add: hook_simps)
qed (simp_all only: policy_inv.simps policy_tracked.simps policy_selectVictim.simps lfu_victim_some tl_victim_some
       not_False_eq_True simp_thms)

lemma createEvictionPolicy_ok:
  obtains p where "createEvictionPolicy t = Inr p" and "policy_inv p" and "policy_type p = t"
    and "policy_tracked p = {}"
proof (cases t)
  case LRU
  then show ?thesis using that by (simp add: lru_inv_new)
next
  case LFU
  then show ?thesis using that by (simp add: lfu_inv_new)
next
  case TINY_LFU
  have "\<exists>q. new_TinyLfuEvictionPolicy None None = Inr q \<and> tl_recency q = new_LruEvictionPolicy"
    by (simp add: new_TinyLfuEvictionPolicy_def new_CountMinSketch_def DEFAULT_WIDTH_def DEFAULT_DEPTH_def)
  then obtain q where "new_TinyLfuEvictionPolicy None None = Inr q" "tl_recency q = new_LruEvictionPolicy" by blast
  with TINY_LFU that show ?thesis by (simp add: lru_inv_new)
qed

lemma policy_seed_ok:
  assumes "distinct (map ce_key es)"
  shows "policy_inv (policy_seed es p) \<and> policy_tracked (policy_seed es p) = ce_key ` set es"
proof (cases p)
  case (LfuPolicy q)
  have "dom (map_of (map (\<lambda>e. (ce_key e, max 1 (cm_frequency (ce_metadata e)))) es)) = ce_key ` set es"
    by (simp add: dom_map_of_conv_image_fst image_image)
  with LfuPolicy show ?thesis using lfu_seed_inv[OF assms, of q] by simp
qed (simp_all add: lru_seed_list tl_seed_inv)

section \<open>The adaptive engine is an eviction hook\<close>

definition ae_inv :: "AdaptiveEvictionEngine \<Rightarrow> bool" where
  "ae_inv s \<longleftrightarrow> policy_inv (ae_active s) \<and> wm_ok (ae_monitor s)"

abbreviation ae_tracked :: "AdaptiveEvictionEngine \<Rightarrow> CacheKey set" where
  "ae_tracked s \<equiv> policy_tracked (ae_active s)"

lemma adaptive_hook_simps [hook_simps]:
  "recordAccess adaptive_hook = ae_recordAccess" "recordWrite adaptive_hook = ae_recordWrite"
  "recordRemoval adaptive_hook = ae_recordRemoval" "selectVictim adaptive_hook = ae_selectVictim"
  "onEvent adaptive_hook = ae_onEvent"
  by (simp_all add: adaptive_hook_def)

lemma ae_event_frame [simp]:
  "ae_active (ae_onEvent ev k s) = ae_active s" "ae_options (ae_onEvent ev k s) = ae_options s"
  "ae_switchHistory (ae_onEvent ev k s) = ae_switchHistory s" "ae_lastSwitchAt (ae_onEvent ev k s) = ae_lastSwitchAt s"
  by (cases ev; simp)+

lemma ae_event_monitor: "wm_ok (ae_monitor s) \<Longrightarrow> wm_ok (ae_monitor (ae_onEvent ev k s))"
  using wm_exec_ok[of "ae_monitor s" "THit k"] wm_exec_ok[of "ae_monitor s" "TMiss k"]
    wm_exec_ok[of "ae_monitor s" "TWrite k"]
  by (cases ev) simp_all

interpretation adaptive: eviction_hook adaptive_hook ae_inv ae_tracked
proof unfold_locales
  fix h :: AdaptiveEvictionEngine and ks v
  assume "ae_inv h" and "selectVictim adaptive_hook ks h = Some v"
  then show "v \<in> set ks" by (auto simp: hook_simps ae_inv_def ae_selectVictim_def intro: policy_victim_mem)
next
  fix h :: AdaptiveEvictionEngine and ks :: "CacheKey list"
  assume "ae_inv h" and "ks \<noteq> []" and "set ks \<subseteq> ae_tracked h"
  then show "selectVictim adaptive_hook ks h \<noteq> None"
    using policy_victim_some by (simp only: hook_simps ae_inv_def ae_selectVictim_def) blast
qed (auto simp: hook_simps ae_inv_def ae_recordAccess_def ae_recordWrite_def ae_recordRemoval_def
       policy_access policy_write policy_removal ae_event_monitor)

section \<open>Switching\<close>

lemma getSignals_ok: "ae_inv s \<Longrightarrow> ae_inv (snd (getSignals r s)) \<and> ae_active (snd (getSignals r s)) = ae_active s"
  using computeSignals_ok(1)[of "ae_monitor s" r] by (simp add: getSignals_def ae_inv_def case_prod_unfold Let_def)

definition switch_event :: "time \<Rightarrow> EvictionPolicyType \<Rightarrow> DecisionReason \<Rightarrow> WorkloadSignals \<Rightarrow>
    AdaptiveEvictionEngine \<Rightarrow> PolicySwitchEvent" where
  "switch_event now pol reason sig s = \<lparr>ps_timestamp = now, ps_fromPolicy = policy_type (ae_active s),
     ps_toPolicy = pol, ps_reason = reason, ps_signals = sig\<rparr>"

definition push_history :: "nat \<Rightarrow> PolicySwitchEvent list \<Rightarrow> PolicySwitchEvent \<Rightarrow> PolicySwitchEvent list" where
  "push_history n h e = (if length h + 1 > n then tl (h @ [e]) else h @ [e])"

definition switched :: "time \<Rightarrow> 'v CacheEntry list \<Rightarrow> EvictionPolicyType \<Rightarrow> DecisionReason \<Rightarrow> WorkloadSignals \<Rightarrow>
    EvictionPolicy \<Rightarrow> AdaptiveEvictionEngine \<Rightarrow> AdaptiveEvictionEngine" where
  "switched now es pol reason sig p s =
     s\<lparr>ae_active := policy_seed es p, ae_lastSwitchAt := now,
       ae_switchHistory := push_history (ao_maxHistoryLength (ae_options s)) (ae_switchHistory s)
         (switch_event now pol reason sig s)\<rparr>"

lemma switchTo_eq:
  "pol \<noteq> policy_type (ae_active s) \<Longrightarrow> createEvictionPolicy pol = Inr p \<Longrightarrow>
   switchTo now es pol reason sig s = Inr (Some (switch_event now pol reason sig s), switched now es pol reason sig p s)"
  by (simp add: switchTo_def Let_def switched_def push_history_def switch_event_def)

lemma switchTo_result:
  assumes "ae_inv s" and "distinct (map ce_key es)"
  obtains ev s' where "switchTo now es pol reason sig s = Inr (ev, s')" and "ae_inv s'"
    and "ae_tracked s' = ae_tracked s \<or> ae_tracked s' = ce_key ` set es"
    and "policy_type (ae_active s') = pol"
proof (cases "pol = policy_type (ae_active s)")
  case True
  with assms(1) that show ?thesis by (simp add: switchTo_def)
next
  case False
  obtain p where p: "createEvictionPolicy pol = Inr p" "policy_type p = pol" by (rule createEvictionPolicy_ok)
  have s': "switchTo now es pol reason sig s = Inr (Some (switch_event now pol reason sig s), switched now es pol reason sig p s)"
    by (rule switchTo_eq[OF False p(1)])
  show ?thesis
    using policy_seed_ok[OF assms(2), of p] assms(1) p(2)
    by (intro that[OF s']) (simp_all add: ae_inv_def switched_def)
qed

lemma evaluate_cases:
  obtains (Same) "ae_autoSwitchEnabled s = False" "evaluate now r es s = Inr (None, s)"
  | (Signals) "evaluate now r es s = Inr (None, snd (getSignals r s))"
  | (Switch) "evaluate now r es s = switchTo now es (pd_policy (decidePolicy (fst (getSignals r s))))
        (pd_reason (decidePolicy (fst (getSignals r s)))) (fst (getSignals r s)) (snd (getSignals r s))"
      "ae_autoSwitchEnabled s" "ao_cooldownMs (ae_options s) \<le> now - ae_lastSwitchAt s"
      "ao_minSamplesBeforeSwitch (ae_options s) \<le> wm_totalSamples (ae_monitor s)"
      "pd_policy (decidePolicy (fst (getSignals r s))) \<noteq> policy_type (ae_active s)"
proof (cases "ae_autoSwitchEnabled s")
  case False
  then show ?thesis using Same by (simp add: evaluate_def)
next
  case True
  define sig where "sig = fst (computeSignals r (ae_monitor s))"
  define s1 where "s1 = s\<lparr>ae_monitor := snd (computeSignals r (ae_monitor s))\<rparr>"
  have g: "getSignals r s = (sig, s1)" by (simp add: getSignals_def sig_def s1_def case_prod_unfold Let_def)
  have n: "ws_windowSampleCount sig = wm_totalSamples (ae_monitor s)" by (simp add: sig_def computeSignals_fields)
  have ev: "evaluate now r es s =
      (if ws_windowSampleCount sig < ao_minSamplesBeforeSwitch (ae_options s) then Inr (None, s1)
       else if pd_policy (decidePolicy sig) = policy_type (ae_active s) then Inr (None, s1)
       else if now - ae_lastSwitchAt s < ao_cooldownMs (ae_options s) then Inr (None, s1)
       else switchTo now es (pd_policy (decidePolicy sig)) (pd_reason (decidePolicy sig)) sig s1)"
    using True by (simp add: evaluate_def Let_def case_prod_unfold sig_def s1_def)
  show ?thesis
  proof (cases "wm_totalSamples (ae_monitor s) < ao_minSamplesBeforeSwitch (ae_options s) \<or>
      pd_policy (decidePolicy sig) = policy_type (ae_active s) \<or>
      now - ae_lastSwitchAt s < ao_cooldownMs (ae_options s)")
    case stay: True
    show ?thesis by (rule Signals) (use stay in \<open>auto simp: g ev n\<close>)
  next
    case False
    show ?thesis by (rule Switch) (use True False in \<open>simp_all add: g ev n\<close>)
  qed
qed

section \<open>A node's storage under any interleaving of requests and evaluations\<close>

datatype 'v node_op =
    Storage "'v storage_op"
  | Evaluate time
  | ForceSwitch time EvictionPolicyType string
  | Signals
  | PauseAuto
  | ResumeAuto

definition apply_result :: "('a \<times> 's) result \<Rightarrow> 's \<Rightarrow> 's" where
  "apply_result r s = (case r of Inl _ \<Rightarrow> s | Inr (_, s') \<Rightarrow> s')"

fun node_exec :: "('v \<Rightarrow> unit + string option) \<Rightarrow> StorageEngineOptions \<Rightarrow> nat \<Rightarrow> 'v node_op \<Rightarrow>
    'v node_storage \<Rightarrow> 'v node_storage" where
  "node_exec js opts mx (Storage op) s = storage_exec adaptive_hook js opts op s"
| "node_exec js opts mx (Evaluate now) s = apply_result (evaluateNow mx now s) s"
| "node_exec js opts mx (ForceSwitch now pol reason) s = apply_result (forceSwitchNow mx now pol reason s) s"
| "node_exec js opts mx Signals s = snd (getSignalsNow mx s)"
| "node_exec js opts mx PauseAuto s = s\<lparr>se_hook := pauseAutoSwitch (se_hook s)\<rparr>"
| "node_exec js opts mx ResumeAuto s = s\<lparr>se_hook := resumeAutoSwitch (se_hook s)\<rparr>"

lemma storage_entries_keys: "storage_ok s \<Longrightarrow> map ce_key (storage_entries s) = map fst (se_store s)"
  by (simp add: storage_ok_def storage_entries_def)

lemma wf_entries:
  "adaptive.wf s \<Longrightarrow> distinct (map ce_key (storage_entries s)) \<and>
     ce_key ` set (storage_entries s) = fst ` set (se_store s)"
  using storage_entries_keys[of s] by (metis adaptive.wf_ok set_map storage_ok_def)

lemma wf_set_hook:
  "adaptive.wf s \<Longrightarrow> ae_inv h \<Longrightarrow> fst ` set (se_store s) \<subseteq> ae_tracked h \<Longrightarrow> adaptive.wf (s\<lparr>se_hook := h\<rparr>)"
  by (simp add: adaptive.wf_def storage_ok_def)

lemma switchTo_wf:
  assumes "adaptive.wf s" and "ae_inv h" and "ae_active h = ae_active (se_hook s)"
  obtains ev h' where "switchTo now (storage_entries s) pol reason sig h = Inr (ev, h')"
    and "adaptive.wf (s\<lparr>se_hook := h'\<rparr>)" and "policy_type (ae_active h') = pol"
proof -
  obtain ev h' where r: "switchTo now (storage_entries s) pol reason sig h = Inr (ev, h')" and inv: "ae_inv h'"
    and tr: "ae_tracked h' = ae_tracked h \<or> ae_tracked h' = ce_key ` set (storage_entries s)"
    and ty: "policy_type (ae_active h') = pol"
    using switchTo_result[OF assms(2)] wf_entries[OF assms(1)] by metis
  from tr assms wf_entries[OF assms(1)] have "fst ` set (se_store s) \<subseteq> ae_tracked h'"
    by (auto simp: adaptive.wf_def)
  from that[OF r wf_set_hook[OF assms(1) inv this] ty] show ?thesis .
qed

lemma wf_getSignals: "adaptive.wf s \<Longrightarrow> adaptive.wf (s\<lparr>se_hook := snd (getSignals r (se_hook s))\<rparr>)"
  using getSignals_ok[of "se_hook s" r] by (intro wf_set_hook) (auto simp: adaptive.wf_def)

lemma evaluateNow_wf:
  assumes "adaptive.wf s"
  obtains ev s' where "evaluateNow mx now s = Inr (ev, s')" and "adaptive.wf s'"
proof -
  let ?r = "memoryUsageRatio mx s" and ?es = "storage_entries s"
  from assms have inv: "ae_inv (se_hook s)" by (simp add: adaptive.wf_def)
  show ?thesis
  proof (cases rule: evaluate_cases[of "se_hook s" now ?r ?es])
    case Same
    then show ?thesis using assms that by (simp add: evaluateNow_def with_engine_def)
  next
    case Signals
    then show ?thesis using wf_getSignals[OF assms] that by (simp add: evaluateNow_def with_engine_def)
  next
    case Switch
    obtain ev h' where "evaluate now ?r ?es (se_hook s) = Inr (ev, h')" "adaptive.wf (s\<lparr>se_hook := h'\<rparr>)"
      unfolding Switch(1) using getSignals_ok[OF inv] by (blast intro: switchTo_wf[OF assms])
    then show ?thesis using that by (simp add: evaluateNow_def with_engine_def)
  qed
qed

lemma forceSwitchNow_wf:
  assumes "adaptive.wf s"
  obtains ev s' where "forceSwitchNow mx now pol reason s = Inr (ev, s')" and "adaptive.wf s'"
    and "getCurrentPolicy (se_hook s') = pol"
proof -
  from assms have inv: "ae_inv (se_hook s)" by (simp add: adaptive.wf_def)
  let ?g = "getSignals (memoryUsageRatio mx s) (se_hook s)"
  obtain ev h' where "switchTo now (storage_entries s) pol (ManualOverride reason) (fst ?g) (snd ?g) = Inr (ev, h')"
    "adaptive.wf (s\<lparr>se_hook := h'\<rparr>)" "policy_type (ae_active h') = pol"
    using getSignals_ok[OF inv] by (blast intro: switchTo_wf[OF assms])
  then show ?thesis using that
    by (simp add: forceSwitchNow_def forceSwitch_def with_engine_def case_prod_unfold Let_def getCurrentPolicy_def)
qed

lemma node_exec_wf: "adaptive.wf s \<Longrightarrow> adaptive.wf (node_exec js opts mx op s)"
proof (cases op)
  case (Storage sop)
  assume "adaptive.wf s"
  with Storage show ?thesis by (simp only: node_exec.simps adaptive.wf_exec)
next
  case (Evaluate now)
  assume "adaptive.wf s"
  with Evaluate show ?thesis by (auto simp: apply_result_def elim: evaluateNow_wf[of s mx now])
next
  case (ForceSwitch now pol reason)
  assume "adaptive.wf s"
  with ForceSwitch show ?thesis by (auto simp: apply_result_def elim: forceSwitchNow_wf[of s mx now pol reason])
next
  case Signals
  assume "adaptive.wf s"
  with Signals show ?thesis using wf_getSignals by (simp add: getSignalsNow_def case_prod_unfold Let_def)
qed (auto simp: pauseAutoSwitch_def resumeAutoSwitch_def adaptive.wf_def storage_ok_def ae_inv_def)

lemma node_fold_wf: "adaptive.wf s \<Longrightarrow> adaptive.wf (fold (node_exec js opts mx) ops s)"
  by (induction ops arbitrary: s) (simp_all add: node_exec_wf)

lemma new_AdaptiveEvictionEngine_ok:
  "\<exists>h. new_AdaptiveEvictionEngine opts = Inr h"
  "new_AdaptiveEvictionEngine opts = Inr h \<Longrightarrow> ae_inv h \<and> ae_switchHistory h = [] \<and> ae_options h = opts"
proof -
  obtain m where m: "new_WorkloadMonitor = Inr m" using wm_new_exists by blast
  obtain p where p: "createEvictionPolicy (ao_initialPolicy opts) = Inr p" "policy_inv p"
    by (rule createEvictionPolicy_ok)
  show "\<exists>h. new_AdaptiveEvictionEngine opts = Inr h" by (simp add: new_AdaptiveEvictionEngine_def m p)
  show "new_AdaptiveEvictionEngine opts = Inr h \<Longrightarrow> ae_inv h \<and> ae_switchHistory h = [] \<and> ae_options h = opts"
    using wm_new[OF m] p(2) by (auto simp: new_AdaptiveEvictionEngine_def m p ae_inv_def)
qed

section \<open>The switch history\<close>

definition hist_ok :: "AdaptiveEvictionEngineOptions \<Rightarrow> bool \<Rightarrow> AdaptiveEvictionEngine \<Rightarrow> bool" where
  "hist_ok ao spaced h \<longleftrightarrow> ae_options h = ao \<and> (let hs = ae_switchHistory h in
     length hs \<le> ao_maxHistoryLength ao \<and>
     successively (\<lambda>a b. ps_toPolicy a = ps_fromPolicy b) hs \<and>
     (\<forall>e \<in> set hs. ps_fromPolicy e \<noteq> ps_toPolicy e) \<and>
     (hs \<noteq> [] \<longrightarrow> ps_timestamp (last hs) = ae_lastSwitchAt h \<and> ps_toPolicy (last hs) = policy_type (ae_active h)) \<and>
     (spaced \<longrightarrow> successively (\<lambda>a b. ao_cooldownMs ao \<le> ps_timestamp b - ps_timestamp a) hs))"

lemma hist_ok_cong:
  "hist_ok ao b h \<Longrightarrow> ae_switchHistory h' = ae_switchHistory h \<Longrightarrow> ae_options h' = ae_options h \<Longrightarrow>
   ae_lastSwitchAt h' = ae_lastSwitchAt h \<Longrightarrow> policy_type (ae_active h') = policy_type (ae_active h) \<Longrightarrow> hist_ok ao b h'"
  by (simp add: hist_ok_def Let_def)

lemma successively_tl: "successively P xs \<Longrightarrow> successively P (tl xs)"
  by (cases xs) (auto simp: successively_Cons)

lemma successively_push:
  "successively P hs \<Longrightarrow> (hs \<noteq> [] \<Longrightarrow> P (last hs) e) \<Longrightarrow> successively P (push_history n hs e)"
proof -
  assume "successively P hs" and "hs \<noteq> [] \<Longrightarrow> P (last hs) e"
  then have "successively P (hs @ [e])" by (cases "hs = []") (simp_all add: successively_append_iff)
  then show ?thesis by (simp add: push_history_def successively_tl)
qed

lemma push_history_set: "set (push_history n hs e) \<subseteq> insert e (set hs)"
  unfolding push_history_def using list.set_sel(2)[of "hs @ [e]"] by auto

lemma push_history_last: "push_history n hs e \<noteq> [] \<Longrightarrow> last (push_history n hs e) = e"
  by (auto simp: push_history_def last_tl split: if_splits)

lemma hist_ok_switched:
  assumes "hist_ok ao spaced h" and "pol \<noteq> policy_type (ae_active h)" and "policy_type p = pol"
    and "spaced \<Longrightarrow> ao_cooldownMs (ae_options h) \<le> now - ae_lastSwitchAt h"
  shows "hist_ok ao spaced (switched now es pol reason sig p h)"
proof -
  let ?hs = "ae_switchHistory h" and ?e = "switch_event now pol reason sig h" and ?n = "ao_maxHistoryLength ao"
  from assms(1) have ao: "ae_options h = ao" by (simp add: hist_ok_def)
  let ?hs' = "push_history ?n ?hs ?e"
  have e: "ps_fromPolicy ?e = policy_type (ae_active h)" "ps_toPolicy ?e = pol" "ps_timestamp ?e = now"
    by (simp_all add: switch_event_def)
  have "length ?hs' \<le> ?n" using assms(1) by (auto simp: hist_ok_def Let_def push_history_def)
  moreover have "successively (\<lambda>a b. ps_toPolicy a = ps_fromPolicy b) ?hs'"
    by (rule successively_push) (use assms(1) e in \<open>auto simp: hist_ok_def Let_def\<close>)
  moreover have "\<forall>e \<in> set ?hs'. ps_fromPolicy e \<noteq> ps_toPolicy e"
    using assms(1,2) e push_history_set[of ?n ?hs ?e] by (auto simp: hist_ok_def Let_def)
  moreover have "spaced \<longrightarrow> successively (\<lambda>a b. ao_cooldownMs ao \<le> ps_timestamp b - ps_timestamp a) ?hs'"
    by (intro impI successively_push) (use assms(1,4) e ao in \<open>auto simp: hist_ok_def Let_def\<close>)
  moreover have "?hs' \<noteq> [] \<Longrightarrow> last ?hs' = ?e" by (rule push_history_last)
  ultimately show ?thesis using e assms(3) ao by (simp add: hist_ok_def Let_def switched_def)
qed

lemma hist_ok_switchTo:
  assumes "hist_ok ao spaced h" and "spaced \<Longrightarrow> pol \<noteq> policy_type (ae_active h) \<Longrightarrow> ao_cooldownMs (ae_options h) \<le> now - ae_lastSwitchAt h"
    and "switchTo now es pol reason sig h = Inr (ev, h')"
  shows "hist_ok ao spaced h'"
proof (cases "pol = policy_type (ae_active h)")
  case True
  with assms show ?thesis by (simp add: switchTo_def)
next
  case False
  obtain p where p: "createEvictionPolicy pol = Inr p" "policy_type p = pol" by (rule createEvictionPolicy_ok)
  from hist_ok_switched[OF assms(1) False p(2)] assms(2,3) False show ?thesis by (auto simp: switchTo_eq[OF False p(1)])
qed

lemma getSignals_frame:
  "ae_switchHistory (snd (getSignals r h)) = ae_switchHistory h" "ae_options (snd (getSignals r h)) = ae_options h"
  "ae_lastSwitchAt (snd (getSignals r h)) = ae_lastSwitchAt h" "ae_active (snd (getSignals r h)) = ae_active h"
  by (simp_all add: getSignals_def Let_def case_prod_unfold)

lemma hist_ok_signals: "hist_ok ao b h \<Longrightarrow> hist_ok ao b (snd (getSignals r h))"
  by (erule hist_ok_cong) (simp_all add: getSignals_frame)

lemma hist_ok_evaluate:
  assumes "hist_ok ao spaced h" and "evaluate now r es h = Inr (ev, h')"
  shows "hist_ok ao spaced h'"
proof (cases rule: evaluate_cases[of h now r es])
  case Switch
  show ?thesis by (rule hist_ok_switchTo[OF hist_ok_signals[OF assms(1)] _ assms(2)[unfolded Switch(1)]])
      (simp add: getSignals_frame Switch(3))
qed (use assms hist_ok_signals in auto)

interpretation adaptive_history: hook_property adaptive_hook "hist_ok ao spaced" for ao spaced
  by unfold_locales
     (auto simp: hook_simps ae_recordAccess_def ae_recordWrite_def ae_recordRemoval_def elim!: hist_ok_cong)

lemma hist_ok_node:
  assumes "hist_ok ao spaced (se_hook s)" and "spaced \<Longrightarrow> \<not> (\<exists>now pol reason. op = ForceSwitch now pol reason)"
  shows "hist_ok ao spaced (se_hook (node_exec js opts mx op s))"
proof (cases op)
  case (Storage sop)
  with assms(1) show ?thesis by (simp only: node_exec.simps adaptive_history.Q_exec)
next
  case (Evaluate now)
  with hist_ok_evaluate[OF assms(1)] assms(1) show ?thesis
    by (auto simp: apply_result_def evaluateNow_def with_engine_def split: sum.split)
next
  case (ForceSwitch now pol reason)
  let ?g = "getSignals (memoryUsageRatio mx s) (se_hook s)"
  from ForceSwitch assms(2) have "\<not> spaced" by blast
  then have "switchTo now (storage_entries s) pol (ManualOverride reason) (fst ?g) (snd ?g) = Inr (ev, h') \<Longrightarrow>
      hist_ok ao spaced h'" for ev h'
    by (intro hist_ok_switchTo[OF hist_ok_signals[OF assms(1)]]) auto
  with ForceSwitch assms(1) show ?thesis
    by (auto simp: apply_result_def forceSwitchNow_def forceSwitch_def with_engine_def case_prod_unfold Let_def
        split: sum.split)
next
  case Signals
  with hist_ok_signals[OF assms(1)] show ?thesis by (simp add: getSignalsNow_def case_prod_unfold Let_def)
qed (use assms(1) in \<open>auto simp: pauseAutoSwitch_def resumeAutoSwitch_def elim!: hist_ok_cong\<close>)

lemma hist_ok_fold:
  "hist_ok ao spaced (se_hook s) \<Longrightarrow>
   (spaced \<Longrightarrow> \<forall>op \<in> set ops. \<not> (\<exists>now pol reason. op = ForceSwitch now pol reason)) \<Longrightarrow>
   hist_ok ao spaced (se_hook (fold (node_exec js opts mx) ops s))"
proof (induction ops arbitrary: s)
  case (Cons op ops)
  have "hist_ok ao spaced (se_hook (node_exec js opts mx op s))"
    by (rule hist_ok_node[OF Cons.prems(1)]) (use Cons.prems(2) in auto)
  then show ?case using Cons.IH[of "node_exec js opts mx op s"] Cons.prems(2) by simp
qed simp

lemma hist_ok_new: "new_AdaptiveEvictionEngine ao = Inr h \<Longrightarrow> hist_ok ao spaced h"
  using new_AdaptiveEvictionEngine_ok(2)[of ao h] by (simp add: hist_ok_def)

text \<open>The switch history is faithful: under any interleaving of cache requests, timer
  evaluations, signal reads, pauses and forced switches it holds at most \<open>maxHistoryLength\<close> events,
  each of them changes the policy, each starts from the policy its predecessor switched to, and the
  last one names the active policy.\<close>

theorem switch_history_faithful:
  assumes "new_AdaptiveEvictionEngine ao = Inr h"
  shows "let e = se_hook (fold (node_exec js opts mx) ops (new_StorageEngine h)); hs = getSwitchHistory e
    in length hs \<le> ao_maxHistoryLength ao \<and> (\<forall>ev \<in> set hs. ps_fromPolicy ev \<noteq> ps_toPolicy ev) \<and>
       successively (\<lambda>a b. ps_toPolicy a = ps_fromPolicy b) hs \<and>
       (hs \<noteq> [] \<longrightarrow> ps_toPolicy (last hs) = getCurrentPolicy e)"
proof -
  have "hist_ok ao False (se_hook (new_StorageEngine h))"
    using hist_ok_new[OF assms] by (simp add: new_StorageEngine_def)
  from hist_ok_fold[OF this, of ops js opts mx] show ?thesis
    by (simp add: hist_ok_def Let_def getSwitchHistory_def getCurrentPolicy_def)
qed

theorem switch_history_faithful_witness:
  "\<exists>h. new_AdaptiveEvictionEngine ADAPTIVE_DEFAULTS = Inr h \<and>
     length (getSwitchHistory (se_hook (fold (node_exec (\<lambda>v :: nat. Inr (Some ''1'')) DEFAULT_STORAGE_ENGINE_OPTIONS 1000)
       [ForceSwitch 1 LFU ''test'', Storage (OpSet 2 ''a'' 1 None), ForceSwitch 3 LRU ''test''] (new_StorageEngine h)))) \<le> 200"
proof -
  obtain h where h: "new_AdaptiveEvictionEngine ADAPTIVE_DEFAULTS = Inr h"
    using new_AdaptiveEvictionEngine_ok(1) by blast
  from switch_history_faithful[OF h, of "\<lambda>v :: nat. Inr (Some ''1'')" DEFAULT_STORAGE_ENGINE_OPTIONS 1000
      "[ForceSwitch 1 LFU ''test'', Storage (OpSet 2 ''a'' 1 None), ForceSwitch 3 LRU ''test'']"] h
  show ?thesis unfolding Let_def by (intro exI[of _ h]) (simp add: ADAPTIVE_DEFAULTS_def)
qed

text \<open>C17. The cooldown holds: as long as no switch is forced, two consecutive switches are at least
  \<open>cooldownMs\<close> apart, whatever traffic and however many evaluations come in between.\<close>

theorem automatic_switches_spaced:
  assumes "new_AdaptiveEvictionEngine ao = Inr h"
    and "\<forall>op \<in> set ops. \<not> (\<exists>now pol reason. op = ForceSwitch now pol reason)"
  shows "successively (\<lambda>a b. ao_cooldownMs ao \<le> ps_timestamp b - ps_timestamp a)
    (getSwitchHistory (se_hook (fold (node_exec js opts mx) ops (new_StorageEngine h))))"
proof -
  have "hist_ok ao True (se_hook (new_StorageEngine h))"
    using hist_ok_new[OF assms(1)] by (simp add: new_StorageEngine_def)
  from hist_ok_fold[OF this, of ops js opts mx] assms(2) show ?thesis
    by (simp add: hist_ok_def Let_def getSwitchHistory_def)
qed

theorem automatic_switches_spaced_witness:
  "\<exists>h. new_AdaptiveEvictionEngine ADAPTIVE_DEFAULTS = Inr h \<and>
     successively (\<lambda>a b. 15000 \<le> ps_timestamp b - ps_timestamp a)
       (getSwitchHistory (se_hook (fold (node_exec (\<lambda>v :: nat. Inr (Some ''1'')) DEFAULT_STORAGE_ENGINE_OPTIONS 1000)
         [Evaluate 5000, Storage (OpGet 6000 ''a''), Evaluate 10000] (new_StorageEngine h))))"
proof -
  obtain h where h: "new_AdaptiveEvictionEngine ADAPTIVE_DEFAULTS = Inr h"
    using new_AdaptiveEvictionEngine_ok(1) by blast
  have "\<forall>op \<in> set [Evaluate 5000, Storage (OpGet 6000 ''a''), Evaluate 10000 :: nat node_op].
      \<not> (\<exists>now pol reason. op = ForceSwitch now pol reason)" by simp
  from automatic_switches_spaced[OF h this, of "\<lambda>v :: nat. Inr (Some ''1'')" DEFAULT_STORAGE_ENGINE_OPTIONS 1000] h
  show ?thesis by (intro exI[of _ h]) (simp add: ADAPTIVE_DEFAULTS_def)
qed

text \<open>C16. No stored key is ever forgotten by the active policy: under any interleaving of cache
  requests, evaluations and (forced or automatic) policy switches, every key in the store is tracked,
  the byte count is the sum of the stored sizes, and evaluation and forced switching never throw.\<close>

theorem switching_keeps_keys_tracked:
  assumes "new_AdaptiveEvictionEngine ao = Inr h"
  shows "let s = fold (node_exec js opts mx) ops (new_StorageEngine h)
    in fst ` set (se_store s) \<subseteq> policy_tracked (ae_active (se_hook s)) \<and>
       se_totalSizeBytes s = (\<Sum>p \<leftarrow> se_store s. int (cm_sizeBytes (ce_metadata (snd p)))) \<and>
       (\<exists>ev s'. evaluateNow mx now s = Inr (ev, s')) \<and>
       (\<exists>ev s'. forceSwitchNow mx now pol reason s = Inr (ev, s') \<and> getCurrentPolicy (se_hook s') = pol)"
proof -
  let ?s = "fold (node_exec js opts mx) ops (new_StorageEngine h)"
  have wf: "adaptive.wf ?s"
    using node_fold_wf[OF adaptive.wf_new] new_AdaptiveEvictionEngine_ok(2)[OF assms] by blast
  obtain ev s' where "evaluateNow mx now ?s = Inr (ev, s')" by (rule evaluateNow_wf[OF wf])
  moreover obtain ev2 s2 where "forceSwitchNow mx now pol reason ?s = Inr (ev2, s2)" "getCurrentPolicy (se_hook s2) = pol"
    by (rule forceSwitchNow_wf[OF wf])
  ultimately show ?thesis using wf unfolding Let_def adaptive.wf_def storage_ok_def by blast
qed

theorem switching_keeps_keys_tracked_witness:
  "\<exists>h. new_AdaptiveEvictionEngine ADAPTIVE_DEFAULTS = Inr h \<and>
     (let s = fold (node_exec (\<lambda>v :: nat. Inr (Some ''1'')) DEFAULT_STORAGE_ENGINE_OPTIONS 1000)
          [Storage (OpSet 1 ''a'' 7 None), ForceSwitch 2 TINY_LFU ''test''] (new_StorageEngine h)
      in fst ` set (se_store s) \<subseteq> policy_tracked (ae_active (se_hook s)))"
proof -
  obtain h where h: "new_AdaptiveEvictionEngine ADAPTIVE_DEFAULTS = Inr h"
    using new_AdaptiveEvictionEngine_ok(1) by blast
  from switching_keeps_keys_tracked[OF h, of "\<lambda>v :: nat. Inr (Some ''1'')" DEFAULT_STORAGE_ENGINE_OPTIONS 1000
      "[Storage (OpSet 1 ''a'' 7 None), ForceSwitch 2 TINY_LFU ''test'']" 3 LRU "''x''"] h
  show ?thesis unfolding Let_def by (intro exI[of _ h]) blast
qed

end
