(* ===== verification/NodeStorage.thy ===== *)
theory NodeStorage
  imports Adaptive
begin

text \<open>
  The storage of a cache node as \<open>CacheNodeServer.ts\<close> wires it: \<open>StorageEngine\<close> with the
  \<open>AdaptiveEvictionEngine\<close> as its eviction hook.  The lemmas of the locale \<open>eviction_hook\<close> reach
  the running system here, through the interpretation \<open>adaptive\<close>, as statements about every state
  that requests, evaluations and policy switches can produce.
\<close>

inductive node_reachable :: "('v \<Rightarrow> unit + string option) \<Rightarrow> StorageEngineOptions \<Rightarrow> nat \<Rightarrow> 'v node_storage \<Rightarrow> bool"
  for js opts mx where
  init: "new_AdaptiveEvictionEngine ao = Inr h \<Longrightarrow> node_reachable js opts mx (new_StorageEngine h)"
| step: "node_reachable js opts mx s \<Longrightarrow> node_reachable js opts mx (node_exec js opts mx op s)"

lemma reachable_wf: "node_reachable js opts mx s \<Longrightarrow> adaptive.wf s"
proof (induction rule: node_reachable.induct)
  case (init ao h)
  then show ?case using new_AdaptiveEvictionEngine_ok(2)[of ao h] by (simp add: adaptive.wf_new)
next
  case (step s op)
  from step.IH show ?case by (rule node_exec_wf)
qed

lemma reachable_ok: "node_reachable js opts mx s \<Longrightarrow> storage_ok s"
  by (rule adaptive.wf_ok[OF reachable_wf])

lemma reachable_fold: "node_reachable js opts mx s \<Longrightarrow> node_reachable js opts mx (fold (node_exec js opts mx) ops s)"
  by (induction ops arbitrary: s) (simp_all add: node_reachable.step)

text \<open>C1. Read your write: after a \<open>set\<close> of a value that fits the limits on its own, a \<open>get\<close>
  before the expiry time returns the entry the \<open>set\<close> made, with only its access time and access count
  moved on, whatever was evicted to make room.  That entry has the value, and its version is one more than
  the replaced entry's; every other key either keeps its entry or was evicted.\<close>

theorem set_then_get:
  assumes "node_reachable js opts mx s"
    and "storage_set adaptive_hook js opts now key v ttl s = Inr (entry, s')"
    and "enat (approximateSizeBytes js v) \<le> so_maxSizeBytes opts" and "1 \<le> so_maxEntries opts"
    and "\<not> isExpired now' entry"
  shows "(\<exists>e. fst (storage_get adaptive_hook now' key s') = Some e \<and> ce_key e = key \<and> ce_value e = v \<and>
      cm_version (ce_metadata e) = (case js_get (se_store s) key of None \<Rightarrow> 1 | Some e0 \<Rightarrow> cm_version (ce_metadata e0) + 1) \<and>
      e = entry\<lparr>ce_metadata := (ce_metadata entry)\<lparr>cm_lastAccessedAt := now', cm_frequency := cm_frequency (ce_metadata entry) + 1\<rparr>\<rparr>) \<and>
    (\<forall>k. k \<noteq> key \<longrightarrow> js_get (se_store s') k = None \<or> js_get (se_store s') k = js_get (se_store s) k)"
proof -
  have wf: "adaptive.wf s" by (rule reachable_wf[OF assms(1)])
  have stored: "js_get (se_store s') key = Some entry"
    by (rule adaptive.set_retains_key[OF wf assms(2,3,4)])
  obtain s1 where ins: "storage_insert adaptive_hook js opts now key v ttl s = (entry, s1)"
    using assms(2) by (blast elim: storage_set_Inr)
  note f = storage_insert_fields[OF ins]
  have "fst (storage_get adaptive_hook now' key s') =
      Some (entry\<lparr>ce_metadata := (ce_metadata entry)\<lparr>cm_lastAccessedAt := now', cm_frequency := cm_frequency (ce_metadata entry) + 1\<rparr>\<rparr>)"
    using stored assms(5) by (simp add: storage_get_def Let_def)
  then show ?thesis using f(2,3,8) adaptive.set_frame[OF assms(2)] by simp
qed

abbreviation str_json :: "string \<Rightarrow> unit + string option" where
  "str_json v \<equiv> Inr (Some v)"

lemma set_some: "key \<noteq> [] \<Longrightarrow> \<exists>e s'. storage_set H js opts now key v ttl s = Inr (e, s')"
  by (simp add: storage_set_def split: prod.split)

theorem set_then_get_witness:
  "\<exists>s entry s'. node_reachable str_json DEFAULT_STORAGE_ENGINE_OPTIONS 100 s \<and>
     storage_set adaptive_hook str_json DEFAULT_STORAGE_ENGINE_OPTIONS 0 ''k'' ''hello'' None s = Inr (entry, s') \<and>
     map_option (\<lambda>e. (ce_value e, cm_version (ce_metadata e))) (fst (storage_get adaptive_hook 5 ''k'' s')) = Some (''hello'', 1)"
proof -
  obtain h where "new_AdaptiveEvictionEngine ADAPTIVE_DEFAULTS = Inr h"
    using new_AdaptiveEvictionEngine_ok(1) by blast
  then have r: "node_reachable str_json DEFAULT_STORAGE_ENGINE_OPTIONS 100 (new_StorageEngine h)" by (rule init)
  obtain e s' where set: "storage_set adaptive_hook str_json DEFAULT_STORAGE_ENGINE_OPTIONS 0 ''k'' ''hello'' None
      (new_StorageEngine h) = Inr (e, s')" using set_some[of "''k''"] by fastforce
  have "cm_expiresAt (ce_metadata e) = None"
  proof -
    obtain s1 where "storage_insert adaptive_hook str_json DEFAULT_STORAGE_ENGINE_OPTIONS 0 ''k'' ''hello'' None
        (new_StorageEngine h) = (e, s1)" using set by (blast elim: storage_set_Inr)
    from storage_insert_fields(7)[OF this] show ?thesis by (simp add: DEFAULT_STORAGE_ENGINE_OPTIONS_def)
  qed
  then have "\<not> isExpired 5 e" by (simp add: isExpired_def)
  with set_then_get[OF r set, of 5] r set show ?thesis by (fastforce simp: DEFAULT_STORAGE_ENGINE_OPTIONS_def new_StorageEngine_def)
qed

lemma node_exec_maxEntries:
  assumes "adaptive.wf s" and "enat (length (se_store s)) \<le> so_maxEntries opts"
  shows "enat (length (se_store (node_exec js opts mx op s))) \<le> so_maxEntries opts"
proof -
  have engine: "with_engine s r = Inr (ev, s') \<Longrightarrow> se_store s' = se_store s"
    for r ev and s' :: "'a node_storage"
    by (auto simp: with_engine_def split: sum.splits prod.splits)
  show ?thesis
  proof (cases op)
    case (Storage sop)
    show ?thesis
    proof (cases "\<exists>now k v ttl. sop = OpSet now k v ttl")
      case True
      then obtain now k v ttl where "sop = OpSet now k v ttl" by blast
      with Storage assms show ?thesis
        by (auto split: sum.split intro: adaptive.set_keeps_maxEntries)
    next
      case False
      with storage_exec_shrinks[OF adaptive.wf_ok[OF assms(1)] False, of adaptive_hook js opts] assms(2) Storage
      show ?thesis by (simp, meson enat_ord_simps(1) order_trans)
    qed
  qed (use assms(2) engine in \<open>auto simp: apply_result_def evaluateNow_def forceSwitchNow_def getSignalsNow_def
        case_prod_unfold Let_def split: sum.split dest: engine\<close>)
qed

text \<open>C19. The entry limit is never exceeded: in every reachable state of a node with
  \<open>maxEntries\<close> set, the store has at most that many entries.\<close>

theorem reachable_maxEntries:
  assumes "node_reachable js opts mx s"
  shows "enat (storage_size s) \<le> so_maxEntries opts"
  using assms
proof (induction rule: node_reachable.induct)
  case (init ao h)
  then show ?case by (simp add: storage_size_def new_StorageEngine_def zero_enat_def[symmetric])
next
  case (step s op)
  then show ?case using node_exec_maxEntries[OF reachable_wf[OF step.hyps]] by (simp add: storage_size_def)
qed

theorem reachable_maxEntries_witness:
  "\<exists>s. node_reachable str_json \<lparr>so_maxEntries = 1, so_maxSizeBytes = \<infinity>, so_defaultTtlMs = None\<rparr> 100 s \<and>
     enat (storage_size s) \<le> 1"
proof -
  let ?o = "\<lparr>so_maxEntries = 1, so_maxSizeBytes = \<infinity>, so_defaultTtlMs = None\<rparr>"
  obtain h where "new_AdaptiveEvictionEngine ADAPTIVE_DEFAULTS = Inr h"
    using new_AdaptiveEvictionEngine_ok(1) by blast
  then have "node_reachable str_json ?o 100 (new_StorageEngine h)" by (rule init)
  then have "node_reachable str_json ?o 100 (fold (node_exec str_json ?o 100)
      [Storage (OpSet 0 ''a'' ''1'' None), Storage (OpSet 1 ''b'' ''2'' None)] (new_StorageEngine h))"
    by (rule reachable_fold)
  with reachable_maxEntries[OF this] show ?thesis by auto
qed

text \<open>C24. How far one write evicts: with \<open>n\<close> entries after the insertion a \<open>set\<close> evicts at most
  \<open>n div 2 + 1\<close> of them, one eviction is counted for each entry removed, and the store is left over a
  limit only after exactly that many evictions: the loop's guard grows while the store it is compared
  with shrinks.\<close>

theorem set_eviction_bound:
  assumes "node_reachable js opts mx s"
    and "storage_set adaptive_hook js opts now key v ttl s = Inr (entry, s')"
  shows "let n = (if js_has (se_store s) key then storage_size s else storage_size s + 1)
    in storage_size s' \<le> n \<and> n - storage_size s' \<le> n div 2 + 1 \<and>
       st_evictions (se_stats s') = st_evictions (se_stats s) + (n - storage_size s') \<and>
       (overCapacity opts s' \<longrightarrow> n - storage_size s' = n div 2 + 1)"
proof -
  obtain s1 where ins: "storage_insert adaptive_hook js opts now key v ttl s = (entry, s1)"
    and s': "s' = enforceCapacity adaptive_hook opts key s1"
    using assms(2) by (blast elim: storage_set_Inr)
  note f = storage_insert_fields[OF ins]
  have n: "(if js_has (se_store s) key then storage_size s else storage_size s + 1) = length (se_store s1)"
    by (simp add: f(1) length_js_set storage_size_def js_has_iff)
  from adaptive.enforceCapacity_outcome[OF adaptive.wf_insert[OF reachable_wf[OF assms(1)] ins] refl s']
  show ?thesis unfolding Let_def n by (auto simp: f(9) storage_size_def)
qed

theorem set_eviction_bound_witness:
  "\<exists>s entry s'. node_reachable str_json DEFAULT_STORAGE_ENGINE_OPTIONS 100 s \<and>
     storage_set adaptive_hook str_json DEFAULT_STORAGE_ENGINE_OPTIONS 0 ''k'' ''hello'' None s = Inr (entry, s') \<and>
     1 - storage_size s' \<le> 1"
proof -
  obtain h where "new_AdaptiveEvictionEngine ADAPTIVE_DEFAULTS = Inr h"
    using new_AdaptiveEvictionEngine_ok(1) by blast
  then have r: "node_reachable str_json DEFAULT_STORAGE_ENGINE_OPTIONS 100 (new_StorageEngine h)" by (rule init)
  obtain e s' where set: "storage_set adaptive_hook str_json DEFAULT_STORAGE_ENGINE_OPTIONS 0 ''k'' ''hello'' None
      (new_StorageEngine h) = Inr (e, s')" using set_some[of "''k''"] by fastforce
  have "\<not> js_has (se_store (new_StorageEngine h :: string node_storage)) ''k''"
    by (simp add: new_StorageEngine_def js_has_def)
  with set_eviction_bound[OF r set] r set show ?thesis
    by (intro exI[of _ "new_StorageEngine h"] exI[of _ e] exI[of _ s'])
       (simp add: Let_def new_StorageEngine_def storage_size_def)
qed

text \<open>Expiry is exact: in every reachable state the sweep removes precisely the entries whose
  expiry time has passed, in place, and returns their number; afterwards no key reads as expired.\<close>

theorem sweep_exact:
  assumes "node_reachable js opts mx s"
  shows "let (n, s') = sweepExpired adaptive_hook now s
    in se_store s' = filter (\<lambda>p. \<not> isExpired now (snd p)) (se_store s) \<and>
       n = length (se_store s) - length (se_store s') \<and>
       (\<forall>k. storage_peek now k s' = js_get (se_store s') k)"
proof -
  note sw = sweepExpired_store[OF reachable_ok[OF assms], of adaptive_hook now]
  obtain n s' where r: "sweepExpired adaptive_hook now s = (n, s')" by (cases "sweepExpired adaptive_hook now s")
  have len: "length (filter (\<lambda>p. isExpired now (snd p)) xs) = length xs - length (filter (\<lambda>p. \<not> isExpired now (snd p)) xs)"
    for xs :: "(CacheKey \<times> 'a CacheEntry) list"
    using sum_length_filter_compl[of "\<lambda>p. isExpired now (snd p)" xs] by simp
  have "storage_peek now k s' = js_get (se_store s') k" for k
  proof (cases "js_get (se_store s') k")
    case (Some e)
    then have "(k, e) \<in> set (se_store s')" by (rule map_of_SomeD)
    then have "\<not> isExpired now e" using sw(1) r by auto
    with Some show ?thesis by (simp add: storage_peek_def)
  qed (simp add: storage_peek_def)
  then show ?thesis using sw r len by simp
qed

theorem sweep_exact_witness:
  "\<exists>s. node_reachable str_json DEFAULT_STORAGE_ENGINE_OPTIONS 100 s \<and>
     (\<forall>k. storage_peek 9 k (snd (sweepExpired adaptive_hook 9 s)) = js_get (se_store (snd (sweepExpired adaptive_hook 9 s))) k)"
proof -
  obtain h where "new_AdaptiveEvictionEngine ADAPTIVE_DEFAULTS = Inr h"
    using new_AdaptiveEvictionEngine_ok(1) by blast
  then have "node_reachable str_json DEFAULT_STORAGE_ENGINE_OPTIONS 100 (new_StorageEngine h)" by (rule init)
  then have r: "node_reachable str_json DEFAULT_STORAGE_ENGINE_OPTIONS 100
      (fold (node_exec str_json DEFAULT_STORAGE_ENGINE_OPTIONS 100) [Storage (OpSet 0 ''a'' ''1'' (Some (Some 5)))] (new_StorageEngine h))"
    by (rule reachable_fold)
  from sweep_exact[OF r, of 9] r show ?thesis by (auto simp: case_prod_unfold Let_def)
qed

text \<open>The byte limit can be exceeded: with a limit of six bytes and six one-byte entries stored,
  writing one six-byte value evicts four entries and stops, leaving eight bytes stored.\<close>

definition six_bytes :: StorageEngineOptions where
  "six_bytes = \<lparr>so_maxEntries = \<infinity>, so_maxSizeBytes = 6, so_defaultTtlMs = None\<rparr>"

definition small_writes :: "string storage_op list" where
  "small_writes = map (\<lambda>k. OpSet 0 k ''x'' None) [''a'', ''b'', ''c'', ''d'', ''e'', ''f'']"

theorem large_write_exceeds_limit:
  "let s = fold (storage_exec lru_hook str_json six_bytes) small_writes (new_StorageEngine new_LruEvictionPolicy);
       s' = storage_exec lru_hook str_json six_bytes (OpSet 1 ''g'' ''yyyyyy'' None) s
   in \<not> overCapacity six_bytes s \<and> storage_sizeBytes s' = 8 \<and> overCapacity six_bytes s' \<and>
      st_evictions (se_stats s') = 4"
  by code_simp

end
