(* ===== verification/Replication.thy ===== *)
theory Replication
  imports Shared
begin

text \<open>
  \<open>packages/replication/src/ReplicationEngine.ts\<close>: publishing replication events, applying them on
  the replicas and collecting acknowledgements.  The Kafka bus is outside the repository; what the
  engine relies on is that every consumer reads one shared, append-only topic, possibly reading
  messages again (at-least-once delivery).  The first part models each handler of one engine, its
  effects on the outside as values.  The second part composes any number of nodes over the topic as
  a step relation and shows what an acknowledgement means.
\<close>

section \<open>Messages\<close>

datatype repl_kind = PUT | DELETE

record 'v ReplicationEvent =
  rev_eventId :: string
  rev_sourceNodeId :: string
  rev_key :: CacheKey
  rev_op :: repl_kind
  rev_value :: "'v option"
  rev_metadata :: "CacheMetadata option"
  rev_timestamp :: time

record ReplicationAck =
  rk_eventId :: string
  rk_replicaNodeId :: string
  rk_success :: bool
  rk_appliedAt :: time
  rk_error :: "string option"

datatype 'v ReplicationTopicMessage =
    EventMessage "'v ReplicationEvent" "string list"
  | AckMessage ReplicationAck

section \<open>One engine\<close>

record AckWaiter =
  aw_eventId :: string
  aw_targetNodeIds :: "string list"
  aw_ackedBy :: "string list"

record ReplicationEngine =
  re_nodeId :: string
  re_ackTimeoutMs :: nat
  re_pendingAcks :: "(string, AckWaiter) js_map"
  re_started :: bool

definition DEFAULT_ACK_TIMEOUT_MS :: nat where "DEFAULT_ACK_TIMEOUT_MS = 5000"

text \<open>What a handler does to the outside: messages published, promises settled, events emitted.\<close>

datatype 'v repl_effect =
    Subscribe
  | Publish "'v ReplicationTopicMessage" CacheKey
  | Resolve string "string list"
  | Reject string
  | EmitAckTimeout string "string list" "string list"
  | EmitApplied "'v ReplicationEvent" ReplicationAck
  | EmitAck ReplicationAck

definition new_ReplicationEngine :: "string \<Rightarrow> nat option \<Rightarrow> ReplicationEngine" where
  "new_ReplicationEngine nodeId ackTimeoutMs =
     \<lparr>re_nodeId = nodeId,
      re_ackTimeoutMs = (case ackTimeoutMs of None \<Rightarrow> DEFAULT_ACK_TIMEOUT_MS | Some t \<Rightarrow> t),
      re_pendingAcks = [], re_started = False\<rparr>"

definition repl_start :: "ReplicationEngine \<Rightarrow> 'v repl_effect list \<times> ReplicationEngine" where
  "repl_start s = (if re_started s then ([], s) else ([Subscribe], s\<lparr>re_started := True\<rparr>))"

definition repl_dispose :: "ReplicationEngine \<Rightarrow> 'v repl_effect list \<times> ReplicationEngine" where
  "repl_dispose s = (map (\<lambda>p. Reject (aw_eventId (snd p))) (re_pendingAcks s), s\<lparr>re_pendingAcks := []\<rparr>)"

definition registerAckWaiter :: "string \<Rightarrow> string list \<Rightarrow> ReplicationEngine \<Rightarrow> ReplicationEngine" where
  "registerAckWaiter eventId targetNodeIds s =
     s\<lparr>re_pendingAcks := js_set eventId
         \<lparr>aw_eventId = eventId, aw_targetNodeIds = fold set_add targetNodeIds [], aw_ackedBy = []\<rparr>
         (re_pendingAcks s)\<rparr>"

text \<open>The callback of the timer that \<open>registerAckWaiter\<close> starts.\<close>

definition ackTimeout :: "string \<Rightarrow> ReplicationEngine \<Rightarrow> 'v repl_effect list \<times> ReplicationEngine" where
  "ackTimeout eventId s =
     (case js_get (re_pendingAcks s) eventId of
        None \<Rightarrow> ([], s)
      | Some waiter \<Rightarrow>
          ([Resolve eventId (aw_ackedBy waiter), EmitAckTimeout eventId (aw_ackedBy waiter) (aw_targetNodeIds waiter)],
           s\<lparr>re_pendingAcks := js_delete eventId (re_pendingAcks s)\<rparr>))"

text \<open>\<open>replicate\<close> up to the publish: \<open>None\<close> is the early return of \<open>[]\<close>.\<close>

definition replicate_op :: "(CacheKey \<Rightarrow> string list) \<Rightarrow> string \<Rightarrow> time \<Rightarrow> CacheKey \<Rightarrow> repl_kind \<Rightarrow> 'v option \<Rightarrow>
    CacheMetadata option \<Rightarrow> ReplicationEngine \<Rightarrow> 'v repl_effect list option \<times> ReplicationEngine" where
  "replicate_op getReplicaNodeIds eventId now key op value metadata s =
     (let targetNodeIds = filter (\<lambda>i. i \<noteq> re_nodeId s) (getReplicaNodeIds key)
      in if length targetNodeIds = 0 then (None, s)
         else let event = \<lparr>rev_eventId = eventId, rev_sourceNodeId = re_nodeId s, rev_key = key, rev_op = op,
                           rev_value = value, rev_metadata = metadata, rev_timestamp = now\<rparr>;
                  s' = registerAckWaiter eventId targetNodeIds s
              in (Some [Publish (EventMessage event targetNodeIds) key], s'))"

definition replicateWrite :: "(CacheKey \<Rightarrow> string list) \<Rightarrow> string \<Rightarrow> time \<Rightarrow> CacheKey \<Rightarrow> 'v \<Rightarrow> CacheMetadata \<Rightarrow>
    ReplicationEngine \<Rightarrow> 'v repl_effect list option \<times> ReplicationEngine" where
  "replicateWrite getReplicaNodeIds eventId now key value metadata s =
     replicate_op getReplicaNodeIds eventId now key PUT (Some value) (Some metadata) s"

definition replicateDelete :: "(CacheKey \<Rightarrow> string list) \<Rightarrow> string \<Rightarrow> time \<Rightarrow> CacheKey \<Rightarrow>
    ReplicationEngine \<Rightarrow> 'v repl_effect list option \<times> ReplicationEngine" where
  "replicateDelete getReplicaNodeIds eventId now key s =
     replicate_op getReplicaNodeIds eventId now key DELETE None None s"

text \<open>The storage callbacks the engine is constructed with.\<close>

record ('v, 's) repl_callbacks =
  cb_applyRemoteWrite :: "time \<Rightarrow> CacheKey \<Rightarrow> 'v option \<Rightarrow> CacheMetadata \<Rightarrow> 's \<Rightarrow> 's result"
  cb_applyRemoteDelete :: "CacheKey \<Rightarrow> 's \<Rightarrow> 's result"

definition thrown_message :: "thrown \<Rightarrow> string" where
  "thrown_message e = er_message (toErrorResponse e)"

definition apply_event :: "('v, 's) repl_callbacks \<Rightarrow> time \<Rightarrow> 'v ReplicationEvent \<Rightarrow> 's \<Rightarrow> 's result" where
  "apply_event cb now event st =
     (case rev_op event of
        PUT \<Rightarrow>
          (case rev_metadata event of
             None \<Rightarrow> Inl (FlowCache (ReplicationError
               (''Replication PUT event '' @ rev_eventId event @ '' for key '' @ quoted (rev_key event) @ '' has no metadata'')))
           | Some m \<Rightarrow> cb_applyRemoteWrite cb now (rev_key event) (rev_value event) m st)
      | DELETE \<Rightarrow> cb_applyRemoteDelete cb (rev_key event) st)"

definition handleReplicationEvent :: "('v, 's) repl_callbacks \<Rightarrow> time \<Rightarrow> 'v ReplicationEvent \<Rightarrow> string list \<Rightarrow>
    ReplicationEngine \<Rightarrow> 's \<Rightarrow> 'v repl_effect list \<times> 's" where
  "handleReplicationEvent cb now event targetNodeIds s st =
     (if rev_sourceNodeId event = re_nodeId s \<or> re_nodeId s \<notin> set targetNodeIds then ([], st)
      else let (ack, st') =
             (case apply_event cb now event st of
                Inr st1 \<Rightarrow> (\<lparr>rk_eventId = rev_eventId event, rk_replicaNodeId = re_nodeId s, rk_success = True,
                            rk_appliedAt = now, rk_error = None\<rparr>, st1)
              | Inl e \<Rightarrow> (\<lparr>rk_eventId = rev_eventId event, rk_replicaNodeId = re_nodeId s, rk_success = False,
                           rk_appliedAt = now, rk_error = Some (thrown_message e)\<rparr>, st))
           in ([EmitApplied event ack, Publish (AckMessage ack) (rev_key event)], st'))"

definition handleAck :: "ReplicationAck \<Rightarrow> ReplicationEngine \<Rightarrow> 'v repl_effect list \<times> ReplicationEngine" where
  "handleAck ack s =
     (case js_get (re_pendingAcks s) (rk_eventId ack) of
        None \<Rightarrow> ([], s)
      | Some waiter \<Rightarrow>
          (let waiter' = (if rk_success ack
                          then waiter\<lparr>aw_ackedBy := set_add (rk_replicaNodeId ack) (aw_ackedBy waiter)\<rparr> else waiter);
               s1 = s\<lparr>re_pendingAcks := js_set (rk_eventId ack) waiter' (re_pendingAcks s)\<rparr>
           in if list_all (\<lambda>i. i \<in> set (aw_ackedBy waiter')) (aw_targetNodeIds waiter')
              then ([EmitAck ack, Resolve (rk_eventId ack) (aw_ackedBy waiter')],
                    s1\<lparr>re_pendingAcks := js_delete (rk_eventId ack) (re_pendingAcks s1)\<rparr>)
              else ([EmitAck ack], s1)))"

definition handleMessage :: "('v, 's) repl_callbacks \<Rightarrow> time \<Rightarrow> 'v ReplicationTopicMessage \<Rightarrow> ReplicationEngine \<Rightarrow> 's \<Rightarrow>
    'v repl_effect list \<times> ReplicationEngine \<times> 's" where
  "handleMessage cb now message s st =
     (case message of
        EventMessage event targetNodeIds \<Rightarrow>
          (let (eff, st') = handleReplicationEvent cb now event targetNodeIds s st in (eff, s, st'))
      | AckMessage ack \<Rightarrow> (let (eff, s') = handleAck ack s in (eff, s', st)))"

definition getPendingAckCount :: "ReplicationEngine \<Rightarrow> nat" where
  "getPendingAckCount s = length (re_pendingAcks s)"

section \<open>Any number of nodes over one topic\<close>

text \<open>Each node has its engine, its storage and its position in the topic.  \<open>pn_deliveries\<close> is history, written
  by the environment: every message the node was handed, with its storage before and after it handled the
  message.  \<open>cl_resolved\<close> records every promise resolution with the node that made it.\<close>

record ('v, 's) delivery =
  dl_time :: time
  dl_message :: "'v ReplicationTopicMessage"
  dl_before :: 's
  dl_after :: 's

record ('v, 's) peer =
  pn_engine :: ReplicationEngine
  pn_store :: 's
  pn_offset :: nat
  pn_deliveries :: "('v, 's) delivery list"

record ('v, 's) cluster =
  cl_peers :: "string \<Rightarrow> ('v, 's) peer"
  cl_topic :: "'v ReplicationTopicMessage list"
  cl_resolved :: "(string \<times> string \<times> string list) list"

definition published :: "'v repl_effect list \<Rightarrow> 'v ReplicationTopicMessage list" where
  "published eff = List.map_filter (\<lambda>e. case e of Publish m _ \<Rightarrow> Some m | _ \<Rightarrow> None) eff"

definition resolutions :: "string \<Rightarrow> 'v repl_effect list \<Rightarrow> (string \<times> string \<times> string list) list" where
  "resolutions n eff = List.map_filter (\<lambda>e. case e of Resolve i acked \<Rightarrow> Some (n, i, acked) | _ \<Rightarrow> None) eff"

definition absorb :: "string \<Rightarrow> ('v, 's) peer \<Rightarrow> 'v repl_effect list \<Rightarrow> ('v, 's) cluster \<Rightarrow> ('v, 's) cluster" where
  "absorb n p eff c =
     c\<lparr>cl_peers := (cl_peers c)(n := p), cl_topic := cl_topic c @ published eff,
       cl_resolved := cl_resolved c @ resolutions n eff\<rparr>"

definition delivered :: "time \<Rightarrow> 'v ReplicationTopicMessage \<Rightarrow> ReplicationEngine \<Rightarrow> 's \<Rightarrow> ('v, 's) peer \<Rightarrow> ('v, 's) peer" where
  "delivered now message s' st' p =
     p\<lparr>pn_engine := s', pn_store := st',
       pn_deliveries := pn_deliveries p @ [\<lparr>dl_time = now, dl_message = message, dl_before = pn_store p, dl_after = st'\<rparr>]\<rparr>"

text \<open>The effects of a handler whose publish fails.\<close>

definition unpublished :: "'v repl_effect list \<Rightarrow> 'v repl_effect list" where
  "unpublished eff = filter (\<lambda>e. case e of Publish _ _ \<Rightarrow> False | _ \<Rightarrow> True) eff"

text \<open>\<open>generateId\<close> is relied on to return an identifier that no message on the topic carries, no promise
  was resolved under and no engine is waiting for.\<close>

definition event_ids :: "'v ReplicationTopicMessage list \<Rightarrow> string set" where
  "event_ids topic = {rev_eventId e | e targets. EventMessage e targets \<in> set topic}"

definition fresh_id :: "('v, 's) cluster \<Rightarrow> string \<Rightarrow> bool" where
  "fresh_id c e \<longleftrightarrow> e \<notin> event_ids (cl_topic c) \<and> (\<forall>n as. (n, e, as) \<notin> set (cl_resolved c)) \<and>
     (\<forall>n. js_get (re_pendingAcks (pn_engine (cl_peers c n))) e = None)"

text \<open>In \<open>deliver_fails\<close> the publish of the acknowledgement throws after the event was applied: the handler's
  promise rejects, and the consumer will read the same message again.\<close>

inductive cluster_step :: "('v, 's) repl_callbacks \<Rightarrow> (string \<Rightarrow> CacheKey \<Rightarrow> string list) \<Rightarrow>
    ('v, 's) cluster \<Rightarrow> ('v, 's) cluster \<Rightarrow> bool"
  for cb replicas where
  publish: "replicate_op (replicas n) eventId now key op value metadata (pn_engine p) = (Some eff, s') \<Longrightarrow>
     p = cl_peers c n \<Longrightarrow>
     fresh_id c eventId \<Longrightarrow>
     cluster_step cb replicas c (absorb n (p\<lparr>pn_engine := s'\<rparr>) eff c)"
| publish_fails: "replicate_op (replicas n) eventId now key op (value :: 'v option) metadata (pn_engine p) = (Some eff, s') \<Longrightarrow>
     p = cl_peers c n \<Longrightarrow>
     fresh_id c eventId \<Longrightarrow>
     cluster_step cb replicas c (absorb n (p\<lparr>pn_engine := s'\<rparr>) [] c)"
| deliver: "p = cl_peers c n \<Longrightarrow> pn_offset p < length (cl_topic c) \<Longrightarrow>
     handleMessage cb now (cl_topic c ! pn_offset p) (pn_engine p) (pn_store p) = (eff, s', st') \<Longrightarrow>
     cluster_step cb replicas c
       (absorb n ((delivered now (cl_topic c ! pn_offset p) s' st' p)\<lparr>pn_offset := pn_offset p + 1\<rparr>) eff c)"
| deliver_fails: "p = cl_peers c n \<Longrightarrow> pn_offset p < length (cl_topic c) \<Longrightarrow>
     handleMessage cb now (cl_topic c ! pn_offset p) (pn_engine p) (pn_store p) = (eff, s', st') \<Longrightarrow> published eff \<noteq> [] \<Longrightarrow>
     cluster_step cb replicas c (absorb n (delivered now (cl_topic c ! pn_offset p) s' st' p) (unpublished eff) c)"
| rewind: "p = cl_peers c n \<Longrightarrow> offset \<le> pn_offset p \<Longrightarrow>
     cluster_step cb replicas c (absorb n (p\<lparr>pn_offset := offset\<rparr>) [] c)"
| expire: "p = cl_peers c n \<Longrightarrow> ackTimeout eventId (pn_engine p) = (eff, s') \<Longrightarrow>
     cluster_step cb replicas c (absorb n (p\<lparr>pn_engine := s'\<rparr>) eff c)"
| dispose: "p = cl_peers c n \<Longrightarrow> repl_dispose (pn_engine p) = (eff, s') \<Longrightarrow>
     cluster_step cb replicas c (absorb n (p\<lparr>pn_engine := s'\<rparr>) eff c)"
| storage_step: "p = cl_peers c n \<Longrightarrow> cluster_step cb replicas c (absorb n (p\<lparr>pn_store := st'\<rparr>) [] c)"

definition new_cluster :: "(string \<Rightarrow> 's) \<Rightarrow> ('v, 's) cluster" where
  "new_cluster st =
     \<lparr>cl_peers = (\<lambda>n. \<lparr>pn_engine = new_ReplicationEngine n None, pn_store = st n, pn_offset = 0, pn_deliveries = []\<rparr>),
      cl_topic = [], cl_resolved = []\<rparr>"

inductive cluster_reachable :: "('v, 's) repl_callbacks \<Rightarrow> (string \<Rightarrow> CacheKey \<Rightarrow> string list) \<Rightarrow>
    (string \<Rightarrow> 's) \<Rightarrow> ('v, 's) cluster \<Rightarrow> bool"
  for cb replicas st where
  cluster_init: "cluster_reachable cb replicas st (new_cluster st)"
| cluster_next: "cluster_reachable cb replicas st c \<Longrightarrow> cluster_step cb replicas c c' \<Longrightarrow> cluster_reachable cb replicas st c'"

section \<open>What an acknowledgement means\<close>

text \<open>What it means for a storage to take a replicated operation over, in terms of the storage callbacks: the
  callback of the operation succeeds on the storage before and gives the storage after.\<close>

definition carries_out :: "('v, 's) repl_callbacks \<Rightarrow> time \<Rightarrow> 'v ReplicationEvent \<Rightarrow> 's \<Rightarrow> 's \<Rightarrow> bool" where
  "carries_out cb now ev st st' \<longleftrightarrow>
     (case rev_op ev of
        PUT \<Rightarrow> (\<exists>md. rev_metadata ev = Some md \<and> cb_applyRemoteWrite cb now (rev_key ev) (rev_value ev) md st = Inr st')
      | DELETE \<Rightarrow> cb_applyRemoteDelete cb (rev_key ev) st = Inr st')"

text \<open>Node \<open>a\<close> has applied the event \<open>e\<close>: it was handed a message with that event, addressed to it by another
  node, and its storage took the operation over.\<close>

definition took_over :: "('v, 's) repl_callbacks \<Rightarrow> string \<Rightarrow> string \<Rightarrow> ('v, 's) delivery \<Rightarrow> bool" where
  "took_over cb a e dl \<longleftrightarrow> (\<exists>ev targets. dl_message dl = EventMessage ev targets \<and> rev_eventId ev = e \<and> a \<in> set targets \<and>
     rev_sourceNodeId ev \<noteq> a \<and> carries_out cb (dl_time dl) ev (dl_before dl) (dl_after dl))"

definition applied_at :: "('v, 's) repl_callbacks \<Rightarrow> ('v, 's) cluster \<Rightarrow> string \<Rightarrow> string \<Rightarrow> bool" where
  "applied_at cb c a e \<longleftrightarrow> (\<exists>dl \<in> set (pn_deliveries (cl_peers c a)). took_over cb a e dl)"

definition waiter_ok :: "('v, 's) repl_callbacks \<Rightarrow> ('v, 's) cluster \<Rightarrow> string \<Rightarrow> string \<Rightarrow> AckWaiter \<Rightarrow> bool" where
  "waiter_ok cb c n e w \<longleftrightarrow> aw_eventId w = e \<and> (\<forall>a \<in> set (aw_ackedBy w). applied_at cb c a e) \<and>
     \<not> set (aw_targetNodeIds w) \<subseteq> set (aw_ackedBy w) \<and>
     (\<forall>as. (n, e, as) \<notin> set (cl_resolved c))"

definition peer_ok :: "('v, 's) repl_callbacks \<Rightarrow> ('v, 's) cluster \<Rightarrow> string \<Rightarrow> ('v, 's) peer \<Rightarrow> bool" where
  "peer_ok cb c n p \<longleftrightarrow> re_nodeId (pn_engine p) = n \<and> js_map_ok (re_pendingAcks (pn_engine p)) \<and>
     (\<forall>e w. js_get (re_pendingAcks (pn_engine p)) e = Some w \<longrightarrow> waiter_ok cb c n e w)"

definition cluster_ok :: "('v, 's) repl_callbacks \<Rightarrow> ('v, 's) cluster \<Rightarrow> bool" where
  "cluster_ok cb c \<longleftrightarrow> (\<forall>n. peer_ok cb c n (cl_peers c n)) \<and>
     (\<forall>ack. AckMessage ack \<in> set (cl_topic c) \<and> rk_success ack \<longrightarrow> applied_at cb c (rk_replicaNodeId ack) (rk_eventId ack)) \<and>
     (\<forall>n e as. (n, e, as) \<in> set (cl_resolved c) \<longrightarrow> (\<forall>a \<in> set as. applied_at cb c a e)) \<and>
     distinct (map (\<lambda>(n, e, as). (n, e)) (cl_resolved c))"

lemma event_ids_append [simp]: "event_ids (xs @ ys) = event_ids xs \<union> event_ids ys"
  by (auto simp: event_ids_def)

lemma resolutions_own: "(m, e, as) \<in> set (resolutions n eff) \<Longrightarrow> m = n"
  by (auto simp: resolutions_def List.map_filter_def split: repl_effect.splits)

lemma absorb_distinct:
  assumes "distinct (map (\<lambda>(m, e, as). (m, e)) (cl_resolved c))" and "distinct (map (\<lambda>(m, e, as). e) (resolutions n eff))"
    and new: "\<And>m e as as'. (m, e, as) \<in> set (resolutions n eff) \<Longrightarrow> (n, e, as') \<notin> set (cl_resolved c)"
  shows "distinct (map (\<lambda>(m, e, as). (m, e)) (cl_resolved (absorb n p eff c)))"
proof -
  have "map snd (map (\<lambda>(m, e, as). (m, e)) (resolutions n eff)) = map (\<lambda>(m, e, as). e) (resolutions n eff)" by auto
  with assms(2) have "distinct (map (\<lambda>(m, e, as). (m, e)) (resolutions n eff))" by (metis distinct_map)
  moreover have "(\<lambda>(m, e, as). (m, e)) ` set (cl_resolved c) \<inter> (\<lambda>(m, e, as). (m, e)) ` set (resolutions n eff) = {}"
    using new resolutions_own by fastforce
  ultimately show ?thesis using assms(1) by (simp add: absorb_def)
qed

text \<open>A step of node \<open>n\<close> keeps the invariant if it only adds to what is applied, publishes
  acknowledgements of applied events only, and resolves promises it has been waiting on.\<close>

lemma absorb_ok:
  assumes ok: "cluster_ok cb c"
    and mono: "set (pn_deliveries (cl_peers c n)) \<subseteq> set (pn_deliveries p)"
    and peer: "peer_ok cb (absorb n p eff c) n p"
    and acks: "\<And>ack. AckMessage ack \<in> set (published eff) \<Longrightarrow> rk_success ack \<Longrightarrow>
      rk_replicaNodeId ack = n \<and> (\<exists>dl \<in> set (pn_deliveries p). took_over cb n (rk_eventId ack) dl)"
    and res: "\<And>m e as. (m, e, as) \<in> set (resolutions n eff) \<Longrightarrow>
      \<exists>w. js_get (re_pendingAcks (pn_engine (cl_peers c n))) e = Some w \<and>
          (\<forall>a \<in> set as. applied_at cb (absorb n p eff c) a e)"
    and dist: "distinct (map (\<lambda>(m, e, as). e) (resolutions n eff))"
  shows "cluster_ok cb (absorb n p eff c)"
proof -
  let ?c = "absorb n p eff c"
  have app: "applied_at cb c a e \<Longrightarrow> applied_at cb ?c a e" for a e
    using mono by (auto simp: applied_at_def absorb_def)
  note from_n = resolutions_own[where n = n and eff = eff]
  have others: "peer_ok cb ?c m (cl_peers ?c m)" if "m \<noteq> n" for m
  proof -
    have old: "peer_ok cb c m (cl_peers c m)" using ok by (simp add: cluster_ok_def)
    have "waiter_ok cb ?c m e w" if "waiter_ok cb c m e w" for e w
      using that \<open>m \<noteq> n\<close> from_n app by (auto simp: waiter_ok_def absorb_def)
    with old that show ?thesis by (simp add: peer_ok_def absorb_def)
  qed
  have new: "\<forall>as'. (n, e, as') \<notin> set (cl_resolved c)"
    if "(m, e, as) \<in> set (resolutions n eff)" for m e as
    using res[OF that] ok unfolding cluster_ok_def peer_ok_def waiter_ok_def by blast
  have d: "distinct (map (\<lambda>(m, e, as). (m, e)) (cl_resolved ?c))"
    by (rule absorb_distinct[OF _ dist]) (use ok new in \<open>auto simp: cluster_ok_def\<close>)
  show ?thesis unfolding cluster_ok_def
  proof (intro conjI allI impI)
    fix m
    show "peer_ok cb ?c m (cl_peers ?c m)" using peer others by (cases "m = n") (simp_all add: absorb_def)
  next
    fix ack assume a: "AckMessage ack \<in> set (cl_topic ?c) \<and> rk_success ack"
    show "applied_at cb ?c (rk_replicaNodeId ack) (rk_eventId ack)"
    proof (cases "AckMessage ack \<in> set (published eff)")
      case True
      with acks[of ack] a show ?thesis by (simp add: applied_at_def absorb_def)
    next
      case False
      with a have "AckMessage ack \<in> set (cl_topic c)" by (simp add: absorb_def)
      with ok a app show ?thesis by (auto simp: cluster_ok_def)
    qed
  next
    fix m e as assume r: "(m, e, as) \<in> set (cl_resolved ?c)"
    then consider "(m, e, as) \<in> set (cl_resolved c)" | "(m, e, as) \<in> set (resolutions n eff)"
      by (auto simp: absorb_def)
    then show "\<forall>a \<in> set as. applied_at cb ?c a e"
      using ok app res by cases (auto simp: cluster_ok_def)
  qed (rule d)
qed

lemma effect_simps [simp]:
  "published [] = []" "resolutions n [] = []" "unpublished [] = []"
  "published [Publish m k] = [m]" "resolutions n [Publish m k] = []"
  "published [EmitApplied ev ack, Publish m k] = [m]" "resolutions n [EmitApplied ev ack, Publish m k] = []"
  "unpublished [EmitApplied ev ack, Publish m k] = [EmitApplied ev ack]" "published [EmitApplied ev ack] = []"
  "resolutions n [EmitApplied ev ack] = []"
  "published [EmitAck ack] = []" "resolutions n [EmitAck ack] = []"
  "published [EmitAck ack, Resolve i as] = []" "resolutions n [EmitAck ack, Resolve i as] = [(n, i, as)]"
  "published [Resolve i as, EmitAckTimeout i as ts] = []"
  "resolutions n [Resolve i as, EmitAckTimeout i as ts] = [(n, i, as)]"
  by (auto simp: published_def resolutions_def unpublished_def List.map_filter_simps)

lemma published_rejects [simp]:
  "published (map (\<lambda>p. Reject (f p)) xs) = []" "resolutions n (map (\<lambda>p. Reject (f p)) xs) = []"
  by (simp_all add: published_def resolutions_def List.map_filter_def)

lemma absorb_fields [simp]:
  "cl_peers (absorb n p eff c) = (cl_peers c)(n := p)" "cl_topic (absorb n p eff c) = cl_topic c @ published eff"
  "cl_resolved (absorb n p eff c) = cl_resolved c @ resolutions n eff"
  by (simp_all add: absorb_def)

lemma applied_absorb:
  "set (pn_deliveries (cl_peers c n)) \<subseteq> set (pn_deliveries p) \<Longrightarrow> applied_at cb c a e \<Longrightarrow> applied_at cb (absorb n p eff c) a e"
  by (auto simp: applied_at_def)

text \<open>A peer whose waiters all existed before, none of them resolved by the step, stays well-formed.\<close>

lemma waiter_ok_absorb:
  assumes "waiter_ok cb c n e w" and "set (pn_deliveries (cl_peers c n)) \<subseteq> set (pn_deliveries p)"
    and "\<forall>as. (n, e, as) \<notin> set (resolutions n eff)"
  shows "waiter_ok cb (absorb n p eff c) n e w"
  using assms applied_absorb[OF assms(2)] by (simp add: waiter_ok_def)

lemma peer_ok_sub:
  assumes ok: "cluster_ok cb c" and "re_nodeId (pn_engine p) = n" and "js_map_ok (re_pendingAcks (pn_engine p))"
    and mono: "set (pn_deliveries (cl_peers c n)) \<subseteq> set (pn_deliveries p)"
    and sub: "\<And>e w. js_get (re_pendingAcks (pn_engine p)) e = Some w \<Longrightarrow>
      js_get (re_pendingAcks (pn_engine (cl_peers c n))) e = Some w \<and> (\<forall>as. (n, e, as) \<notin> set (resolutions n eff))"
  shows "peer_ok cb (absorb n p eff c) n p"
proof -
  have "waiter_ok cb c n e w" if "js_get (re_pendingAcks (pn_engine (cl_peers c n))) e = Some w" for e w
    using ok that by (simp add: cluster_ok_def peer_ok_def)
  then show ?thesis using sub waiter_ok_absorb[OF _ mono] assms(2,3) by (simp add: peer_ok_def)
qed

lemma set_fold_set_add: "set (fold set_add ts acc) = set acc \<union> set ts"
  by (induction ts arbitrary: acc) auto

lemma replicate_ok:
  assumes ok: "cluster_ok cb c"
    and r: "replicate_op (replicas n) eventId now key op value metadata (pn_engine (cl_peers c n)) = (Some eff, s')"
    and fresh: "fresh_id c eventId" and out: "eff' = eff \<or> eff' = []"
  shows "cluster_ok cb (absorb n ((cl_peers c n)\<lparr>pn_engine := s'\<rparr>) eff' c)"
proof -
  let ?s = "pn_engine (cl_peers c n)"
  let ?ts = "filter (\<lambda>i. i \<noteq> re_nodeId ?s) (replicas n key)"
  let ?p = "(cl_peers c n)\<lparr>pn_engine := s'\<rparr>"
  from r obtain ev where eff: "eff = [Publish (EventMessage ev ?ts) key]" and s': "s' = registerAckWaiter eventId ?ts ?s" and ne: "?ts \<noteq> []"
    by (auto simp: replicate_op_def Let_def split: if_splits)
  have quiet: "resolutions n eff' = []" "\<And>ack. AckMessage ack \<notin> set (published eff')" using out eff by auto
  have old: "peer_ok cb c n (cl_peers c n)" using ok by (simp add: cluster_ok_def)
  have w: "waiter_ok cb (absorb n ?p eff' c) n e w" if "js_get (re_pendingAcks s') e = Some w" for e w
  proof (cases "e = eventId")
    case True
    then have "w = \<lparr>aw_eventId = eventId, aw_targetNodeIds = fold set_add ?ts [], aw_ackedBy = []\<rparr>"
      using that by (simp add: s' registerAckWaiter_def js_map_simps)
    moreover have "\<not> set ?ts \<subseteq> {}" using ne by (cases ?ts) auto
    moreover have "\<forall>as. (n, eventId, as) \<notin> set (cl_resolved c)" using fresh by (simp add: fresh_id_def)
    ultimately show ?thesis using True by (simp add: quiet waiter_ok_def set_fold_set_add del: set_filter)
  next
    case False
    then have "js_get (re_pendingAcks ?s) e = Some w" using that by (simp add: s' registerAckWaiter_def js_map_simps)
    with old show ?thesis by (intro waiter_ok_absorb) (simp_all add: peer_ok_def quiet)
  qed
  have "peer_ok cb (absorb n ?p eff' c) n ?p"
    using old w by (simp add: peer_ok_def) (simp add: s' registerAckWaiter_def)
  then show ?thesis by (intro absorb_ok[OF ok]) (simp_all add: quiet)
qed

lemma carries_out_apply: "carries_out cb now ev st st' \<longleftrightarrow> apply_event cb now ev st = Inr st'"
  by (auto simp: carries_out_def apply_event_def split: repl_kind.splits option.splits)

text \<open>What handling an event comes to: nothing for a node it is not addressed to; otherwise an acknowledgement, which
  reports success exactly if the storage took the operation over.\<close>

lemma handleReplicationEvent_cases:
  assumes h: "handleReplicationEvent cb now ev ts s st = (eff, st')"
  obtains (ignored) "eff = []" and "st' = st"
  | (acked) ack where "eff = [EmitApplied ev ack, Publish (AckMessage ack) (rev_key ev)]"
      and "rk_replicaNodeId ack = re_nodeId s" and "rk_eventId ack = rev_eventId ev"
      and "re_nodeId s \<in> set ts" and "rev_sourceNodeId ev \<noteq> re_nodeId s"
      and "if rk_success ack then carries_out cb now ev st st' else st' = st"
proof (cases "rev_sourceNodeId ev = re_nodeId s \<or> re_nodeId s \<notin> set ts")
  case True
  with h ignored show thesis by (simp add: handleReplicationEvent_def)
next
  case False
  with h show thesis
    by (cases "apply_event cb now ev st") (auto simp: handleReplicationEvent_def carries_out_apply intro!: acked)
qed

lemma delivered_fields [simp]:
  "pn_engine (delivered now m s' st' p) = s'" "pn_store (delivered now m s' st' p) = st'"
  "pn_offset (delivered now m s' st' p) = pn_offset p"
  "pn_deliveries (delivered now m s' st' p) =
     pn_deliveries p @ [\<lparr>dl_time = now, dl_message = m, dl_before = pn_store p, dl_after = st'\<rparr>]"
  by (simp_all add: delivered_def)

lemma deliver_event_ok:
  assumes ok: "cluster_ok cb c" and p: "p = cl_peers c n" and out: "eff' = eff \<or> eff' = unpublished eff"
    and h: "handleReplicationEvent cb now ev ts (pn_engine p) (pn_store p) = (eff, st')"
  shows "cluster_ok cb (absorb n ((delivered now (EventMessage ev ts) (pn_engine p) st' p)\<lparr>pn_offset := k\<rparr>) eff' c)"
proof -
  let ?p = "(delivered now (EventMessage ev ts) (pn_engine p) st' p)\<lparr>pn_offset := k\<rparr>"
  have old: "peer_ok cb c n p" using ok p by (simp add: cluster_ok_def)
  then have id: "re_nodeId (pn_engine p) = n" by (simp add: peer_ok_def)
  have quiet: "resolutions n eff' = []" using h out by (auto elim!: handleReplicationEvent_cases)
  then have "peer_ok cb (absorb n ?p eff' c) n ?p"
    by (intro peer_ok_sub[OF ok]) (use old p in \<open>auto simp: peer_ok_def\<close>)
  moreover have "rk_replicaNodeId ack = n \<and> (\<exists>dl \<in> set (pn_deliveries ?p). took_over cb n (rk_eventId ack) dl)"
    if "AckMessage ack \<in> set (published eff')" and "rk_success ack" for ack
    using h that out id by (auto elim!: handleReplicationEvent_cases simp: took_over_def)
  ultimately show ?thesis by (intro absorb_ok[OF ok]) (auto simp: quiet p)
qed

lemma deliver_ack_ok:
  assumes ok: "cluster_ok cb c" and h: "handleAck ack (pn_engine (cl_peers c n)) = (eff, s')"
    and topic: "AckMessage ack \<in> set (cl_topic c)"
  shows "cluster_ok cb (absorb n ((delivered now m s' st' (cl_peers c n))\<lparr>pn_offset := k\<rparr>) eff c)"
proof -
  let ?s = "pn_engine (cl_peers c n)"
  let ?p = "(delivered now m s' st' (cl_peers c n))\<lparr>pn_offset := k\<rparr>"
  have old: "peer_ok cb c n (cl_peers c n)" using ok by (simp add: cluster_ok_def)
  show ?thesis
  proof (cases "js_get (re_pendingAcks ?s) (rk_eventId ack)")
    case None
    with h have *: "eff = []" "s' = ?s" by (simp_all add: handleAck_def)
    then have "peer_ok cb (absorb n ?p eff c) n ?p"
      by (intro peer_ok_sub[OF ok]) (use old in \<open>auto simp: peer_ok_def\<close>)
    then show ?thesis by (intro absorb_ok[OF ok]) (auto simp: *)
  next
    case (Some w)
    let ?i = "rk_eventId ack"
    define w' where "w' = (if rk_success ack then w\<lparr>aw_ackedBy := set_add (rk_replicaNodeId ack) (aw_ackedBy w)\<rparr> else w)"
    have w: "waiter_ok cb c n ?i w" using old Some by (simp add: peer_ok_def)
    have acked: "\<forall>a \<in> set (aw_ackedBy w'). applied_at cb c a ?i"
      using w ok topic by (auto simp: w'_def cluster_ok_def waiter_ok_def)
    show ?thesis
    proof (cases "set (aw_targetNodeIds w') \<subseteq> set (aw_ackedBy w')")
      case True
      then have l: "list_all (\<lambda>i. i \<in> set (aw_ackedBy w')) (aw_targetNodeIds w')" by (auto simp: list_all_iff)
      have eff: "eff = [EmitAck ack, Resolve ?i (aw_ackedBy w')]"
        and s': "s' = ?s\<lparr>re_pendingAcks := js_delete ?i (js_set ?i w' (re_pendingAcks ?s))\<rparr>"
        using h Some l by (auto simp: handleAck_def Let_def w'_def[symmetric])
      have "peer_ok cb (absorb n ?p eff c) n ?p"
        by (rule peer_ok_sub[OF ok])
           (use old in \<open>auto simp: peer_ok_def s' eff js_map_simps split: if_splits\<close>)
      then show ?thesis
        using acked Some by (intro absorb_ok[OF ok]) (auto simp: eff applied_at_def)
    next
      case False
      then have l: "\<not> list_all (\<lambda>i. i \<in> set (aw_ackedBy w')) (aw_targetNodeIds w')" by (auto simp: list_all_iff)
      have eff: "eff = [EmitAck ack]" and s': "s' = ?s\<lparr>re_pendingAcks := js_set ?i w' (re_pendingAcks ?s)\<rparr>"
        using h Some l by (auto simp: handleAck_def Let_def w'_def[symmetric])
      have "waiter_ok cb c n ?i w'" using w False acked by (auto simp: waiter_ok_def w'_def)
      then have "waiter_ok cb c n e v" if "js_get (re_pendingAcks s') e = Some v" for e v
        using that old by (auto simp: s' js_map_simps peer_ok_def split: if_splits)
      then have "peer_ok cb (absorb n ?p eff c) n ?p"
        using old waiter_ok_absorb[of cb c n _ _ ?p eff] by (auto simp: peer_ok_def eff) (simp_all add: s')
      then show ?thesis by (intro absorb_ok[OF ok]) (auto simp: eff)
    qed
  qed
qed

lemma deliver_ok:
  assumes ok: "cluster_ok cb c" and p: "p = cl_peers c n" and off: "pn_offset p < length (cl_topic c)"
    and h: "handleMessage cb now (cl_topic c ! pn_offset p) (pn_engine p) (pn_store p) = (eff, s', st')"
    and out: "eff' = eff \<or> eff' = unpublished eff \<and> published eff \<noteq> []"
  shows "cluster_ok cb (absorb n ((delivered now (cl_topic c ! pn_offset p) s' st' p)\<lparr>pn_offset := k\<rparr>) eff' c)"
proof (cases "cl_topic c ! pn_offset p")
  case (EventMessage ev ts)
  with h have "s' = pn_engine p" and "handleReplicationEvent cb now ev ts (pn_engine p) (pn_store p) = (eff, st')"
    by (auto simp: handleMessage_def Let_def split: prod.splits)
  then show ?thesis using deliver_event_ok[OF ok p, of eff' eff] out EventMessage by auto
next
  case (AckMessage ack)
  with h have ack: "handleAck ack (pn_engine p) = (eff, s')"
    by (auto simp: handleMessage_def Let_def split: prod.splits)
  then have "eff' = eff" using out by (auto simp: handleAck_def Let_def split: option.splits if_splits)
  moreover have "AckMessage ack \<in> set (cl_topic c)" using nth_mem[OF off] AckMessage by simp
  ultimately show ?thesis using deliver_ack_ok[OF ok] ack p by simp
qed

lemma same_offset: "pn_offset q = k \<Longrightarrow> q\<lparr>pn_offset := k\<rparr> = q"
  by (cases q) simp

lemma expire_ok:
  assumes ok: "cluster_ok cb c" and p: "p = cl_peers c n" and t: "ackTimeout eventId (pn_engine p) = (eff, s')"
  shows "cluster_ok cb (absorb n (p\<lparr>pn_engine := s'\<rparr>) eff c)"
proof -
  have old: "peer_ok cb c n p" using ok p by (simp add: cluster_ok_def)
  show ?thesis
  proof (cases "js_get (re_pendingAcks (pn_engine p)) eventId")
    case None
    then have "eff = []" "s' = pn_engine p" using t by (simp_all add: ackTimeout_def)
    then have "peer_ok cb (absorb n (p\<lparr>pn_engine := s'\<rparr>) eff c) n (p\<lparr>pn_engine := s'\<rparr>)"
      using ok p old by (intro peer_ok_sub) (auto simp: peer_ok_def)
    with \<open>eff = []\<close> p ok show ?thesis by (intro absorb_ok) auto
  next
    case (Some w)
    then have eff: "eff = [Resolve eventId (aw_ackedBy w), EmitAckTimeout eventId (aw_ackedBy w) (aw_targetNodeIds w)]"
      and s': "s' = (pn_engine p)\<lparr>re_pendingAcks := js_delete eventId (re_pendingAcks (pn_engine p))\<rparr>"
      using t by (simp_all add: ackTimeout_def)
    have acked: "\<forall>a \<in> set (aw_ackedBy w). applied_at cb c a eventId" using old Some by (simp add: peer_ok_def waiter_ok_def)
    have "peer_ok cb (absorb n (p\<lparr>pn_engine := s'\<rparr>) eff c) n (p\<lparr>pn_engine := s'\<rparr>)"
      using ok p old by (intro peer_ok_sub) (auto simp: peer_ok_def s' eff js_map_simps split: if_splits)
    then show ?thesis using p acked Some by (intro absorb_ok[OF ok]) (auto simp: eff applied_at_def)
  qed
qed

lemma engine_dispose_ok:
  assumes ok: "cluster_ok cb c" and p: "p = cl_peers c n" and d: "repl_dispose (pn_engine p) = (eff, s')"
  shows "cluster_ok cb (absorb n (p\<lparr>pn_engine := s'\<rparr>) eff c)"
proof -
  have old: "peer_ok cb c n p" using ok p by (simp add: cluster_ok_def)
  from d have eff: "eff = map (\<lambda>q. Reject (aw_eventId (snd q))) (re_pendingAcks (pn_engine p))"
    and s': "s' = (pn_engine p)\<lparr>re_pendingAcks := []\<rparr>" by (simp_all add: repl_dispose_def)
  have "peer_ok cb (absorb n (p\<lparr>pn_engine := s'\<rparr>) eff c) n (p\<lparr>pn_engine := s'\<rparr>)"
    using ok p old by (intro peer_ok_sub) (auto simp: peer_ok_def s')
  then show ?thesis using p by (intro absorb_ok[OF ok]) (auto simp: eff)
qed

text \<open>A step that only rewinds the offset or changes the store keeps the invariant.\<close>

lemma silent_ok:
  assumes ok: "cluster_ok cb c" and p: "p = cl_peers c n"
    and q: "pn_engine q = pn_engine p" "pn_deliveries q = pn_deliveries p"
  shows "cluster_ok cb (absorb n q [] c)"
proof -
  have "peer_ok cb c n p" using ok p by (simp add: cluster_ok_def)
  then have "peer_ok cb (absorb n q [] c) n q" using ok p q by (intro peer_ok_sub) (auto simp: peer_ok_def)
  then show ?thesis using ok p q by (intro absorb_ok) auto
qed

lemma cluster_step_ok: "cluster_step cb replicas c c' \<Longrightarrow> cluster_ok cb c \<Longrightarrow> cluster_ok cb c'"
proof (induction rule: cluster_step.induct)
  case (publish n eventId now key op val metadata p eff s' c)
  then show ?case using replicate_ok[of cb c replicas n eventId now key op val metadata eff s' eff] by simp
next
  case (publish_fails n eventId now key op val metadata p eff s' c)
  then show ?case using replicate_ok[of cb c replicas n eventId now key op val metadata eff s' "[]"] by simp
next
  case (deliver p c n now eff s' st')
  show ?case by (rule deliver_ok[OF deliver(4,1-3)]) simp
next
  case (deliver_fails p c n now eff s' st')
  from deliver_ok[OF deliver_fails(5,1-3), of "unpublished eff" "pn_offset p"] deliver_fails(4)
  show ?case by (simp add: same_offset)
next
  case (rewind p c n offset)
  show ?case by (rule silent_ok[OF rewind(3,1)]) simp_all
next
  case (expire p c n eventId eff s')
  show ?case by (rule expire_ok[OF expire(3,1,2)])
next
  case (dispose p c n eff s')
  show ?case by (rule engine_dispose_ok[OF dispose(3,1,2)])
next
  case (storage_step p c n st')
  show ?case by (rule silent_ok[OF storage_step(2,1)]) simp_all
qed

lemma cluster_reachable_ok: "cluster_reachable cb replicas st c \<Longrightarrow> cluster_ok cb c"
proof (induction rule: cluster_reachable.induct)
  case cluster_init
  then show ?case by (simp add: cluster_ok_def peer_ok_def new_cluster_def new_ReplicationEngine_def event_ids_def)
next
  case (cluster_next c c')
  then show ?case using cluster_step_ok by blast
qed

text \<open>What a node was handed are messages of the topic, and its storage changed over one of them only by taking over an
  event that named the node as a target.\<close>

definition addressed :: "'v ReplicationTopicMessage list \<Rightarrow> string \<Rightarrow> string \<Rightarrow> bool" where
  "addressed topic a e \<longleftrightarrow> (\<exists>ev targets. EventMessage ev targets \<in> set topic \<and> rev_eventId ev = e \<and>
     a \<in> set targets \<and> rev_sourceNodeId ev \<noteq> a)"

definition delivery_ok :: "('v, 's) repl_callbacks \<Rightarrow> 'v ReplicationTopicMessage list \<Rightarrow> string \<Rightarrow> ('v, 's) delivery \<Rightarrow> bool" where
  "delivery_ok cb topic a dl \<longleftrightarrow> dl_message dl \<in> set topic \<and> (dl_after dl = dl_before dl \<or> (\<exists>e. took_over cb a e dl))"

lemma delivery_ok_append: "delivery_ok cb xs a dl \<Longrightarrow> delivery_ok cb (xs @ ys) a dl"
  by (auto simp: delivery_ok_def)

lemma took_over_addressed: "delivery_ok cb topic a dl \<Longrightarrow> took_over cb a e dl \<Longrightarrow> addressed topic a e"
  unfolding delivery_ok_def took_over_def addressed_def by metis

lemma handleMessage_store:
  assumes "handleMessage cb now m s st = (eff, s', st')"
  shows "st' = st \<or> (\<exists>e. took_over cb (re_nodeId s) e \<lparr>dl_time = now, dl_message = m, dl_before = st, dl_after = st'\<rparr>)"
  using assms
  by (auto simp: handleMessage_def took_over_def Let_def split: ReplicationTopicMessage.splits prod.splits if_splits
      elim!: handleReplicationEvent_cases)

lemma deliveries_step:
  assumes "cluster_step cb replicas c c'" and "cluster_ok cb c"
    and "\<And>a dl. dl \<in> set (pn_deliveries (cl_peers c a)) \<Longrightarrow> delivery_ok cb (cl_topic c) a dl"
    and "dl \<in> set (pn_deliveries (cl_peers c' a))"
  shows "delivery_ok cb (cl_topic c') a dl"
  using assms
proof (induction rule: cluster_step.induct)
  case (deliver p c n now eff s' st')
  have "re_nodeId (pn_engine p) = n" using deliver(1,4) by (simp add: cluster_ok_def peer_ok_def)
  with handleMessage_store[OF deliver(3)] nth_mem[OF deliver(2)] deliver(1,5,6) show ?case
    by (auto simp: delivery_ok_def split: if_splits)
next
  case (deliver_fails p c n now eff s' st')
  have "re_nodeId (pn_engine p) = n" using deliver_fails(1,5) by (simp add: cluster_ok_def peer_ok_def)
  with handleMessage_store[OF deliver_fails(3)] nth_mem[OF deliver_fails(2)] deliver_fails(1,6,7) show ?case
    by (auto simp: delivery_ok_def split: if_splits)
qed (auto split: if_splits intro: delivery_ok_append)

lemma deliveries_reachable:
  "cluster_reachable cb replicas st c \<Longrightarrow> dl \<in> set (pn_deliveries (cl_peers c a)) \<Longrightarrow> delivery_ok cb (cl_topic c) a dl"
proof (induction arbitrary: a dl rule: cluster_reachable.induct)
  case cluster_init
  then show ?case by (simp add: new_cluster_def)
next
  case (cluster_next c c')
  then show ?case using deliveries_step[OF cluster_next(2) cluster_reachable_ok[OF cluster_next(1)]] by blast
qed

text \<open>C11. Over any number of nodes on one replication topic, with messages read again, publishes of events and of
  acknowledgements that fail, timeouts and shutdowns in any order: whenever a node's replication promise has resolved
  with a list of acknowledging nodes, each of them was handed that event and its storage went, at that moment, from what
  it was to what the storage callback makes of it, without an error, and the published event names the node as a
  target.  A node's storage is changed by the topic only in this way: over any other message it is what it was.  No
  promise is resolved twice, and a promise that is still pending misses at least one target.\<close>

theorem acknowledged_means_applied:
  assumes "cluster_reachable cb replicas st c"
  shows "(\<forall>n e acked. (n, e, acked) \<in> set (cl_resolved c) \<longrightarrow>
           (\<forall>a \<in> set acked. addressed (cl_topic c) a e \<and>
             (\<exists>dl ev targets. dl \<in> set (pn_deliveries (cl_peers c a)) \<and> dl_message dl = EventMessage ev targets \<and>
                rev_eventId ev = e \<and> carries_out cb (dl_time dl) ev (dl_before dl) (dl_after dl)))) \<and>
         (\<forall>a. \<forall>dl \<in> set (pn_deliveries (cl_peers c a)). dl_message dl \<in> set (cl_topic c) \<and>
            (dl_after dl = dl_before dl \<or> (\<exists>e. took_over cb a e dl))) \<and>
         distinct (map (\<lambda>(n, e, acked). (n, e)) (cl_resolved c)) \<and>
         (\<forall>n e w. js_get (re_pendingAcks (pn_engine (cl_peers c n))) e = Some w \<longrightarrow>
            \<not> set (aw_targetNodeIds w) \<subseteq> set (aw_ackedBy w) \<and> (\<forall>acked. (n, e, acked) \<notin> set (cl_resolved c)))"
proof (intro conjI allI impI ballI)
  fix n e acked a assume "(n, e, acked) \<in> set (cl_resolved c)" "a \<in> set acked"
  then have "applied_at cb c a e" using cluster_reachable_ok[OF assms] by (auto simp: cluster_ok_def)
  then obtain dl where dl: "dl \<in> set (pn_deliveries (cl_peers c a))" "took_over cb a e dl" unfolding applied_at_def by blast
  show "addressed (cl_topic c) a e" by (rule took_over_addressed[OF deliveries_reachable[OF assms dl(1)] dl(2)])
  from dl show "\<exists>dl ev targets. dl \<in> set (pn_deliveries (cl_peers c a)) \<and> dl_message dl = EventMessage ev targets \<and>
      rev_eventId ev = e \<and> carries_out cb (dl_time dl) ev (dl_before dl) (dl_after dl)"
    by (auto simp: took_over_def)
next
  fix a dl assume "dl \<in> set (pn_deliveries (cl_peers c a))"
  from deliveries_reachable[OF assms this] show "dl_message dl \<in> set (cl_topic c)"
    "dl_after dl = dl_before dl \<or> (\<exists>e. took_over cb a e dl)"
    by (simp_all add: delivery_ok_def)
next
  show "distinct (map (\<lambda>(n, e, acked). (n, e)) (cl_resolved c))"
    using cluster_reachable_ok[OF assms] by (simp add: cluster_ok_def)
next
  fix n e w acked assume "js_get (re_pendingAcks (pn_engine (cl_peers c n))) e = Some w"
  then have "waiter_ok cb c n e w" using cluster_reachable_ok[OF assms] by (simp add: cluster_ok_def peer_ok_def)
  then show "\<not> set (aw_targetNodeIds w) \<subseteq> set (aw_ackedBy w)" "(n, e, acked) \<notin> set (cl_resolved c)"
    by (simp_all add: waiter_ok_def)
qed

text \<open>A run of two nodes: \<open>a\<close> publishes a write, \<open>b\<close> applies and acknowledges it, \<open>a\<close> reads both messages.\<close>

definition publish_next :: "(string \<Rightarrow> CacheKey \<Rightarrow> string list) \<Rightarrow> string \<Rightarrow> time \<Rightarrow> CacheKey \<Rightarrow> repl_kind \<Rightarrow> 'v option \<Rightarrow>
    CacheMetadata option \<Rightarrow> string \<Rightarrow> ('v, 's) cluster \<Rightarrow> ('v, 's) cluster" where
  "publish_next replicas eventId now key op v metadata n c =
     (case replicate_op (replicas n) eventId now key op v metadata (pn_engine (cl_peers c n)) of
        (Some eff, s') \<Rightarrow> absorb n ((cl_peers c n)\<lparr>pn_engine := s'\<rparr>) eff c | _ \<Rightarrow> c)"

definition deliver_next :: "('v, 's) repl_callbacks \<Rightarrow> time \<Rightarrow> string \<Rightarrow> ('v, 's) cluster \<Rightarrow> ('v, 's) cluster" where
  "deliver_next cb now n c =
     (let p = cl_peers c n; (eff, s', st') = handleMessage cb now (cl_topic c ! pn_offset p) (pn_engine p) (pn_store p)
      in absorb n ((delivered now (cl_topic c ! pn_offset p) s' st' p)\<lparr>pn_offset := pn_offset p + 1\<rparr>) eff c)"

lemma publish_next_reachable:
  "cluster_reachable cb replicas st c \<Longrightarrow> fresh_id c eventId \<Longrightarrow>
   cluster_reachable cb replicas st (publish_next replicas eventId now key op v metadata n c)"
  by (auto simp: publish_next_def split: prod.splits option.splits intro: cluster_next publish)

lemma deliver_next_reachable:
  assumes "cluster_reachable cb replicas st c" and "pn_offset (cl_peers c n) < length (cl_topic c)"
  shows "cluster_reachable cb replicas st (deliver_next cb now n c)"
proof -
  obtain eff s' st' where h: "handleMessage cb now (cl_topic c ! pn_offset (cl_peers c n)) (pn_engine (cl_peers c n))
      (pn_store (cl_peers c n)) = (eff, s', st')" by (metis prod_cases3)
  from cluster_next[OF assms(1) deliver[OF refl assms(2) h]] show ?thesis by (simp add: deliver_next_def h Let_def)
qed

definition demo_callbacks :: "(nat, nat) repl_callbacks" where
  "demo_callbacks = \<lparr>cb_applyRemoteWrite = (\<lambda>now k v m st. Inr (the v)), cb_applyRemoteDelete = (\<lambda>k st. Inr 0)\<rparr>"

definition demo_published :: "(nat, nat) cluster" where
  "demo_published = publish_next (\<lambda>_ _. [''a'', ''b'']) ''e1'' 0 ''k'' DELETE None None ''a'' (new_cluster (\<lambda>_. 7))"

definition demo_cluster :: "(nat, nat) cluster" where
  "demo_cluster = deliver_next demo_callbacks 3 ''a'' (deliver_next demo_callbacks 2 ''a''
     (deliver_next demo_callbacks 1 ''b'' demo_published))"

lemmas demo_simps = demo_cluster_def demo_published_def demo_callbacks_def deliver_next_def publish_next_def
  new_cluster_def new_ReplicationEngine_def replicate_op_def registerAckWaiter_def handleMessage_def
  handleReplicationEvent_def handleAck_def apply_event_def set_add_def Let_def

lemma demo_reachable: "cluster_reachable demo_callbacks (\<lambda>_ _. [''a'', ''b'']) (\<lambda>_. 7) demo_cluster"
proof -
  have "fresh_id (new_cluster (\<lambda>_. 7 :: nat)) ''e1''"
    by (simp add: fresh_id_def new_cluster_def new_ReplicationEngine_def event_ids_def)
  then have 0: "cluster_reachable demo_callbacks (\<lambda>_ _. [''a'', ''b'']) (\<lambda>_. 7) demo_published"
    unfolding demo_published_def by (intro publish_next_reachable cluster_init)
  show ?thesis unfolding demo_cluster_def
    by (intro deliver_next_reachable 0) (simp_all add: demo_simps)
qed

theorem acknowledged_means_applied_witness:
  "cl_resolved demo_cluster = [(''a'', ''e1'', [''b''])] \<and> addressed (cl_topic demo_cluster) ''b'' ''e1'' \<and>
   (\<exists>dl ev targets. dl \<in> set (pn_deliveries (cl_peers demo_cluster ''b'')) \<and> dl_message dl = EventMessage ev targets \<and>
      rev_eventId ev = ''e1'' \<and> carries_out demo_callbacks (dl_time dl) ev (dl_before dl) (dl_after dl)) \<and>
   pn_store (cl_peers demo_cluster ''b'') = 0"
proof -
  have "cl_resolved demo_cluster = [(''a'', ''e1'', [''b''])]" "pn_store (cl_peers demo_cluster ''b'') = 0"
    by (simp_all add: demo_simps)
  then show ?thesis using acknowledged_means_applied[OF demo_reachable] by simp
qed

end
