(* ===== verification/Ring.thy ===== *)
theory Ring
  imports Shared
begin

text \<open>
  \<open>packages/consistent-hash\<close>: the ring hash (\<open>RingHash.ts\<close>) on 32-bit words, the ring with its
  virtual nodes and binary search (\<open>ConsistentHashRing.ts\<close>) and the key movement report
  (\<open>RebalanceAnalyzer.ts\<close>).  The theorems give the ring a canonical form determined by its node
  table, the binary search its linear specification, and consistent hashing its minimal disruption.
\<close>

unbundle bit_operations_syntax

section \<open>RingHash.ts\<close>

definition FNV_OFFSET_BASIS :: "32 word" where "FNV_OFFSET_BASIS = 0x811c9dc5"
definition FNV_PRIME :: "32 word" where "FNV_PRIME = 0x01000193"

definition fnv1a32 :: "string \<Rightarrow> 32 word \<Rightarrow> 32 word" where
  "fnv1a32 input seed =
     fold (\<lambda>c hash. (hash XOR of_nat (of_char c)) * FNV_PRIME) input (FNV_OFFSET_BASIS XOR seed)"

definition djb2 :: "string \<Rightarrow> 32 word \<Rightarrow> 32 word" where
  "djb2 input seed = fold (\<lambda>c hash. hash * 33 + of_nat (of_char c)) input seed"

definition ringHash :: "string \<Rightarrow> 32 word" where
  "ringHash input =
     (let a = fnv1a32 input 0; b = djb2 input 5381;
          combined0 = a XOR (b * 0x9e3779b1);
          combined1 = combined0 XOR drop_bit 15 combined0;
          combined2 = combined1 * 0x85ebca6b
      in combined2 XOR drop_bit 13 combined2)"

section \<open>types.ts and ConsistentHashRing.ts\<close>

record RingPoint =
  rp_hash :: "32 word"
  rp_nodeId :: string
  rp_virtualIndex :: nat

definition DEFAULT_baseVirtualNodeCount :: nat where "DEFAULT_baseVirtualNodeCount = 128"

record ConsistentHashRing =
  ring_baseVirtualNodeCount :: nat
  ring_points :: "RingPoint list"
  ring_nodes :: "(string, NodeInfo) js_map"

definition new_ConsistentHashRing :: "nat option \<Rightarrow> ConsistentHashRing" where
  "new_ConsistentHashRing base =
     \<lparr>ring_baseVirtualNodeCount = (case base of None \<Rightarrow> DEFAULT_baseVirtualNodeCount | Some b \<Rightarrow> b),
      ring_points = [], ring_nodes = []\<rparr>"

definition virtualNodeCountFor :: "nat \<Rightarrow> NodeInfo \<Rightarrow> nat" where
  "virtualNodeCountFor base node = nat (max 1 \<lfloor>of_nat base * ni_weight node + 1 / 2\<rfloor>)"

definition virtual_points :: "nat \<Rightarrow> NodeInfo \<Rightarrow> RingPoint list" where
  "virtual_points base node =
     map (\<lambda>i. \<lparr>rp_hash = ringHash (ni_nodeId node @ ''#'' @ show_nat i), rp_nodeId = ni_nodeId node,
               rp_virtualIndex = i\<rparr>)
       [0..<virtualNodeCountFor base node]"

definition assignment_of :: "RingPoint \<Rightarrow> RingAssignment" where
  "assignment_of p = \<lparr>ra_nodeId = rp_nodeId p, ra_virtualNodeHash = rp_hash p\<rparr>"

definition removeNode :: "string \<Rightarrow> ConsistentHashRing \<Rightarrow> ConsistentHashRing" where
  "removeNode nodeId r =
     r\<lparr>ring_nodes := js_delete nodeId (ring_nodes r),
       ring_points := filter (\<lambda>p. rp_nodeId p \<noteq> nodeId) (ring_points r)\<rparr>"

definition addNode :: "NodeInfo \<Rightarrow> ConsistentHashRing \<Rightarrow> RingAssignment list \<times> ConsistentHashRing" where
  "addNode node r =
     (let r1 = (if js_has (ring_nodes r) (ni_nodeId node) then removeNode (ni_nodeId node) r else r);
          r2 = r1\<lparr>ring_nodes := js_set (ni_nodeId node) node (ring_nodes r1)\<rparr>;
          added = virtual_points (ring_baseVirtualNodeCount r2) node;
          r3 = r2\<lparr>ring_points := sort_key rp_hash (ring_points r2 @ added)\<rparr>
      in (map assignment_of added, r3))"

definition hasNode :: "string \<Rightarrow> ConsistentHashRing \<Rightarrow> bool" where
  "hasNode nodeId r = js_has (ring_nodes r) nodeId"

definition getNodeInfo :: "string \<Rightarrow> ConsistentHashRing \<Rightarrow> NodeInfo option" where
  "getNodeInfo nodeId r = js_get (ring_nodes r) nodeId"

definition updateNodeStatus :: "string \<Rightarrow> NodeStatus \<Rightarrow> time \<Rightarrow> ConsistentHashRing \<Rightarrow> ConsistentHashRing" where
  "updateNodeStatus nodeId status lastHeartbeat r =
     (case js_get (ring_nodes r) nodeId of
        None \<Rightarrow> r
      | Some node \<Rightarrow>
          r\<lparr>ring_nodes := js_set nodeId (node\<lparr>ni_status := status, ni_lastHeartbeat := lastHeartbeat\<rparr>) (ring_nodes r)\<rparr>)"

definition getPhysicalNodes :: "ConsistentHashRing \<Rightarrow> NodeInfo list" where
  "getPhysicalNodes r = map snd (ring_nodes r)"

definition getHealthyPhysicalNodes :: "ConsistentHashRing \<Rightarrow> NodeInfo list" where
  "getHealthyPhysicalNodes r = filter (\<lambda>n. ni_status n = HEALTHY) (getPhysicalNodes r)"

function binary_search :: "RingPoint list \<Rightarrow> 32 word \<Rightarrow> nat \<Rightarrow> nat \<Rightarrow> nat" where
  "binary_search points targetHash lo hi =
     (if lo < hi
      then let mid = (lo + hi) div 2
           in if rp_hash (points ! mid) < targetHash then binary_search points targetHash (mid + 1) hi
              else binary_search points targetHash lo mid
      else lo)"
  by pat_completeness auto
termination by (relation "measure (\<lambda>(points, t, lo, hi). hi - lo)") auto

declare binary_search.simps [simp del]

definition successorIndex :: "32 word \<Rightarrow> ConsistentHashRing \<Rightarrow> nat" where
  "successorIndex targetHash r =
     (let hi = length (ring_points r) - 1
      in if targetHash > rp_hash (ring_points r ! hi) then 0
         else binary_search (ring_points r) targetHash 0 hi)"

definition getNode :: "CacheKey \<Rightarrow> ConsistentHashRing \<Rightarrow> string option" where
  "getNode key r =
     (if length (ring_points r) = 0 then None
      else Some (rp_nodeId (ring_points r ! successorIndex (ringHash key) r)))"

fun walk_clockwise :: "RingPoint list \<Rightarrow> nat \<Rightarrow> nat \<Rightarrow> nat \<Rightarrow> string list \<Rightarrow> string list \<Rightarrow> string list" where
  "walk_clockwise points cnt 0 idx seen result = result"
| "walk_clockwise points cnt (Suc guard) idx seen result =
     (if length result < cnt
      then let candidate = points ! idx;
               (seen', result') = (if rp_nodeId candidate \<notin> set seen
                                   then (set_add (rp_nodeId candidate) seen, result @ [rp_nodeId candidate])
                                   else (seen, result))
           in walk_clockwise points cnt guard ((idx + 1) mod length points) seen' result'
      else result)"

definition getNodesForKey :: "CacheKey \<Rightarrow> nat \<Rightarrow> ConsistentHashRing \<Rightarrow> string list" where
  "getNodesForKey key cnt r =
     (if length (ring_points r) = 0 \<or> cnt \<le> 0 then []
      else walk_clockwise (ring_points r) cnt (length (ring_points r)) (successorIndex (ringHash key) r) [] [])"

definition getRingSnapshot :: "ConsistentHashRing \<Rightarrow> RingAssignment list" where
  "getRingSnapshot r = map assignment_of (ring_points r)"

definition totalVirtualNodeCount :: "ConsistentHashRing \<Rightarrow> nat" where
  "totalVirtualNodeCount r = length (ring_points r)"

definition ring_clone :: "ConsistentHashRing \<Rightarrow> ConsistentHashRing" where
  "ring_clone r =
     fold (\<lambda>node copy. snd (addNode node copy)) (map snd (ring_nodes r))
       (new_ConsistentHashRing (Some (ring_baseVirtualNodeCount r)))"

section \<open>RebalanceAnalyzer.ts\<close>

record KeyMovementReport =
  km_sampleSize :: nat
  km_movedCount :: nat
  km_movedRatio :: rat
  km_theoreticalMinimumRatio :: rat

definition analyzeKeyMovement :: "ConsistentHashRing \<Rightarrow> ConsistentHashRing \<Rightarrow> CacheKey list \<Rightarrow> KeyMovementReport" where
  "analyzeKeyMovement before after sampleKeys =
     (let moved = fold (\<lambda>key moved. if getNode key before \<noteq> getNode key after then moved + 1 else moved) sampleKeys 0;
          referenceNodeCount = max (max (length (getPhysicalNodes before)) (length (getPhysicalNodes after))) 1
      in \<lparr>km_sampleSize = length sampleKeys, km_movedCount = moved,
          km_movedRatio = (if length sampleKeys > 0 then of_nat moved / of_nat (length sampleKeys) else 0),
          km_theoreticalMinimumRatio = 1 / of_nat referenceNodeCount\<rparr>)"

definition generateSampleKeyspace :: "nat \<Rightarrow> string \<Rightarrow> CacheKey list" where
  "generateSampleKeyspace sz pre = map (\<lambda>i. pre @ '':'' @ show_nat i) [0..<sz]"

section \<open>The canonical form of a ring\<close>

text \<open>A ring is determined by its node table: its points are the virtual nodes of the table's nodes,
  stably sorted by hash.\<close>

definition ring_ok :: "ConsistentHashRing \<Rightarrow> bool" where
  "ring_ok r \<longleftrightarrow> js_map_ok (ring_nodes r) \<and> (\<forall>p \<in> set (ring_nodes r). ni_nodeId (snd p) = fst p) \<and>
     ring_points r =
       sort_key rp_hash (concat (map (\<lambda>p. virtual_points (ring_baseVirtualNodeCount r) (snd p)) (ring_nodes r)))"

lemma sort_key_append_sorted: "sort_key f (sort_key f xs @ ys) = sort_key f (xs @ ys)"
proof (rule properties_for_sort_key)
  fix k
  have "filter (\<lambda>x. f k = f x) (sort_key f zs) = filter (\<lambda>x. f k = f x) zs" for zs
    using sort_key_stable[of f "f k" zs] by (simp add: eq_commute)
  then show "filter (\<lambda>x. f k = f x) (sort_key f (xs @ ys)) = filter (\<lambda>x. f k = f x) (sort_key f xs @ ys)"
    by simp
qed simp_all

abbreviation node_points :: "nat \<Rightarrow> (string \<times> NodeInfo) list \<Rightarrow> RingPoint list" where
  "node_points base m \<equiv> concat (map (\<lambda>p. virtual_points base (snd p)) m)"

lemma virtual_points_id: "p \<in> set (virtual_points base node) \<Longrightarrow> rp_nodeId p = ni_nodeId node"
  by (auto simp: virtual_points_def)

lemma virtual_points_length: "length (virtual_points base node) = virtualNodeCountFor base node"
  by (simp add: virtual_points_def)

lemma virtualNodeCountFor_pos: "1 \<le> virtualNodeCountFor base node"
  by (simp add: virtualNodeCountFor_def)

lemma node_points_filter:
  "(\<forall>p \<in> set m. ni_nodeId (snd p) = fst p) \<Longrightarrow>
   filter (\<lambda>q. rp_nodeId q \<noteq> n) (node_points base m) = node_points base (js_delete n m)"
proof (induction m)
  case (Cons p m)
  have "filter (\<lambda>q. rp_nodeId q \<noteq> n) (virtual_points base (snd p)) =
      (if fst p = n then [] else virtual_points base (snd p))"
    using Cons.prems virtual_points_id[of _ base "snd p"] by (auto simp: filter_empty_conv filter_id_conv)
  with Cons show ?case by (cases p) auto
qed simp

lemma ring_ok_new: "ring_ok (new_ConsistentHashRing base)"
  by (simp add: ring_ok_def new_ConsistentHashRing_def)

lemma ring_ok_remove:
  assumes "ring_ok r"
  shows "ring_ok (removeNode n r)"
proof -
  let ?b = "ring_baseVirtualNodeCount r" and ?m = "ring_nodes r"
  from assms have "filter (\<lambda>q. rp_nodeId q \<noteq> n) (ring_points r) = sort_key rp_hash (node_points ?b (js_delete n ?m))"
    using node_points_filter[of ?m n ?b] by (simp add: ring_ok_def filter_sort)
  with assms show ?thesis by (auto simp: ring_ok_def removeNode_def set_js_delete)
qed

lemma addNode_new:
  assumes "ring_ok r" and "ni_nodeId node \<notin> fst ` set (ring_nodes r)"
  shows "ring_ok (snd (addNode node r))"
    and "ring_nodes (snd (addNode node r)) = ring_nodes r @ [(ni_nodeId node, node)]"
proof -
  from assms(2) have no: "\<not> js_has (ring_nodes r) (ni_nodeId node)" by (simp add: js_map_simps)
  then show nodes: "ring_nodes (snd (addNode node r)) = ring_nodes r @ [(ni_nodeId node, node)]"
    using assms(2) by (simp add: addNode_def Let_def js_set_new)
  show "ring_ok (snd (addNode node r))"
    unfolding ring_ok_def nodes using assms no
    by (auto simp: addNode_def Let_def ring_ok_def sort_key_append_sorted)
qed

lemma addNode_remove:
  "snd (addNode node r) = snd (addNode node (removeNode (ni_nodeId node) r)) \<or>
   \<not> js_has (ring_nodes r) (ni_nodeId node)"
  by (auto simp: addNode_def Let_def js_map_simps removeNode_def)

lemma ring_ok_add:
  assumes "ring_ok r"
  shows "ring_ok (snd (addNode node r))"
    and "fst ` set (ring_nodes (snd (addNode node r))) = insert (ni_nodeId node) (fst ` set (ring_nodes r))"
proof -
  let ?q = "if js_has (ring_nodes r) (ni_nodeId node) then removeNode (ni_nodeId node) r else r"
  have q: "snd (addNode node r) = snd (addNode node ?q)" "ring_ok ?q" "ni_nodeId node \<notin> fst ` set (ring_nodes ?q)"
    using addNode_remove[of node r] assms ring_ok_remove[OF assms] by (auto simp: js_map_simps removeNode_def)
  from addNode_new[OF q(2,3)] show "ring_ok (snd (addNode node r))"
    and "fst ` set (ring_nodes (snd (addNode node r))) = insert (ni_nodeId node) (fst ` set (ring_nodes r))"
    unfolding q(1)[symmetric] by (auto simp: removeNode_def js_map_simps)
qed

lemma node_points_status:
  "js_get m n = Some node \<Longrightarrow> js_map_ok m \<Longrightarrow>
   node_points base (js_set n (node\<lparr>ni_status := st, ni_lastHeartbeat := t\<rparr>) m) = node_points base m"
  by (induction m) (auto simp: virtual_points_def virtualNodeCountFor_def split: if_splits)

lemma ring_ok_update:
  assumes "ring_ok r"
  shows "ring_ok (updateNodeStatus n st t r)"
proof (cases "js_get (ring_nodes r) n")
  case (Some node)
  with assms have "ni_nodeId node = n" by (force simp: ring_ok_def dest: map_of_SomeD)
  with Some assms show ?thesis
    using node_points_status[OF Some] by (auto simp: ring_ok_def updateNodeStatus_def set_js_set)
qed (use assms in \<open>simp add: updateNodeStatus_def\<close>)

section \<open>Membership changes\<close>

datatype ring_op = RingAdd NodeInfo | RingRemove string | RingStatus string NodeStatus time

fun ring_exec :: "ring_op \<Rightarrow> ConsistentHashRing \<Rightarrow> ConsistentHashRing" where
  "ring_exec (RingAdd node) r = snd (addNode node r)"
| "ring_exec (RingRemove n) r = removeNode n r"
| "ring_exec (RingStatus n st t) r = updateNodeStatus n st t r"

lemma ring_exec_ok: "ring_ok r \<Longrightarrow> ring_ok (ring_exec op r)"
  by (cases op) (simp_all add: ring_ok_add ring_ok_remove ring_ok_update)

lemma ring_fold_ok: "ring_ok r \<Longrightarrow> ring_ok (fold ring_exec ops r)"
  by (induction ops arbitrary: r) (simp_all add: ring_exec_ok)

lemma ring_points_ids: "ring_ok r \<Longrightarrow> rp_nodeId ` set (ring_points r) = fst ` set (ring_nodes r)"
proof -
  assume ok: "ring_ok r"
  have "rp_nodeId ` set (virtual_points (ring_baseVirtualNodeCount r) (snd p)) = {fst p}"
    if "p \<in> set (ring_nodes r)" for p
  proof -
    have "virtual_points (ring_baseVirtualNodeCount r) (snd p) \<noteq> []"
      using virtualNodeCountFor_pos[of "ring_baseVirtualNodeCount r" "snd p"]
      by (simp add: virtual_points_def)
    then show ?thesis using that ok virtual_points_id[of _ "ring_baseVirtualNodeCount r" "snd p"]
      by (cases "virtual_points (ring_baseVirtualNodeCount r) (snd p)") (auto simp: ring_ok_def image_iff)
  qed
  then show ?thesis using ok by (auto simp: ring_ok_def image_UN)
qed

lemma ring_points_sorted: "ring_ok r \<Longrightarrow> sorted (map rp_hash (ring_points r))"
  by (simp add: ring_ok_def)

lemma ring_eq:
  "ring_ok r \<Longrightarrow> ring_ok q \<Longrightarrow> ring_nodes r = ring_nodes q \<Longrightarrow>
   ring_baseVirtualNodeCount r = ring_baseVirtualNodeCount q \<Longrightarrow> r = q"
  by (auto simp: ring_ok_def)

lemma add_nodes_fold:
  "ring_ok r \<Longrightarrow> distinct (map fst m) \<Longrightarrow> (\<forall>p \<in> set m. ni_nodeId (snd p) = fst p) \<Longrightarrow>
   fst ` set m \<inter> fst ` set (ring_nodes r) = {} \<Longrightarrow>
   let q = fold (\<lambda>node copy. snd (addNode node copy)) (map snd m) r
   in ring_ok q \<and> ring_nodes q = ring_nodes r @ m \<and> ring_baseVirtualNodeCount q = ring_baseVirtualNodeCount r"
proof (induction m arbitrary: r)
  case (Cons p m)
  let ?r = "snd (addNode (snd p) r)"
  have new: "ni_nodeId (snd p) \<notin> fst ` set (ring_nodes r)" using Cons.prems by auto
  note add = addNode_new[OF Cons.prems(1) new]
  have base: "ring_baseVirtualNodeCount ?r = ring_baseVirtualNodeCount r"
    by (simp add: addNode_def Let_def removeNode_def)
  have id: "ni_nodeId (snd p) = fst p" using Cons.prems(3) by simp
  have disj: "fst ` set m \<inter> fst ` set (ring_nodes ?r) = {}"
    unfolding add(2) using Cons.prems(2,4) id by auto
  from Cons.IH[OF add(1) _ _ disj] Cons.prems(2,3) add(2) base id show ?case
    by (simp add: Let_def)
qed simp

lemma ring_clone_eq: "ring_ok r \<Longrightarrow> ring_clone r = r"
proof -
  assume ok: "ring_ok r"
  let ?n = "new_ConsistentHashRing (Some (ring_baseVirtualNodeCount r))"
  have "let q = ring_clone r in ring_ok q \<and> ring_nodes q = ring_nodes ?n @ ring_nodes r \<and>
      ring_baseVirtualNodeCount q = ring_baseVirtualNodeCount ?n"
    unfolding ring_clone_def
    by (rule add_nodes_fold[OF ring_ok_new]) (use ok in \<open>auto simp: ring_ok_def new_ConsistentHashRing_def\<close>)
  with ok show ?thesis by (intro ring_eq) (auto simp: Let_def new_ConsistentHashRing_def)
qed

section \<open>Lookup: the binary search and the clockwise walk\<close>

lemma binary_search_lower_bound: "binary_search pts t lo hi = lower_bound (\<lambda>i. rp_hash (pts ! i) < t) lo hi"
proof (induction pts t lo hi rule: binary_search.induct)
  case (1 pts t lo hi)
  then show ?case by (subst binary_search.simps, subst lower_bound.simps) (simp add: Let_def)
qed

lemma binary_search_first:
  assumes "sorted (map rp_hash pts)" and "lo \<le> hi" and "hi < length pts"
    and "\<forall>i < lo. rp_hash (pts ! i) < t" and "t \<le> rp_hash (pts ! hi)"
  shows "binary_search pts t lo hi < length pts \<and> t \<le> rp_hash (pts ! binary_search pts t lo hi) \<and>
    (\<forall>i < binary_search pts t lo hi. rp_hash (pts ! i) < t)"
proof -
  let ?below = "\<lambda>i. rp_hash (pts ! i) < t"
  have "?below i" if "i \<le> j" "j \<le> hi" "?below j" for i j
    using sorted_nth_le[OF assms(1), of i j] that assms(3) by simp
  from lower_bound_first[OF assms(2) this assms(4)] lower_bound_range[OF assms(2), of ?below] assms(3,5)
  show ?thesis by (simp add: binary_search_lower_bound not_less)
qed

definition clockwise :: "32 word \<Rightarrow> RingPoint list \<Rightarrow> RingPoint list" where
  "clockwise h pts = filter (\<lambda>p. h \<le> rp_hash p) pts @ filter (\<lambda>p. rp_hash p < h) pts"

lemma split_clockwise:
  assumes "\<forall>p \<in> set xs. rp_hash p < h" and "\<forall>p \<in> set ys. h \<le> rp_hash p"
  shows "clockwise h (xs @ ys) = ys @ xs"
proof -
  have "filter (\<lambda>p. h \<le> rp_hash p) xs = []" "filter (\<lambda>p. h \<le> rp_hash p) ys = ys"
    "filter (\<lambda>p. rp_hash p < h) xs = xs" "filter (\<lambda>p. rp_hash p < h) ys = []"
    using assms by (auto simp: filter_empty_conv filter_id_conv not_le not_less)
  then show ?thesis by (simp add: clockwise_def)
qed

lemma successorIndex_clockwise:
  assumes "sorted (map rp_hash (ring_points r))" and "ring_points r \<noteq> []"
  shows "successorIndex h r < length (ring_points r)"
    and "drop (successorIndex h r) (ring_points r) @ take (successorIndex h r) (ring_points r) = clockwise h (ring_points r)"
proof -
  let ?p = "ring_points r" and ?hi = "length (ring_points r) - 1"
  have hi: "?hi < length ?p" using assms(2) by (cases ?p) auto
  have "successorIndex h r < length ?p \<and>
    drop (successorIndex h r) ?p @ take (successorIndex h r) ?p = clockwise h ?p"
  proof (cases "rp_hash (?p ! ?hi) < h")
    case True
    have "\<forall>p \<in> set ?p. rp_hash p < h"
    proof
      fix p assume "p \<in> set ?p"
      then obtain i where i: "i < length ?p" "p = ?p ! i" by (auto simp: in_set_conv_nth)
      then have "i \<le> ?hi" by simp
      from sorted_nth_le[OF assms(1) this] i hi have "rp_hash p \<le> rp_hash (?p ! ?hi)" by simp
      with True show "rp_hash p < h" by simp
    qed
    then have "clockwise h ?p = ?p" using split_clockwise[of ?p h "[]"] by simp
    with True assms(2) show ?thesis by (simp add: successorIndex_def)
  next
    case False
    let ?i = "binary_search ?p h 0 ?hi"
    have i: "?i < length ?p" "h \<le> rp_hash (?p ! ?i)" "\<forall>j < ?i. rp_hash (?p ! j) < h"
      using binary_search_first[of ?p 0 ?hi h] assms(1) hi False by (simp_all add: not_less)
    have "\<forall>q \<in> set (take ?i ?p). rp_hash q < h" using i by (auto simp: in_set_conv_nth)
    moreover have "\<forall>q \<in> set (drop ?i ?p). h \<le> rp_hash q"
    proof
      fix q assume "q \<in> set (drop ?i ?p)"
      then obtain j where "j < length ?p - ?i" "q = ?p ! (?i + j)" by (auto simp: in_set_conv_nth)
      moreover from this have "rp_hash (?p ! ?i) \<le> rp_hash (?p ! (?i + j))"
        using sorted_nth_le[OF assms(1), of ?i "?i + j"] i(1) by simp
      ultimately show "h \<le> rp_hash q" using i(2) by simp
    qed
    ultimately have "clockwise h (take ?i ?p @ drop ?i ?p) = drop ?i ?p @ take ?i ?p" by (rule split_clockwise)
    with False i show ?thesis by (simp add: successorIndex_def)
  qed
  then show "successorIndex h r < length ?p"
    and "drop (successorIndex h r) ?p @ take (successorIndex h r) ?p = clockwise h ?p" by blast+
qed

definition uniq :: "'a list \<Rightarrow> 'a list" where
  "uniq xs = fold set_add xs []"

lemma fold_set_add: "fold set_add xs acc = acc @ filter (\<lambda>x. x \<notin> set acc) (uniq xs)"
proof (induction xs arbitrary: acc rule: rev_induct)
  case (snoc x xs)
  then show ?case by (auto simp: uniq_def set_add_def)
qed (simp add: uniq_def)

lemma uniq_Cons: "uniq (x # xs) = x # filter (\<lambda>y. y \<noteq> x) (uniq xs)"
  using fold_set_add[of xs "[x]"] by (simp add: uniq_def set_add_def)

lemma uniq_set [simp]: "set (uniq xs) = set xs"
  by (induction xs) (auto simp: uniq_Cons uniq_def[of "[]"])

lemma uniq_distinct [simp]: "distinct (uniq xs)"
  by (induction xs) (auto simp: uniq_Cons uniq_def[of "[]"])

lemma uniq_filter: "uniq (filter P xs) = filter P (uniq xs)"
proof (induction xs)
  case (Cons x xs)
  then show ?case by (auto simp: uniq_Cons conj_commute intro: filter_cong)
qed (simp add: uniq_def)

lemma set_add_cases: "x \<in> set xs \<Longrightarrow> set_add x xs = xs" "x \<notin> set xs \<Longrightarrow> set_add x xs = xs @ [x]"
  by (simp_all add: set_add_def)

lemma walk_clockwise_take:
  assumes "idx < length pts" and "set seen = set res" and "length res \<le> n"
  shows "walk_clockwise pts n g idx seen res =
    take n (fold set_add (map (\<lambda>i. rp_nodeId (pts ! ((idx + i) mod length pts))) [0..<g]) res)"
  using assms
proof (induction g arbitrary: idx seen res)
  case (Suc g)
  let ?L = "length pts" and ?c = "rp_nodeId (pts ! idx)"
  have steps: "map (\<lambda>i. rp_nodeId (pts ! ((idx + i) mod ?L))) [0..<Suc g] =
      ?c # map (\<lambda>i. rp_nodeId (pts ! (((idx + 1) mod ?L + i) mod ?L))) [0..<g]"
    using Suc.prems(1) by (simp add: upt_conv_Cons map_Suc_upt[symmetric] mod_simps o_def del: upt_Suc)
  have "0 < ?L" using Suc.prems(1) by linarith
  then have next_idx: "(idx + 1) mod ?L < ?L" by (rule mod_less_divisor)
  show ?case
  proof (cases "length res < n")
    case True
    show ?thesis
    proof (cases "?c \<in> set seen")
      case mem: True
      then show ?thesis unfolding steps
        using Suc.IH[OF next_idx Suc.prems(2,3)] True Suc.prems(2) by (simp add: Let_def set_add_cases)
    next
      case new: False
      have "walk_clockwise pts n g ((idx + 1) mod ?L) (set_add ?c seen) (res @ [?c]) =
          take n (fold set_add (map (\<lambda>i. rp_nodeId (pts ! (((idx + 1) mod ?L + i) mod ?L))) [0..<g]) (res @ [?c]))"
        using Suc.prems(2) True by (intro Suc.IH[OF next_idx]) auto
      then show ?thesis unfolding steps using new True Suc.prems(2) by (simp add: Let_def set_add_cases)
    qed
  next
    case False
    with Suc.prems(3) show ?thesis by (simp add: fold_set_add[of _ res] del: upt_Suc)
  qed
qed simp

section \<open>The preference list of a key\<close>

text \<open>What lookups compute: all nodes in the order in which their first virtual node is met going
  clockwise from the key.\<close>

definition preference :: "CacheKey \<Rightarrow> ConsistentHashRing \<Rightarrow> string list" where
  "preference key r = uniq (map rp_nodeId (clockwise (ringHash key) (ring_points r)))"

lemma clockwise_set [simp]: "set (clockwise h pts) = set pts"
  by (auto simp: clockwise_def)

lemma preference_set: "ring_ok r \<Longrightarrow> set (preference key r) = fst ` set (ring_nodes r)"
  by (simp add: preference_def ring_points_ids)

lemma preference_length: "ring_ok r \<Longrightarrow> length (preference key r) = length (ring_nodes r)"
proof -
  assume ok: "ring_ok r"
  have "length (preference key r) = card (set (preference key r))"
    by (rule distinct_card[symmetric]) (simp add: preference_def)
  also have "\<dots> = length (ring_nodes r)"
    using preference_set[OF ok] distinct_card[of "map fst (ring_nodes r)"] ok by (simp add: ring_ok_def)
  finally show ?thesis .
qed

lemma map_mod_rotate:
  assumes "idx < length pts"
  shows "map (\<lambda>i. f (pts ! ((idx + i) mod length pts))) [0..<length pts] = map f (drop idx pts @ take idx pts)"
proof -
  have "rotate idx pts = drop idx pts @ take idx pts" using assms by (simp add: rotate_drop_take)
  moreover have "map (\<lambda>i. pts ! ((idx + i) mod length pts)) [0..<length pts] = rotate idx pts"
    by (rule nth_equalityI) (simp_all add: nth_rotate)
  ultimately show ?thesis by (metis (mono_tags, lifting) list.map_comp comp_apply map_cong)
qed

lemma getNodesForKey_preference:
  assumes "ring_ok r"
  shows "getNodesForKey key n r = take n (preference key r)"
proof (cases "ring_points r = [] \<or> n = 0")
  case True
  then show ?thesis by (auto simp: getNodesForKey_def preference_def clockwise_def uniq_def)
next
  case False
  let ?i = "successorIndex (ringHash key) r"
  note idx = successorIndex_clockwise[OF ring_points_sorted[OF assms], of "ringHash key"]
  from False idx have "?i < length (ring_points r)" by blast
  from walk_clockwise_take[OF this, of "[]" "[]" n "length (ring_points r)"] False idx(2)
    map_mod_rotate[OF this, of rp_nodeId]
  show ?thesis by (simp add: getNodesForKey_def preference_def uniq_def del: map_append)
qed

lemma getNode_preference:
  assumes "ring_ok r"
  shows "getNode key r = (case preference key r of [] \<Rightarrow> None | n # _ \<Rightarrow> Some n)"
proof (cases "ring_points r = []")
  case True
  then show ?thesis by (simp add: getNode_def preference_def clockwise_def uniq_def)
next
  case False
  let ?i = "successorIndex (ringHash key) r"
  note idx = successorIndex_clockwise[OF ring_points_sorted[OF assms] False, of "ringHash key"]
  have "drop ?i (ring_points r) = (ring_points r ! ?i) # drop (Suc ?i) (ring_points r)"
    using idx(1) by (simp add: Cons_nth_drop_Suc)
  with idx(2) obtain ps where "clockwise (ringHash key) (ring_points r) = (ring_points r ! ?i) # ps" by (metis append_Cons)
  with False show ?thesis by (simp add: getNode_def preference_def uniq_Cons)
qed

lemma clockwise_filter: "clockwise h (filter P pts) = filter P (clockwise h pts)"
  by (simp add: clockwise_def conj_commute)

lemma preference_remove: "preference key (removeNode n r) = removeAll n (preference key r)"
proof -
  let ?ps = "clockwise (ringHash key) (ring_points r)"
  have m: "map rp_nodeId (filter (\<lambda>p. rp_nodeId p \<noteq> n) ?ps) = filter (\<lambda>x. x \<noteq> n) (map rp_nodeId ?ps)"
    by (simp add: filter_map o_def)
  have "preference key (removeNode n r) = uniq (map rp_nodeId (filter (\<lambda>p. rp_nodeId p \<noteq> n) ?ps))"
    by (simp add: preference_def removeNode_def clockwise_filter)
  also have "\<dots> = filter (\<lambda>x. x \<noteq> n) (preference key r)" unfolding m uniq_filter preference_def ..
  also have "\<dots> = removeAll n (preference key r)" by (simp add: removeAll_filter_not_eq eq_commute)
  finally show ?thesis .
qed

lemma remove_add:
  assumes "ring_ok r"
  shows "removeNode (ni_nodeId node) (snd (addNode node r)) = removeNode (ni_nodeId node) r"
proof (rule ring_eq)
  let ?n = "ni_nodeId node"
  have "js_delete k (js_set k v m) = js_delete k m" for k v and m :: "(string, NodeInfo) js_map"
    by (induction m) auto
  then show "ring_nodes (removeNode ?n (snd (addNode node r))) = ring_nodes (removeNode ?n r)"
    by (simp add: removeNode_def addNode_def Let_def AList.delete_idem)
  show "ring_baseVirtualNodeCount (removeNode ?n (snd (addNode node r))) = ring_baseVirtualNodeCount (removeNode ?n r)"
    by (simp add: removeNode_def addNode_def Let_def)
qed (simp_all only: assms ring_ok_add ring_ok_remove)

section \<open>Properties\<close>

abbreviation ring_after :: "nat option \<Rightarrow> ring_op list \<Rightarrow> ConsistentHashRing" where
  "ring_after base ops \<equiv> fold ring_exec ops (new_ConsistentHashRing base)"

lemma ring_after_ok: "ring_ok (ring_after base ops)"
  by (rule ring_fold_ok[OF ring_ok_new])

text \<open>C7. Lookup by binary search is the clockwise walk: on every ring reachable by membership
  changes, \<open>getNode\<close> and \<open>getNodesForKey\<close> answer prefixes of one preference list, which lists
  every physical node exactly once in the order in which its first virtual node follows the key's
  hash (wrapping around).  So \<open>getNodesForKey key n\<close> has \<open>min n #nodes\<close> distinct members, the first of
  which is the owner.\<close>

theorem ring_lookup_correct:
  "let r = ring_after base ops;
       order = map rp_nodeId (filter (\<lambda>p. ringHash key \<le> rp_hash p) (ring_points r) @
                              filter (\<lambda>p. rp_hash p < ringHash key) (ring_points r))
   in getNode key r = (case order of [] \<Rightarrow> None | n # _ \<Rightarrow> Some n) \<and>
      getNodesForKey key n r = take n (uniq order) \<and> distinct (getNodesForKey key n r) \<and>
      set (uniq order) = fst ` set (ring_nodes r) \<and>
      length (getNodesForKey key n r) = min n (length (getPhysicalNodes r))"
proof -
  let ?r = "ring_after base ops"
  have pref: "uniq (map rp_nodeId (filter (\<lambda>p. ringHash key \<le> rp_hash p) (ring_points ?r) @
      filter (\<lambda>p. rp_hash p < ringHash key) (ring_points ?r))) = preference key ?r"
    by (simp add: preference_def clockwise_def)
  have hd: "(case order of [] \<Rightarrow> None | n # _ \<Rightarrow> Some n) = (case uniq order of [] \<Rightarrow> None | n # _ \<Rightarrow> Some n)"
    for order :: "string list" by (cases order) (simp_all add: uniq_Cons uniq_def[of "[]"])
  have "distinct (preference key ?r)" by (simp add: preference_def)
  then show ?thesis
    unfolding Let_def hd[of "map rp_nodeId _"] pref getNode_preference[OF ring_after_ok] getNodesForKey_preference[OF ring_after_ok]
    using preference_set[OF ring_after_ok[of ops base], of key] preference_length[OF ring_after_ok[of ops base], of key]
    by (simp add: getPhysicalNodes_def min.commute)
qed

text \<open>C8. Removing a node disturbs nothing else: every key's preference list just loses that node,
  so a key the node did not own keeps its owner, a key it owned moves to its next preferred node,
  and replica sets change only by that node's replacement.\<close>

theorem removeNode_minimal:
  "let r = ring_after base ops; r' = removeNode n r
   in getNodesForKey key c r' = take c (removeAll n (getNodesForKey key (length (getPhysicalNodes r)) r)) \<and>
      getNode key r' = (if getNode key r = Some n
        then (case getNodesForKey key 2 r of [_, next] \<Rightarrow> Some next | _ \<Rightarrow> None) else getNode key r)"
proof -
  let ?r = "ring_after base ops"
  let ?p = "preference key ?r"
  have ok: "ring_ok ?r" "ring_ok (removeNode n ?r)" by (rule ring_after_ok, rule ring_ok_remove[OF ring_after_ok])
  have d: "distinct ?p" by (simp add: preference_def)
  have len: "take (length (getPhysicalNodes ?r)) ?p = ?p"
    using preference_length[OF ok(1), of key] by (simp add: getPhysicalNodes_def)
  have "(case removeAll n ?p of [] \<Rightarrow> None | m # _ \<Rightarrow> Some m) =
    (if (case ?p of [] \<Rightarrow> None | m # _ \<Rightarrow> Some m) = Some n
     then (case take 2 ?p of [_, m] \<Rightarrow> Some m | _ \<Rightarrow> None)
     else (case ?p of [] \<Rightarrow> None | m # _ \<Rightarrow> Some m))"
  proof (cases ?p)
    case (Cons a as)
    with d show ?thesis by (cases as) auto
  qed simp
  then show ?thesis
    unfolding Let_def getNodesForKey_preference[OF ok(1)] getNodesForKey_preference[OF ok(2)]
      getNode_preference[OF ok(1)] getNode_preference[OF ok(2)] preference_remove len
    by simp
qed

text \<open>Adding a node moves keys only to that node: after \<open>addNode\<close> (also when it re-adds a known
  node with another weight) every key is owned by the new node or keeps the owner it has without it,
  and the other nodes keep their relative order in every preference list.\<close>

theorem addNode_minimal:
  "let r = ring_after base ops; r' = snd (addNode node r); n = ni_nodeId node;
       all = (\<lambda>q. getNodesForKey key (length (getPhysicalNodes q)) q)
   in removeAll n (all r') = removeAll n (all r) \<and>
      (getNode key r' = Some n \<or> getNode key r' = getNode key (removeNode n r)) \<and> hasNode n r'"
proof -
  let ?r = "ring_after base ops" and ?n = "ni_nodeId node"
  let ?a = "snd (addNode node ?r)"
  have ok: "ring_ok ?r" "ring_ok ?a" by (rule ring_after_ok, rule ring_ok_add(1)[OF ring_after_ok])
  have all: "ring_ok q \<Longrightarrow> getNodesForKey key (length (getPhysicalNodes q)) q = preference key q" for q
    using preference_length[of q key] by (simp add: getNodesForKey_preference getPhysicalNodes_def)
  have pref: "removeAll ?n (preference key ?a) = removeAll ?n (preference key ?r)"
    using remove_add[OF ok(1), of node] by (metis preference_remove)
  have "getNode key ?a = Some ?n \<or> getNode key ?a = getNode key (removeNode ?n ?r)"
    unfolding getNode_preference[OF ok(2)] getNode_preference[OF ring_ok_remove[OF ok(1)]] preference_remove
      pref[symmetric]
    by (cases "preference key ?a") auto
  moreover have "hasNode ?n ?a" using ring_ok_add(2)[OF ok(1), of node] by (simp add: hasNode_def js_map_simps)
  ultimately show ?thesis unfolding Let_def all[OF ok(1)] all[OF ok(2)] using pref by blast
qed

text \<open>C21. A ring is determined by its node table: points are always sorted, every node of the table
  has exactly its \<open>max 1 (round (base * weight))\<close> virtual nodes, and \<open>clone\<close> rebuilds the identical
  ring, equal hashes included.\<close>

theorem ring_canonical:
  "let r = ring_after base ops
   in ring_clone r = r \<and> sorted (map rp_hash (ring_points r)) \<and>
      totalVirtualNodeCount r = (\<Sum>n \<leftarrow> getPhysicalNodes r. virtualNodeCountFor (ring_baseVirtualNodeCount r) n)"
proof -
  have ok: "ring_ok (ring_after base ops)" by (rule ring_after_ok)
  have "length (sort_key rp_hash (node_points b m)) = (\<Sum>n \<leftarrow> map snd m. virtualNodeCountFor b n)" for b m
    by (simp add: length_concat virtual_points_length o_def)
  with ok show ?thesis unfolding Let_def
    using ring_clone_eq[OF ok] ring_points_sorted[OF ok]
    by (metis getPhysicalNodes_def ring_ok_def totalVirtualNodeCount_def)
qed

text \<open>The movement report of a node's departure counts exactly the sample keys that node owned.\<close>

theorem departure_report_exact:
  "let r = ring_after base ops; rep = analyzeKeyMovement r (removeNode n r) keys
   in km_movedCount rep = length (filter (\<lambda>k. getNode k r = Some n) keys) \<and> km_sampleSize rep = length keys \<and>
      km_movedRatio rep * of_nat (length keys) = of_nat (km_movedCount rep)"
proof -
  let ?r = "ring_after base ops"
  have ok: "ring_ok ?r" "ring_ok (removeNode n ?r)" by (rule ring_after_ok, rule ring_ok_remove[OF ring_after_ok])
  have moved: "getNode k ?r \<noteq> getNode k (removeNode n ?r) \<longleftrightarrow> getNode k ?r = Some n" for k
    unfolding getNode_preference[OF ok(1)] getNode_preference[OF ok(2)] preference_remove
  proof (cases "preference k ?r")
    case (Cons a as)
    moreover have "distinct (preference k ?r)" by (simp add: preference_def)
    ultimately show "((case preference k ?r of [] \<Rightarrow> None | n # _ \<Rightarrow> Some n) \<noteq>
        (case removeAll n (preference k ?r) of [] \<Rightarrow> None | n # _ \<Rightarrow> Some n)) =
      ((case preference k ?r of [] \<Rightarrow> None | n # _ \<Rightarrow> Some n) = Some n)"
      by (cases "a = n"; cases as) auto
  qed simp
  have cnt: "fold (\<lambda>key m. if P key then m + 1 else m) ks c = c + length (filter P ks)" for P ks and c :: nat
    by (induction ks arbitrary: c) auto
  show ?thesis unfolding Let_def analyzeKeyMovement_def moved cnt by simp
qed

end
