(* ===== verification/Gateway.thy ===== *)
theory Gateway
  imports Ring
begin

text \<open>
  \<open>apps/gateway\<close>: the HTTP client for cache nodes, request routing with failover, the cache and
  cluster routes and the health tracker.  \<open>fetch\<close> is code outside the repository: it is a parameter
  that maps a request, a node and the state \<open>'w\<close> of the outside world to an outcome and the next
  state.  JSON values are a type parameter; \<open>decodeURIComponent\<close> is a parameter \<open>decode\<close>, a partial function
  (defined in \<open>Uri\<close>).
  A request is one transition; a health poll is split into its start, which captures the node, and
  its completion, so that overlapping polls are interleavings of completions.
\<close>

section \<open>CacheNodeClient.ts\<close>

text \<open>The fields of a PUT body as the gateway and the node see them: a \<open>key\<close> that may be missing or
  not a string (\<open>None\<close>), a \<open>value\<close> that may be missing, and the raw \<open>ttlMs\<close>.\<close>

datatype raw_ttl = TtlUndefined | TtlNull | TtlNumber int | TtlOther

record 'v PutRequestBody =
  pb_key :: "string option"
  pb_value :: "'v option"
  pb_ttlMs :: raw_ttl

datatype 'v http_request =
    GetKey string
  | PutBody "'v PutRequestBody"
  | DeleteKey string
  | GetMetrics
  | GetHealth

text \<open>\<open>fetch\<close> rejects (network failure or abort on timeout) or resolves to a response whose body may
  or may not parse as JSON.\<close>

datatype 'j http_outcome = FetchRejected | Response nat "unit + 'j"

type_synonym ('v, 'j, 'w) fetch_fun = "'v http_request \<Rightarrow> NodeInfo \<Rightarrow> 'w \<Rightarrow> 'j http_outcome \<times> 'w"

definition response_ok :: "nat \<Rightarrow> bool" where
  "response_ok status \<longleftrightarrow> 200 \<le> status \<and> status \<le> 299"

definition DEFAULT_TIMEOUT_MS :: nat where "DEFAULT_TIMEOUT_MS = 5000"

definition baseUrlFor :: "NodeInfo \<Rightarrow> string" where
  "baseUrlFor node = ''http://'' @ ni_host node @ '':'' @ show_nat (ni_port node)"

text \<open>The shared shape of the client's calls: a rejected fetch and an unsuccessful status become
  \<open>NodeUnavailableError\<close>, a body that does not parse rethrows the parser's error.\<close>

definition json_of :: "unit + 'j \<Rightarrow> 'j result" where
  "json_of body = (case body of Inl _ \<Rightarrow> Inl (PlainError ''Unexpected token in JSON'') | Inr j \<Rightarrow> Inr j)"

definition client_call :: "('v, 'j, 'w) fetch_fun \<Rightarrow> 'v http_request \<Rightarrow> (nat \<Rightarrow> FlowCacheError option) \<Rightarrow>
    NodeInfo \<Rightarrow> 'w \<Rightarrow> 'j result \<times> 'w" where
  "client_call fetch req special node w =
     (let (outcome, w') = fetch req node w
      in (case outcome of
            FetchRejected \<Rightarrow> Inl (FlowCache (NodeUnavailableError (ni_nodeId node)))
          | Response status body \<Rightarrow>
              (case special status of
                 Some e \<Rightarrow> Inl (FlowCache e)
               | None \<Rightarrow> if \<not> response_ok status then Inl (FlowCache (NodeUnavailableError (ni_nodeId node)))
                         else json_of body), w'))"

definition client_get :: "('v, 'j, 'w) fetch_fun \<Rightarrow> string \<Rightarrow> NodeInfo \<Rightarrow> 'w \<Rightarrow> 'j result \<times> 'w" where
  "client_get fetch key =
     client_call fetch (GetKey key) (\<lambda>status. if status = 404 then Some (KeyNotFoundError key) else None)"

definition client_put :: "('v, 'j, 'w) fetch_fun \<Rightarrow> 'v PutRequestBody \<Rightarrow> NodeInfo \<Rightarrow> 'w \<Rightarrow> 'j result \<times> 'w" where
  "client_put fetch body = client_call fetch (PutBody body) (\<lambda>_. None)"

definition client_delete :: "('v, 'j, 'w) fetch_fun \<Rightarrow> string \<Rightarrow> NodeInfo \<Rightarrow> 'w \<Rightarrow> 'j result \<times> 'w" where
  "client_delete fetch key = client_call fetch (DeleteKey key) (\<lambda>_. None)"

definition client_getMetrics :: "('v, 'j, 'w) fetch_fun \<Rightarrow> NodeInfo \<Rightarrow> 'w \<Rightarrow> 'j result \<times> 'w" where
  "client_getMetrics fetch = client_call fetch GetMetrics (\<lambda>_. None)"

definition client_getHealth :: "('v, 'j, 'w) fetch_fun \<Rightarrow> NodeInfo \<Rightarrow> 'w \<Rightarrow> 'j result \<times> 'w" where
  "client_getHealth fetch = client_call fetch GetHealth (\<lambda>_. None)"

section \<open>Routing with failover (cacheRoutes.ts)\<close>

definition FAILOVER_CANDIDATE_COUNT :: nat where "FAILOVER_CANDIDATE_COUNT = 3"

fun is_key_not_found :: "thrown \<Rightarrow> bool" where
  "is_key_not_found (FlowCache (KeyNotFoundError _)) = True"
| "is_key_not_found _ = False"

definition failover_candidates :: "ConsistentHashRing \<Rightarrow> nat \<Rightarrow> CacheKey \<Rightarrow> NodeInfo list" where
  "failover_candidates r n key =
     filter (\<lambda>node. ni_status node \<noteq> DEAD)
       (List.map_filter (\<lambda>i. getNodeInfo i r) (getNodesForKey key n r))"

fun try_candidates :: "(NodeInfo \<Rightarrow> 'w \<Rightarrow> 'a result \<times> 'w) \<Rightarrow> thrown \<Rightarrow> NodeInfo list \<Rightarrow> 'w \<Rightarrow> 'a result \<times> 'w" where
  "try_candidates action lastError [] w = (Inl lastError, w)"
| "try_candidates action lastError (node # nodes) w =
     (case action node w of
        (Inr v, w') \<Rightarrow> (Inr v, w')
      | (Inl e, w') \<Rightarrow> if is_key_not_found e then (Inl e, w') else try_candidates action e nodes w')"

definition forwardWithFailover :: "ConsistentHashRing \<Rightarrow> nat \<Rightarrow> CacheKey \<Rightarrow>
    (NodeInfo \<Rightarrow> 'w \<Rightarrow> 'a result \<times> 'w) \<Rightarrow> 'w \<Rightarrow> 'a result \<times> 'w" where
  "forwardWithFailover r n key action w =
     (let candidates = failover_candidates r n key
      in if length candidates = 0 then (Inl (FlowCache NoHealthyNodesError), w)
         else try_candidates action (FlowCache NoHealthyNodesError) candidates w)"

text \<open>An HTTP response: the success body or what \<open>errorHandlerMiddleware\<close> makes of the error.\<close>

datatype 'j http_response = Ok200 'j | ErrorReply error_response

definition respond :: "'j result \<Rightarrow> 'j http_response" where
  "respond r = (case r of Inr j \<Rightarrow> Ok200 j | Inl e \<Rightarrow> ErrorReply (toErrorResponse e))"

fun reply_status :: "'j http_response \<Rightarrow> nat" where
  "reply_status (Ok200 _) = 200"
| "reply_status (ErrorReply e) = er_status e"

definition decodeCacheKeyParam :: "(string \<Rightarrow> string option) \<Rightarrow> string \<Rightarrow> string result" where
  "decodeCacheKeyParam decode raw =
     (case decode raw of
        Some key \<Rightarrow> Inr key
      | None \<Rightarrow> Inl (FlowCache (ValidationError (''Malformed key in URL: '' @ quoted raw))))"

definition gateway_get :: "('v, 'j, 'w) fetch_fun \<Rightarrow> (string \<Rightarrow> string option) \<Rightarrow> ConsistentHashRing \<Rightarrow> string \<Rightarrow>
    'w \<Rightarrow> 'j http_response \<times> 'w" where
  "gateway_get fetch decode r raw w =
     (case decodeCacheKeyParam decode raw of
        Inl e \<Rightarrow> (respond (Inl e), w)
      | Inr key \<Rightarrow>
          (let (res, w') = forwardWithFailover r FAILOVER_CANDIDATE_COUNT key (client_get fetch key) w
           in (respond res, w')))"

definition gateway_put :: "('v, 'j, 'w) fetch_fun \<Rightarrow> ConsistentHashRing \<Rightarrow> 'v PutRequestBody option \<Rightarrow>
    'w \<Rightarrow> 'j http_response \<times> 'w" where
  "gateway_put fetch r requestBody w =
     (case requestBody of
        None \<Rightarrow> (respond (Inl (FlowCache (ValidationError ''Request body must include a non-empty string \"key\"''))), w)
      | Some body \<Rightarrow>
          (case pb_key body of
             None \<Rightarrow> (respond (Inl (FlowCache (ValidationError ''Request body must include a non-empty string \"key\"''))), w)
           | Some key \<Rightarrow>
               if length key = 0
               then (respond (Inl (FlowCache (ValidationError ''Request body must include a non-empty string \"key\"''))), w)
               else if pb_value body = None
               then (respond (Inl (FlowCache (ValidationError ''Request body must include a \"value\" field''))), w)
               else (let (res, w') = forwardWithFailover r FAILOVER_CANDIDATE_COUNT key (client_put fetch body) w
                     in (respond res, w'))))"

definition gateway_delete :: "('v, 'j, 'w) fetch_fun \<Rightarrow> (string \<Rightarrow> string option) \<Rightarrow> ConsistentHashRing \<Rightarrow> string \<Rightarrow>
    'w \<Rightarrow> 'j http_response \<times> 'w" where
  "gateway_delete fetch decode r raw w =
     (case decodeCacheKeyParam decode raw of
        Inl e \<Rightarrow> (respond (Inl e), w)
      | Inr key \<Rightarrow>
          (let (res, w') = forwardWithFailover r FAILOVER_CANDIDATE_COUNT key (client_delete fetch key) w
           in (respond res, w')))"

section \<open>clusterRoutes.ts\<close>

record ClusterView =
  cv_nodes :: "NodeInfo list"
  cv_ring :: "RingAssignment list"
  cv_virtualNodesPerNode :: nat
  cv_totalKeys :: nat

definition gateway_cluster :: "ConsistentHashRing \<Rightarrow> ClusterView" where
  "gateway_cluster r =
     (let nodes = getPhysicalNodes r; ring = getRingSnapshot r
      in \<lparr>cv_nodes = nodes, cv_ring = ring,
          cv_virtualNodesPerNode =
            (if length nodes > 0 then nat \<lfloor>of_nat (length ring) / of_nat (length nodes) + 1 / (2::rat)\<rfloor> else 0),
          cv_totalKeys = 0\<rparr>)"

section \<open>NodeHealthTracker.ts and the constructor of GatewayServer.ts\<close>

record StaticNodeEntry =
  sn_nodeId :: string
  sn_host :: string
  sn_port :: nat
  sn_weight :: rat

definition node_of_static :: "NodeStatus \<Rightarrow> time \<Rightarrow> StaticNodeEntry \<Rightarrow> NodeInfo" where
  "node_of_static status now node =
     \<lparr>ni_nodeId = sn_nodeId node, ni_host = sn_host node, ni_port = sn_port node, ni_status = status,
      ni_lastHeartbeat = now, ni_weight = sn_weight node\<rparr>"

record HealthOptions =
  ho_suspectAfterMisses :: nat
  ho_deadAfterMisses :: nat

record NodeHealthTracker =
  ht_missCounts :: "(string, nat) js_map"
  ht_timer :: bool

record GatewayServer =
  gw_ring :: ConsistentHashRing
  gw_tracker :: NodeHealthTracker

definition new_GatewayServer :: "nat \<Rightarrow> time \<Rightarrow> StaticNodeEntry list \<Rightarrow> GatewayServer" where
  "new_GatewayServer virtualNodeCount now staticNodes =
     \<lparr>gw_ring = fold (\<lambda>node r. snd (addNode (node_of_static JOINING now node) r)) staticNodes
                  (new_ConsistentHashRing (Some virtualNodeCount)),
      gw_tracker = \<lparr>ht_missCounts = [], ht_timer = False\<rparr>\<rparr>"

definition tracker_start :: "GatewayServer \<Rightarrow> GatewayServer" where
  "tracker_start g = g\<lparr>gw_tracker := (gw_tracker g)\<lparr>ht_timer := True\<rparr>\<rparr>"

definition tracker_stop :: "GatewayServer \<Rightarrow> GatewayServer" where
  "tracker_stop g = g\<lparr>gw_tracker := (gw_tracker g)\<lparr>ht_timer := False\<rparr>\<rparr>"

text \<open>\<open>pollOne\<close> after its \<open>await\<close>: \<open>node\<close> is the record captured when the poll started, \<open>health\<close>
  the status string of the answer or the error of the call.\<close>

definition pollOne :: "HealthOptions \<Rightarrow> time \<Rightarrow> NodeInfo \<Rightarrow> string result \<Rightarrow> GatewayServer \<Rightarrow> GatewayServer" where
  "pollOne opts now node health g =
     (case health of
        Inr st \<Rightarrow>
          (let tr = (gw_tracker g)\<lparr>ht_missCounts := js_set (ni_nodeId node) 0 (ht_missCounts (gw_tracker g))\<rparr>;
               status = (if st = ''DEAD'' then SUSPECT else HEALTHY)
           in g\<lparr>gw_tracker := tr, gw_ring := updateNodeStatus (ni_nodeId node) status now (gw_ring g)\<rparr>)
      | Inl err \<Rightarrow>
          (let misses = (case js_get (ht_missCounts (gw_tracker g)) (ni_nodeId node) of None \<Rightarrow> 0 | Some m \<Rightarrow> m) + 1;
               tr = (gw_tracker g)\<lparr>ht_missCounts := js_set (ni_nodeId node) misses (ht_missCounts (gw_tracker g))\<rparr>;
               status = (if misses \<ge> ho_deadAfterMisses opts then DEAD
                         else if misses \<ge> ho_suspectAfterMisses opts then SUSPECT
                         else ni_status node)
           in g\<lparr>gw_tracker := tr,
                gw_ring := updateNodeStatus (ni_nodeId node) status (ni_lastHeartbeat node) (gw_ring g)\<rparr>))"

text \<open>One poll of a node with no other poll in between: the node is read from the ring and answered.\<close>

definition poll_node :: "HealthOptions \<Rightarrow> time \<Rightarrow> string \<Rightarrow> string result \<Rightarrow> GatewayServer \<Rightarrow> GatewayServer" where
  "poll_node opts now n health g =
     (case getNodeInfo n (gw_ring g) of None \<Rightarrow> g | Some node \<Rightarrow> pollOne opts now node health g)"

section \<open>Failover\<close>

lemma failover_candidates_live:
  "node \<in> set (failover_candidates r n key) \<Longrightarrow> ni_status node \<noteq> DEAD \<and> (\<exists>i. getNodeInfo i r = Some node)"
  by (auto simp: failover_candidates_def List.map_filter_def)

text \<open>The state of the world after a list of candidates has been tried.\<close>

definition after_tries :: "(NodeInfo \<Rightarrow> 'w \<Rightarrow> 'a result \<times> 'w) \<Rightarrow> NodeInfo list \<Rightarrow> 'w \<Rightarrow> 'w" where
  "after_tries action nodes w = fold (\<lambda>node w. snd (action node w)) nodes w"

definition node_failure :: "'a result \<Rightarrow> bool" where
  "node_failure r \<longleftrightarrow> (case r of Inl e \<Rightarrow> \<not> is_key_not_found e | Inr _ \<Rightarrow> False)"

lemma try_candidates_split:
  "\<exists>k \<le> length nodes.
     (\<forall>i < k. node_failure (fst (action (nodes ! i) (after_tries action (take i nodes) w)))) \<and>
     (if k < length nodes
      then \<not> node_failure (fst (action (nodes ! k) (after_tries action (take k nodes) w))) \<and>
           try_candidates action err nodes w = action (nodes ! k) (after_tries action (take k nodes) w)
      else \<exists>e. try_candidates action err nodes w = (Inl e, after_tries action nodes w) \<and>
             (if nodes = [] then e = err
              else fst (action (last nodes) (after_tries action (butlast nodes) w)) = Inl e))"
proof (induction nodes arbitrary: w err)
  case Nil
  then show ?case by (simp add: after_tries_def)
next
  case (Cons node nodes)
  obtain res w1 where act: "action node w = (res, w1)" by (cases "action node w")
  show ?case
  proof (cases "node_failure res")
    case False
    then have "try_candidates action err (node # nodes) w = (res, w1)"
      using act by (auto simp: node_failure_def split: sum.splits)
    with act False show ?thesis by (intro exI[of _ 0]) (simp add: after_tries_def)
  next
    case True
    then obtain e where e: "res = Inl e" "\<not> is_key_not_found e"
      by (auto simp: node_failure_def split: sum.splits)
    then have step: "try_candidates action err (node # nodes) w = try_candidates action e nodes w1"
      using act by simp
    have after: "after_tries action (node # xs) w = after_tries action xs w1" for xs
      using act by (simp add: after_tries_def)
    obtain k where k: "k \<le> length nodes"
      "\<forall>i < k. node_failure (fst (action (nodes ! i) (after_tries action (take i nodes) w1)))"
      "if k < length nodes
       then \<not> node_failure (fst (action (nodes ! k) (after_tries action (take k nodes) w1))) \<and>
            try_candidates action e nodes w1 = action (nodes ! k) (after_tries action (take k nodes) w1)
       else \<exists>e'. try_candidates action e nodes w1 = (Inl e', after_tries action nodes w1) \<and>
              (if nodes = [] then e' = e
               else fst (action (last nodes) (after_tries action (butlast nodes) w1)) = Inl e')"
      using Cons.IH[of w1 e] by blast
    have first: "node_failure (fst (action ((node # nodes) ! i) (after_tries action (take i (node # nodes)) w)))"
      if "i < Suc k" for i
      using that k(2) True act by (cases i) (simp_all add: after, simp add: after_tries_def)
    show ?thesis
    proof (intro exI[of _ "Suc k"] conjI)
      show "Suc k \<le> length (node # nodes)" using k(1) by simp
      show "\<forall>i < Suc k. node_failure (fst (action ((node # nodes) ! i) (after_tries action (take i (node # nodes)) w)))"
        using first by blast
    qed (use k(3) e act in \<open>auto simp: step after after_tries_def[of _ "[]"] split: if_splits\<close>)
  qed
qed

text \<open>The candidates are the first nodes clockwise from the key's hash, without the DEAD ones.\<close>

lemma failover_candidates_clockwise:
  assumes "ring_ok r"
  shows "failover_candidates r n key = List.map_filter (\<lambda>i. case js_get (ring_nodes r) i of
      Some node \<Rightarrow> if ni_status node = DEAD then None else Some node | None \<Rightarrow> None) (take n (preference key r))"
proof -
  have "filter (\<lambda>node. ni_status node \<noteq> DEAD) (List.map_filter (js_get (ring_nodes r)) is) = List.map_filter (\<lambda>i. case js_get (ring_nodes r) i of
      Some node \<Rightarrow> if ni_status node = DEAD then None else Some node | None \<Rightarrow> None) is" for "is"
    by (induction "is") (auto simp: List.map_filter_simps split: option.split)
  then show ?thesis by (simp add: failover_candidates_def getNodesForKey_preference[OF assms] getNodeInfo_def)
qed

text \<open>C18. Failover is transparent and orderly on every ring that membership and health changes can produce.
  Walk the ring's points clockwise from the key's hash, take the first \<open>n\<close> distinct nodes and leave out the
  DEAD ones: these candidates are tried in this order, each seeing the world the earlier attempts left.  The
  answer is that of the first candidate that succeeds or reports the key missing, all earlier ones having
  failed; when all fail it is the last error, and with no live candidate nothing is contacted.\<close>

theorem forwardWithFailover_correct:
  "let r = ring_after base ops;
       order = map rp_nodeId (filter (\<lambda>p. ringHash key \<le> rp_hash p) (ring_points r) @
                              filter (\<lambda>p. rp_hash p < ringHash key) (ring_points r));
       cs = List.map_filter (\<lambda>i. case js_get (ring_nodes r) i of
              Some node \<Rightarrow> if ni_status node = DEAD then None else Some node | None \<Rightarrow> None) (take n (uniq order))
   in if cs = [] then forwardWithFailover r n key action w = (Inl (FlowCache NoHealthyNodesError), w)
      else \<exists>k \<le> length cs.
         (\<forall>i < k. node_failure (fst (action (cs ! i) (after_tries action (take i cs) w)))) \<and>
         (if k < length cs
          then \<not> node_failure (fst (action (cs ! k) (after_tries action (take k cs) w))) \<and>
               forwardWithFailover r n key action w = action (cs ! k) (after_tries action (take k cs) w)
          else \<exists>e. forwardWithFailover r n key action w = (Inl e, after_tries action cs w) \<and>
                 fst (action (last cs) (after_tries action (butlast cs) w)) = Inl e)"
proof -
  let ?r = "ring_after base ops"
  let ?cs = "failover_candidates ?r n key"
  note cs = failover_candidates_clockwise[OF ring_after_ok[of ops base], of n key, unfolded preference_def clockwise_def, symmetric]
  show ?thesis
  proof (cases "?cs = []")
    case True
    then show ?thesis unfolding Let_def cs by (simp add: forwardWithFailover_def Let_def)
  next
    case False
    then have fwd: "forwardWithFailover ?r n key action w = try_candidates action (FlowCache NoHealthyNodesError) ?cs w"
      by (simp add: forwardWithFailover_def Let_def)
    show ?thesis unfolding Let_def cs fwd
      using False try_candidates_split[of ?cs action w "FlowCache NoHealthyNodesError"] by (simp only: if_False simp_thms)
  qed
qed

definition demo_node :: "string \<Rightarrow> NodeInfo" where
  "demo_node n = \<lparr>ni_nodeId = n, ni_host = n, ni_port = 4001, ni_status = HEALTHY, ni_lastHeartbeat = 0, ni_weight = 1\<rparr>"

definition demo_ring :: ConsistentHashRing where
  "demo_ring = fold (\<lambda>n r. snd (addNode (demo_node n) r)) [''n1'', ''n2''] (new_ConsistentHashRing (Some 1))"

lemma demo_node_fields [simp]: "ni_nodeId (demo_node n) = n" "ni_status (demo_node n) = HEALTHY"
  by (simp_all add: demo_node_def)

lemma demo_ring_ok: "ring_ok demo_ring"
  "ring_nodes demo_ring = [(''n1'', demo_node ''n1''), (''n2'', demo_node ''n2'')]"
  "getNodeInfo ''n1'' demo_ring = Some (demo_node ''n1'')"
proof -
  let ?e = "new_ConsistentHashRing (Some 1)"
  let ?r = "snd (addNode (demo_node ''n1'') ?e)"
  have ok: "ring_ok ?r" by (rule ring_ok_add(1)[OF ring_ok_new])
  have eq: "demo_ring = snd (addNode (demo_node ''n2'') ?r)" by (simp add: demo_ring_def)
  have e: "ring_nodes ?e = []" by (simp add: new_ConsistentHashRing_def)
  have n1: "ring_nodes ?r = [(''n1'', demo_node ''n1'')]"
    by (subst addNode_new(2)[OF ring_ok_new]) (simp_all only: e demo_node_fields list.set image_empty empty_iff not_False_eq_True append_Nil)
  show n2: "ring_nodes demo_ring = [(''n1'', demo_node ''n1''), (''n2'', demo_node ''n2'')]"
    unfolding eq by (subst addNode_new(2)[OF ok]) (simp_all add: n1 del: One_nat_def)
  show "ring_ok demo_ring" unfolding eq by (rule ring_ok_add(1)[OF ok])
  show "getNodeInfo ''n1'' demo_ring = Some (demo_node ''n1'')" by (simp add: getNodeInfo_def n2)
qed

lemma zero_digit: "(char_of (48::nat) :: char) = CHR ''0''"
  by code_simp

lemma demo_hashes: "ringHash ''k'' = 3419439998" "ringHash ''n1#0'' = 2506126099" "ringHash ''n2#0'' = 2936427275"
  by (simp_all add: ringHash_def fnv1a32_def djb2_def Let_def FNV_PRIME_def FNV_OFFSET_BASIS_def)

lemma demo_points: "ring_points demo_ring =
    [\<lparr>rp_hash = 2506126099, rp_nodeId = ''n1'', rp_virtualIndex = 0\<rparr>, \<lparr>rp_hash = 2936427275, rp_nodeId = ''n2'', rp_virtualIndex = 0\<rparr>]"
  by (simp add: demo_ring_def addNode_def new_ConsistentHashRing_def Let_def js_has_def removeNode_def virtual_points_def
      virtualNodeCountFor_def demo_node_def show_nat.simps zero_digit demo_hashes)

lemma demo_owners: "getNodesForKey ''k'' (Suc (Suc n)) demo_ring = [''n1'', ''n2'']"
  by (simp add: getNodesForKey_preference[OF demo_ring_ok(1)] preference_def clockwise_def demo_points demo_hashes uniq_def set_add_def)

lemma demo_failover: "failover_candidates demo_ring FAILOVER_CANDIDATE_COUNT ''k'' = [demo_node ''n1'', demo_node ''n2'']"
  by (simp add: failover_candidates_def FAILOVER_CANDIDATE_COUNT_def numeral_3_eq_3 demo_owners List.map_filter_def getNodeInfo_def
      demo_ring_ok(2))

lemma demo_ring_after: "demo_ring = ring_after (Some 1) [RingAdd (demo_node ''n1''), RingAdd (demo_node ''n2'')]"
  by (simp add: demo_ring_def)

text \<open>The first candidate is down, the second answers.\<close>

definition demo_action :: "NodeInfo \<Rightarrow> nat \<Rightarrow> string result \<times> nat" where
  "demo_action node w =
     (if ni_nodeId node = ''n1'' then (Inl (FlowCache (NodeUnavailableError ''n1'')), w + 1) else (Inr (ni_nodeId node), w + 1))"

theorem forwardWithFailover_correct_witness: "forwardWithFailover demo_ring 2 ''k'' demo_action 0 = (Inr ''n2'', 2)"
proof -
  have order: "uniq (map rp_nodeId (filter (\<lambda>p. ringHash ''k'' \<le> rp_hash p) (ring_points demo_ring) @
      filter (\<lambda>p. rp_hash p < ringHash ''k'') (ring_points demo_ring))) = [''n1'', ''n2'']"
    by (simp add: demo_points demo_hashes uniq_def set_add_def)
  define xs where "xs = [demo_node ''n1'', demo_node ''n2'']"
  have cs: "List.map_filter (\<lambda>i. case js_get (ring_nodes demo_ring) i of
      Some node \<Rightarrow> if ni_status node = DEAD then None else Some node | None \<Rightarrow> None) (take 2 [''n1'', ''n2'']) = xs"
    by (simp add: demo_ring_ok(2) List.map_filter_simps xs_def)
  have fails: "node_failure (fst (demo_action (demo_node ''n1'') w))" "\<not> node_failure (fst (demo_action (demo_node ''n2'') w))" for w
    by (simp_all add: demo_action_def node_failure_def)
  have "xs \<noteq> []" by (simp add: xs_def)
  with forwardWithFailover_correct[where base = "Some 1" and ops = "[RingAdd (demo_node ''n1''), RingAdd (demo_node ''n2'')]" and key = "''k''" and
      n = 2 and action = demo_action and w = 0, folded demo_ring_after, unfolded Let_def order cs]
  obtain k where k: "k \<le> length xs" "\<forall>i < k. node_failure (fst (demo_action (xs ! i) (after_tries demo_action (take i xs) 0)))"
    "k < length xs \<Longrightarrow> \<not> node_failure (fst (demo_action (xs ! k) (after_tries demo_action (take k xs) 0))) \<and>
      forwardWithFailover demo_ring 2 ''k'' demo_action 0 = demo_action (xs ! k) (after_tries demo_action (take k xs) 0)"
    by (metis (no_types, lifting))
  have "\<not> 1 < k" using k(2) fails(2) by (auto simp: xs_def)
  moreover have "k \<noteq> 0"
  proof
    assume "k = 0"
    with k(3) fails(1) show False by (simp add: xs_def)
  qed
  ultimately have "k = 1" by linarith
  with k(3) show ?thesis by (simp add: xs_def demo_action_def after_tries_def)
qed

text \<open>C30. A node's rejection of a PUT is not passed on: when every node answers a well-formed
  gateway PUT with status 400 (say, for an invalid \<open>ttlMs\<close>, which the gateway does not check), the
  gateway retries all candidates and the client receives 503.\<close>

theorem put_rejection_becomes_503:
  assumes "pb_key body = Some key" and "key \<noteq> []" and "pb_value body \<noteq> None"
    and "failover_candidates r FAILOVER_CANDIDATE_COUNT key \<noteq> []"
  shows "let (reply, w') = gateway_put (\<lambda>_ _ w. (Response 400 b, w + 1)) r (Some body) w
    in reply_status reply = 503 \<and> w' = w + length (failover_candidates r FAILOVER_CANDIDATE_COUNT key)"
proof -
  let ?f = "\<lambda>_ _ w. (Response 400 b, Suc w)"
  have put: "client_put ?f body node v = (Inl (FlowCache (NodeUnavailableError (ni_nodeId node))), Suc v)" for node v
    by (simp add: client_put_def client_call_def response_ok_def)
  have tries: "nodes \<noteq> [] \<Longrightarrow> \<exists>n. try_candidates (client_put ?f body) err nodes v =
      (Inl (FlowCache (NodeUnavailableError n)), v + length nodes)" for nodes err v
  proof (induction nodes arbitrary: err v)
    case (Cons node nodes)
    let ?e = "FlowCache (NodeUnavailableError (ni_nodeId node))"
    have "try_candidates (client_put ?f body) err (node # nodes) v = try_candidates (client_put ?f body) ?e nodes (Suc v)"
      by (simp add: put)
    then show ?case using Cons.IH[of ?e "Suc v"] by (cases "nodes = []") auto
  qed simp
  obtain n where "forwardWithFailover r FAILOVER_CANDIDATE_COUNT key (client_put ?f body) w =
      (Inl (FlowCache (NodeUnavailableError n)), w + length (failover_candidates r FAILOVER_CANDIDATE_COUNT key))"
    using tries[OF assms(4)] assms(4) by (auto simp: forwardWithFailover_def Let_def)
  with assms(1-3) show ?thesis by (simp add: gateway_put_def respond_def)
qed

lemma demo_candidates: "failover_candidates demo_ring (Suc n) ''k'' \<noteq> []"
proof -
  have keys: "set (preference ''k'' demo_ring) = {''n1'', ''n2''}"
    using preference_set[OF demo_ring_ok(1)] by (simp add: demo_ring_ok(2))
  then obtain m ms where p: "preference ''k'' demo_ring = m # ms" by (cases "preference ''k'' demo_ring") auto
  with keys have "m = ''n1'' \<or> m = ''n2''" by auto
  then have "getNodeInfo m demo_ring = Some (demo_node m)" by (auto simp: getNodeInfo_def demo_ring_ok(2))
  then show ?thesis
    by (simp add: failover_candidates_def getNodesForKey_preference[OF demo_ring_ok(1)] p List.map_filter_def)
qed

theorem put_rejection_becomes_503_witness:
  "let body = \<lparr>pb_key = Some ''k'', pb_value = Some (1::nat), pb_ttlMs = TtlNumber (-5)\<rparr>;
       (reply, w') = gateway_put (\<lambda>_ _ w. (Response 400 (Inr ''error''), w + 1)) demo_ring (Some body) 0
   in reply_status reply = 503 \<and> w' = length (failover_candidates demo_ring FAILOVER_CANDIDATE_COUNT ''k'')"
  using put_rejection_becomes_503[of "\<lparr>pb_key = Some ''k'', pb_value = Some (1::nat), pb_ttlMs = TtlNumber (-5)\<rparr>"
      "''k''" demo_ring "Inr ''error''" 0] demo_candidates[of 2]
  by (simp add: Let_def FAILOVER_CANDIDATE_COUNT_def numeral_3_eq_3)

section \<open>Health tracking\<close>

lemma updateNodeStatus_info:
  assumes "getNodeInfo n r = Some node"
  shows "getNodeInfo m (updateNodeStatus n st t r) =
    (if m = n then Some (node\<lparr>ni_status := st, ni_lastHeartbeat := t\<rparr>) else getNodeInfo m r)"
  using assms by (simp add: getNodeInfo_def updateNodeStatus_def js_map_simps)

lemma updateNodeStatus_points [simp]: "ring_points (updateNodeStatus n st t r) = ring_points r"
  by (simp add: updateNodeStatus_def split: option.split)

lemma getNodesForKey_points: "ring_points r = ring_points q \<Longrightarrow> getNodesForKey key c r = getNodesForKey key c q"
  by (simp only: getNodesForKey_def successorIndex_def)

definition node_status :: "string \<Rightarrow> GatewayServer \<Rightarrow> NodeStatus option" where
  "node_status n g = map_option ni_status (getNodeInfo n (gw_ring g))"

definition miss_count :: "string \<Rightarrow> GatewayServer \<Rightarrow> nat" where
  "miss_count n g = (case js_get (ht_missCounts (gw_tracker g)) n of None \<Rightarrow> 0 | Some m \<Rightarrow> m)"

lemma ring_node_id: "ring_ok r \<Longrightarrow> getNodeInfo n r = Some node \<Longrightarrow> ni_nodeId node = n"
  by (force simp: ring_ok_def getNodeInfo_def dest: map_of_SomeD)

lemma poll_failure:
  assumes "ring_ok (gw_ring g)" and "getNodeInfo n (gw_ring g) = Some node"
  shows "let g' = poll_node opts now n (Inl e) g
    in ring_ok (gw_ring g') \<and> miss_count n g' = miss_count n g + 1 \<and>
       (\<exists>node'. getNodeInfo n (gw_ring g') = Some node' \<and> ni_status node' =
         (if miss_count n g + 1 \<ge> ho_deadAfterMisses opts then DEAD
          else if miss_count n g + 1 \<ge> ho_suspectAfterMisses opts then SUSPECT else ni_status node)) \<and>
       ring_points (gw_ring g') = ring_points (gw_ring g)"
  using assms ring_node_id[OF assms]
  by (auto simp: poll_node_def pollOne_def Let_def miss_count_def js_map_simps ring_ok_update updateNodeStatus_info)

lemma poll_success:
  assumes "ring_ok (gw_ring g)" and "getNodeInfo n (gw_ring g) = Some node"
  shows "let g' = poll_node opts now n (Inr st) g
    in ring_ok (gw_ring g') \<and> miss_count n g' = 0 \<and>
       node_status n g' = Some (if st = ''DEAD'' then SUSPECT else HEALTHY) \<and>
       ring_points (gw_ring g') = ring_points (gw_ring g)"
  using assms ring_node_id[OF assms]
  by (auto simp: poll_node_def pollOne_def Let_def miss_count_def js_map_simps ring_ok_update
      updateNodeStatus_info node_status_def)

lemma failures_progress:
  assumes "ring_ok (gw_ring g)" and "getNodeInfo n (gw_ring g) = Some node"
    and "ho_suspectAfterMisses opts \<le> ho_deadAfterMisses opts"
    and "miss_count n g < ho_suspectAfterMisses opts"
  shows "let g' = fold (\<lambda>(t, e). poll_node opts t n (Inl e)) fs g; m = miss_count n g + length fs
    in ring_ok (gw_ring g') \<and> miss_count n g' = m \<and>
       node_status n g' = Some (if m \<ge> ho_deadAfterMisses opts then DEAD
         else if m \<ge> ho_suspectAfterMisses opts then SUSPECT else ni_status node) \<and>
       ring_points (gw_ring g') = ring_points (gw_ring g)"
proof (induction fs rule: rev_induct)
  case Nil
  then show ?case using assms by (simp add: node_status_def)
next
  case (snoc f fs)
  obtain t e where f: "f = (t, e)" by (cases f)
  let ?g = "fold (\<lambda>(t, e). poll_node opts t n (Inl e)) fs g" and ?m = "miss_count n g + length fs"
  from snoc have ok: "ring_ok (gw_ring ?g)" and m: "miss_count n ?g = ?m"
    and st: "node_status n ?g = Some (if ?m \<ge> ho_deadAfterMisses opts then DEAD
         else if ?m \<ge> ho_suspectAfterMisses opts then SUSPECT else ni_status node)"
    and pts: "ring_points (gw_ring ?g) = ring_points (gw_ring g)" by (simp_all add: Let_def)
  from st obtain nd where nd: "getNodeInfo n (gw_ring ?g) = Some nd" by (auto simp: node_status_def)
  with st have "ni_status nd = (if ?m \<ge> ho_deadAfterMisses opts then DEAD
         else if ?m \<ge> ho_suspectAfterMisses opts then SUSPECT else ni_status node)"
    by (simp add: node_status_def)
  with poll_failure[OF ok nd, of opts t e] m pts show ?case
    by (auto simp: f Let_def node_status_def)
qed

text \<open>C23. Health tracking has the documented hysteresis: from a node with fewer than
  \<open>suspectAfterMisses\<close> recorded misses, \<open>k\<close> consecutive failed polls leave its status alone below
  that threshold, make it SUSPECT from there and DEAD from \<open>deadAfterMisses\<close>; one answered poll
  that does not report DEAD makes it HEALTHY with no misses; and no poll ever changes which nodes a key maps to.\<close>

theorem health_hysteresis:
  assumes "ring_ok (gw_ring g)" and "getNodeInfo n (gw_ring g) = Some node"
    and "ho_suspectAfterMisses opts \<le> ho_deadAfterMisses opts"
    and "miss_count n g < ho_suspectAfterMisses opts" and "st \<noteq> ''DEAD''"
  shows "let g' = fold (\<lambda>(t, e). poll_node opts t n (Inl e)) fs g; m = miss_count n g + length fs;
             g'' = poll_node opts now n (Inr st) g'
    in node_status n g' = Some (if m \<ge> ho_deadAfterMisses opts then DEAD
         else if m \<ge> ho_suspectAfterMisses opts then SUSPECT else ni_status node) \<and>
       node_status n g'' = Some HEALTHY \<and> miss_count n g'' = 0 \<and>
       getNodesForKey key c (gw_ring g'') = getNodesForKey key c (gw_ring g)"
proof -
  let ?g = "fold (\<lambda>(t, e). poll_node opts t n (Inl e)) fs g"
  note p = failures_progress[OF assms(1-4), of fs, unfolded Let_def]
  then obtain nd where nd: "getNodeInfo n (gw_ring ?g) = Some nd" by (auto simp: node_status_def)
  from poll_success[OF _ nd, of opts now st] p assms(5) show ?thesis
    by (auto simp: Let_def intro: getNodesForKey_points)
qed

definition demo_gateway :: GatewayServer where
  "demo_gateway = \<lparr>gw_ring = demo_ring, gw_tracker = \<lparr>ht_missCounts = [], ht_timer = True\<rparr>\<rparr>"

theorem health_hysteresis_witness:
  "let opts = \<lparr>ho_suspectAfterMisses = 2, ho_deadAfterMisses = 3\<rparr>; e = PlainError ''down'';
       g' = fold (\<lambda>(t, e). poll_node opts t ''n1'' (Inl e)) [(1, e), (2, e), (3, e)] demo_gateway
   in node_status ''n1'' g' = Some DEAD \<and> node_status ''n1'' (poll_node opts 4 ''n1'' (Inr ''HEALTHY'') g') = Some HEALTHY"
  using health_hysteresis[of demo_gateway "''n1''" "demo_node ''n1''" "\<lparr>ho_suspectAfterMisses = 2, ho_deadAfterMisses = 3\<rparr>"
      "''HEALTHY''" "[(1, PlainError ''down''), (2, PlainError ''down''), (3, PlainError ''down'')]" 4]
    demo_ring_ok
  by (simp add: Let_def demo_gateway_def miss_count_def)

text \<open>A node that answers its health checks by reporting itself DEAD is never taken out of
  rotation: after any number of such polls it is SUSPECT with no recorded misses, so it stays among
  the failover candidates of its keys.\<close>

theorem self_reported_dead_stays_suspect:
  assumes "ring_ok (gw_ring g)" and "getNodeInfo n (gw_ring g) = Some node" and "ts \<noteq> []"
  shows "let g' = fold (\<lambda>t. poll_node opts t n (Inr ''DEAD'')) ts g
    in node_status n g' = Some SUSPECT \<and> miss_count n g' = 0 \<and>
       (n \<in> set (getNodesForKey key c (gw_ring g)) \<longrightarrow> n \<in> ni_nodeId ` set (failover_candidates (gw_ring g') c key))"
proof -
  have "ring_ok (gw_ring (fold (\<lambda>t. poll_node opts t n (Inr ''DEAD'')) us g)) \<and>
      (us = [] \<or> node_status n (fold (\<lambda>t. poll_node opts t n (Inr ''DEAD'')) us g) = Some SUSPECT \<and>
        miss_count n (fold (\<lambda>t. poll_node opts t n (Inr ''DEAD'')) us g) = 0) \<and>
      getNodeInfo n (gw_ring (fold (\<lambda>t. poll_node opts t n (Inr ''DEAD'')) us g)) \<noteq> None \<and>
      ring_points (gw_ring (fold (\<lambda>t. poll_node opts t n (Inr ''DEAD'')) us g)) = ring_points (gw_ring g)" for us
  proof (induction us rule: rev_induct)
    case (snoc t us)
    then obtain nd where nd: "getNodeInfo n (gw_ring (fold (\<lambda>t. poll_node opts t n (Inr ''DEAD'')) us g)) = Some nd"
      by auto
    from poll_success[OF _ nd, of opts t "''DEAD''"] snoc show ?case by (auto simp: Let_def node_status_def)
  qed (use assms in simp)
  from this[of ts] assms(3) have g': "ring_ok (gw_ring (fold (\<lambda>t. poll_node opts t n (Inr ''DEAD'')) ts g))"
    "node_status n (fold (\<lambda>t. poll_node opts t n (Inr ''DEAD'')) ts g) = Some SUSPECT"
    "miss_count n (fold (\<lambda>t. poll_node opts t n (Inr ''DEAD'')) ts g) = 0"
    "ring_points (gw_ring (fold (\<lambda>t. poll_node opts t n (Inr ''DEAD'')) ts g)) = ring_points (gw_ring g)" by auto
  let ?g = "fold (\<lambda>t. poll_node opts t n (Inr ''DEAD'')) ts g"
  obtain nd where nd: "getNodeInfo n (gw_ring ?g) = Some nd" "ni_status nd = SUSPECT"
    using g'(2) by (auto simp: node_status_def)
  have "n \<in> set (getNodesForKey key c (gw_ring g)) \<Longrightarrow> nd \<in> set (failover_candidates (gw_ring ?g) c key)"
    unfolding getNodesForKey_points[OF g'(4)[symmetric]] using nd
    by (auto simp: failover_candidates_def List.map_filter_def image_iff intro!: bexI[of _ n])
  moreover have "ni_nodeId nd = n" by (rule ring_node_id[OF g'(1) nd(1)])
  ultimately show ?thesis unfolding Let_def using g'(2,3) by blast
qed

theorem self_reported_dead_stays_suspect_witness:
  "node_status ''n1'' (fold (\<lambda>t. poll_node \<lparr>ho_suspectAfterMisses = 2, ho_deadAfterMisses = 3\<rparr> t ''n1'' (Inr ''DEAD''))
     [1, 2, 3, 4, 5] demo_gateway) = Some SUSPECT"
  using self_reported_dead_stays_suspect[of demo_gateway "''n1''" "demo_node ''n1''" "[1, 2, 3, 4, 5]"
      "\<lparr>ho_suspectAfterMisses = 2, ho_deadAfterMisses = 3\<rparr>"] demo_ring_ok
  by (simp add: Let_def demo_gateway_def)

end
