(* ===== verification/Metrics.thy ===== *)
theory Metrics
  imports Gateway
begin

text \<open>
  \<open>packages/metrics\<close>: the rolling request rate, the latency histogram, the per-node collector and the
  cluster-wide aggregation that the gateway's \<open>/metrics\<close> route serves.  Latencies, rates and ratios
  are exact rationals; memory limits may be infinite.
\<close>

section \<open>RateCounter.ts\<close>

record RateCounter =
  rc_timestamps :: "time RingBuffer"
  rc_windowMs :: nat

definition new_RateCounter :: "nat option \<Rightarrow> nat option \<Rightarrow> RateCounter result" where
  "new_RateCounter windowMs capacity =
     (case new_RingBuffer (case capacity of None \<Rightarrow> 20000 | Some c \<Rightarrow> c) of
        Inl e \<Rightarrow> Inl e
      | Inr rb \<Rightarrow> Inr \<lparr>rc_timestamps = rb, rc_windowMs = (case windowMs of None \<Rightarrow> 1000 | Some w \<Rightarrow> w)\<rparr>)"

definition rc_hit :: "time \<Rightarrow> RateCounter \<Rightarrow> RateCounter" where
  "rc_hit atMs r = r\<lparr>rc_timestamps := rb_push atMs (rc_timestamps r)\<rparr>"

definition rc_rate :: "time \<Rightarrow> RateCounter \<Rightarrow> rat" where
  "rc_rate now r =
     (let cutoff = now - int (rc_windowMs r);
          count = fold (\<lambda>ts count. if ts \<ge> cutoff then count + 1 else count) (rb_toArray (rc_timestamps r)) (0 :: nat)
      in of_nat count / (of_nat (rc_windowMs r) / 1000))"

definition rc_reset :: "RateCounter \<Rightarrow> RateCounter" where
  "rc_reset r = r\<lparr>rc_timestamps := rb_clear (rc_timestamps r)\<rparr>"

section \<open>LatencyHistogram.ts\<close>

record LatencyPercentiles =
  lp_p50 :: rat
  lp_p95 :: rat
  lp_p99 :: rat
  lp_max :: rat

definition DEFAULT_CAPACITY :: nat where "DEFAULT_CAPACITY = 5000"

record LatencyHistogram =
  lh_samples :: "rat RingBuffer"

definition new_LatencyHistogram :: "nat option \<Rightarrow> LatencyHistogram result" where
  "new_LatencyHistogram capacity =
     (case new_RingBuffer (case capacity of None \<Rightarrow> DEFAULT_CAPACITY | Some c \<Rightarrow> c) of
        Inl e \<Rightarrow> Inl e | Inr rb \<Rightarrow> Inr \<lparr>lh_samples = rb\<rparr>)"

definition lh_record :: "rat \<Rightarrow> LatencyHistogram \<Rightarrow> LatencyHistogram" where
  "lh_record latencyMs h = h\<lparr>lh_samples := rb_push latencyMs (lh_samples h)\<rparr>"

definition percentile :: "rat list \<Rightarrow> rat \<Rightarrow> rat" where
  "percentile sortedAscending p =
     (if length sortedAscending = 0 then 0
      else let rank = \<lceil>p * of_nat (length sortedAscending)\<rceil> - 1;
               clampedIndex = min (max rank 0) (int (length sortedAscending) - 1)
           in sortedAscending ! nat clampedIndex)"

definition lh_percentiles :: "LatencyHistogram \<Rightarrow> LatencyPercentiles" where
  "lh_percentiles h =
     (let sorted = sort (rb_toArray (lh_samples h))
      in if length sorted = 0 then \<lparr>lp_p50 = 0, lp_p95 = 0, lp_p99 = 0, lp_max = 0\<rparr>
         else \<lparr>lp_p50 = percentile sorted (1 / 2), lp_p95 = percentile sorted (95 / 100),
               lp_p99 = percentile sorted (99 / 100), lp_max = sorted ! (length sorted - 1)\<rparr>)"

definition lh_sampleCount :: "LatencyHistogram \<Rightarrow> nat" where
  "lh_sampleCount h = rb_length (lh_samples h)"

definition lh_reset :: "LatencyHistogram \<Rightarrow> LatencyHistogram" where
  "lh_reset h = h\<lparr>lh_samples := rb_clear (lh_samples h)\<rparr>"

section \<open>Timer.ts\<close>

text \<open>The monotonic clock \<open>process.hrtime.bigint()\<close> in nanoseconds is an argument.\<close>

record Timer = tm_startNs :: int

definition timer_start :: "int \<Rightarrow> Timer" where "timer_start nowNs = \<lparr>tm_startNs = nowNs\<rparr>"

definition timer_elapsedMs :: "int \<Rightarrow> Timer \<Rightarrow> rat" where
  "timer_elapsedMs nowNs t = of_int (nowNs - tm_startNs t) / 1000000"

section \<open>MetricsCollector.ts\<close>

text \<open>The getters that \<open>attach...\<close> registers are arguments of \<open>getSnapshot\<close>, as one record.\<close>

record MetricsGetters =
  mg_storageStats :: StorageStats
  mg_memoryLimitBytes :: enat
  mg_currentPolicy :: EvictionPolicyType
  mg_nodeStatus :: NodeStatus

definition DEFAULT_GETTERS :: MetricsGetters where
  "DEFAULT_GETTERS = \<lparr>mg_storageStats = \<lparr>st_entryCount = 0, st_totalSizeBytes = 0, st_hits = 0, st_misses = 0,
       st_expirations = 0, st_evictions = 0, st_writes = 0, st_deletes = 0\<rparr>,
     mg_memoryLimitBytes = \<infinity>, mg_currentPolicy = LRU, mg_nodeStatus = HEALTHY\<rparr>"

record MetricsCollector =
  mc_nodeId :: string
  mc_latency :: LatencyHistogram
  mc_requestRate :: RateCounter
  mc_replicationQueueDepth :: nat
  mc_lastSnapshotDurationMs :: "int option"

record MetricsSnapshot =
  ms_nodeId :: string
  ms_timestamp :: time
  ms_hits :: nat
  ms_misses :: nat
  ms_hitRatio :: rat
  ms_evictions :: nat
  ms_entryCount :: nat
  ms_memoryUsageBytes :: int
  ms_memoryLimitBytes :: enat
  ms_requestsPerSecond :: rat
  ms_latency :: LatencyPercentiles
  ms_replicationQueueDepth :: nat
  ms_lastSnapshotDurationMs :: "int option"
  ms_currentEvictionPolicy :: EvictionPolicyType
  ms_nodeStatus :: NodeStatus

definition new_MetricsCollector :: "string \<Rightarrow> nat option \<Rightarrow> nat option \<Rightarrow> MetricsCollector result" where
  "new_MetricsCollector nodeId latencySampleCapacity rpsWindowMs =
     (case new_LatencyHistogram latencySampleCapacity of
        Inl e \<Rightarrow> Inl e
      | Inr lat \<Rightarrow>
          (case new_RateCounter (Some (case rpsWindowMs of None \<Rightarrow> 1000 | Some w \<Rightarrow> w)) None of
             Inl e \<Rightarrow> Inl e
           | Inr rate \<Rightarrow> Inr \<lparr>mc_nodeId = nodeId, mc_latency = lat, mc_requestRate = rate,
               mc_replicationQueueDepth = 0, mc_lastSnapshotDurationMs = None\<rparr>))"

definition recordRequest :: "time \<Rightarrow> rat \<Rightarrow> MetricsCollector \<Rightarrow> MetricsCollector" where
  "recordRequest now latencyMs m =
     m\<lparr>mc_latency := lh_record latencyMs (mc_latency m), mc_requestRate := rc_hit now (mc_requestRate m)\<rparr>"

definition recordReplicationQueueDepth :: "nat \<Rightarrow> MetricsCollector \<Rightarrow> MetricsCollector" where
  "recordReplicationQueueDepth depth m = m\<lparr>mc_replicationQueueDepth := depth\<rparr>"

definition recordSnapshotDuration :: "int \<Rightarrow> MetricsCollector \<Rightarrow> MetricsCollector" where
  "recordSnapshotDuration durationMs m = m\<lparr>mc_lastSnapshotDurationMs := Some durationMs\<rparr>"

definition mc_getSnapshot :: "MetricsGetters \<Rightarrow> time \<Rightarrow> MetricsCollector \<Rightarrow> MetricsSnapshot" where
  "mc_getSnapshot g now m =
     (let stats = mg_storageStats g; totalReads = st_hits stats + st_misses stats
      in \<lparr>ms_nodeId = mc_nodeId m, ms_timestamp = now, ms_hits = st_hits stats, ms_misses = st_misses stats,
          ms_hitRatio = (if totalReads > 0 then of_nat (st_hits stats) / of_nat totalReads else 0),
          ms_evictions = st_evictions stats, ms_entryCount = st_entryCount stats,
          ms_memoryUsageBytes = st_totalSizeBytes stats, ms_memoryLimitBytes = mg_memoryLimitBytes g,
          ms_requestsPerSecond = rc_rate now (mc_requestRate m), ms_latency = lh_percentiles (mc_latency m),
          ms_replicationQueueDepth = mc_replicationQueueDepth m,
          ms_lastSnapshotDurationMs = mc_lastSnapshotDurationMs m,
          ms_currentEvictionPolicy = mg_currentPolicy g, ms_nodeStatus = mg_nodeStatus g\<rparr>)"

definition mc_reset :: "MetricsCollector \<Rightarrow> MetricsCollector" where
  "mc_reset m = m\<lparr>mc_latency := lh_reset (mc_latency m), mc_requestRate := rc_reset (mc_requestRate m),
     mc_replicationQueueDepth := 0, mc_lastSnapshotDurationMs := None\<rparr>"

section \<open>ClusterMetricsAggregator.ts and the gateway's /metrics route\<close>

record ClusterMetricsSummary =
  cs_timestamp :: time
  cs_nodeCount :: nat
  cs_healthyNodeCount :: nat
  cs_totalRequestsPerSecond :: rat
  cs_totalEntryCount :: nat
  cs_totalMemoryUsageBytes :: int
  cs_totalMemoryLimitBytes :: nat
  cs_overallHitRatio :: rat
  cs_totalEvictions :: nat
  cs_clusterP99LatencyMs :: rat
  cs_policyDistribution :: "EvictionPolicyType \<Rightarrow> nat"
  cs_nodeStatusBreakdown :: "NodeStatus \<Rightarrow> nat"
  cs_perNode :: "MetricsSnapshot list"

text \<open>The accumulators of the loop.\<close>

record cluster_totals =
  ct_hits :: nat
  ct_misses :: nat
  ct_rps :: rat
  ct_entries :: nat
  ct_memory :: int
  ct_memoryLimit :: nat
  ct_evictions :: nat
  ct_worstP99 :: rat
  ct_policies :: "EvictionPolicyType \<Rightarrow> nat"
  ct_statuses :: "NodeStatus \<Rightarrow> nat"

definition zero_totals :: cluster_totals where
  "zero_totals = \<lparr>ct_hits = 0, ct_misses = 0, ct_rps = 0, ct_entries = 0, ct_memory = 0, ct_memoryLimit = 0,
     ct_evictions = 0, ct_worstP99 = 0, ct_policies = (\<lambda>_. 0), ct_statuses = (\<lambda>_. 0)\<rparr>"

definition add_snapshot :: "MetricsSnapshot \<Rightarrow> cluster_totals \<Rightarrow> cluster_totals" where
  "add_snapshot s t =
     \<lparr>ct_hits = ct_hits t + ms_hits s, ct_misses = ct_misses t + ms_misses s,
      ct_rps = ct_rps t + ms_requestsPerSecond s, ct_entries = ct_entries t + ms_entryCount s,
      ct_memory = ct_memory t + ms_memoryUsageBytes s,
      ct_memoryLimit = ct_memoryLimit t + (case ms_memoryLimitBytes s of enat n \<Rightarrow> n | \<infinity> \<Rightarrow> 0),
      ct_evictions = ct_evictions t + ms_evictions s,
      ct_worstP99 = max (ct_worstP99 t) (lp_p99 (ms_latency s)),
      ct_policies = (ct_policies t)(ms_currentEvictionPolicy s := ct_policies t (ms_currentEvictionPolicy s) + 1),
      ct_statuses = (ct_statuses t)(ms_nodeStatus s := ct_statuses t (ms_nodeStatus s) + 1)\<rparr>"

definition aggregateClusterMetrics :: "time \<Rightarrow> MetricsSnapshot list \<Rightarrow> ClusterMetricsSummary" where
  "aggregateClusterMetrics now snapshots =
     (let t = fold add_snapshot snapshots zero_totals; totalReads = ct_hits t + ct_misses t
      in \<lparr>cs_timestamp = now, cs_nodeCount = length snapshots, cs_healthyNodeCount = ct_statuses t HEALTHY,
          cs_totalRequestsPerSecond = ct_rps t, cs_totalEntryCount = ct_entries t,
          cs_totalMemoryUsageBytes = ct_memory t, cs_totalMemoryLimitBytes = ct_memoryLimit t,
          cs_overallHitRatio = (if totalReads > 0 then of_nat (ct_hits t) / of_nat totalReads else 0),
          cs_totalEvictions = ct_evictions t, cs_clusterP99LatencyMs = ct_worstP99 t,
          cs_policyDistribution = ct_policies t, cs_nodeStatusBreakdown = ct_statuses t, cs_perNode = snapshots\<rparr>)"

text \<open>The route asks every node that is not DEAD; a node whose call fails is left out.\<close>

fun collect_snapshots :: "('v, MetricsSnapshot, 'w) fetch_fun \<Rightarrow> NodeInfo list \<Rightarrow> 'w \<Rightarrow> MetricsSnapshot list \<times> 'w" where
  "collect_snapshots fetch [] w = ([], w)"
| "collect_snapshots fetch (node # nodes) w =
     (case client_getMetrics fetch node w of
        (Inr s, w') \<Rightarrow> (let (ss, w'') = collect_snapshots fetch nodes w' in (s # ss, w''))
      | (Inl _, w') \<Rightarrow> collect_snapshots fetch nodes w')"

definition gateway_metrics :: "('v, MetricsSnapshot, 'w) fetch_fun \<Rightarrow> time \<Rightarrow> ConsistentHashRing \<Rightarrow> 'w \<Rightarrow>
    ClusterMetricsSummary \<times> 'w" where
  "gateway_metrics fetch now r w =
     (let nodes = filter (\<lambda>n. ni_status n \<noteq> DEAD) (getPhysicalNodes r);
          (validSnapshots, w') = collect_snapshots fetch nodes w
      in (aggregateClusterMetrics now validSnapshots, w'))"

section \<open>Percentiles\<close>

lemma nth_rank:
  fixes xs :: "rat list"
  assumes "sorted xs" and "0 < k" and "k \<le> length xs"
  shows "k \<le> length (filter (\<lambda>x. x \<le> xs ! (k - 1)) xs)" and "length (filter (\<lambda>x. x < xs ! (k - 1)) xs) < k"
proof -
  let ?v = "xs ! (k - 1)"
  have split: "filter P xs = filter P (take k xs) @ filter P (drop k xs)" for P
    by (metis append_take_drop_id filter_append)
  have "\<forall>x \<in> set (take k xs). x \<le> ?v"
    using assms by (auto simp: in_set_conv_nth sorted_iff_nth_mono)
  then have "filter (\<lambda>x. x \<le> ?v) (take k xs) = take k xs" by simp
  then show "k \<le> length (filter (\<lambda>x. x \<le> ?v) xs)"
    using assms(3) arg_cong[OF split[of "\<lambda>x. x \<le> ?v"], of length] by simp
  have "\<forall>x \<in> set (drop (k - 1) xs). \<not> x < ?v"
    using assms by (auto simp: in_set_conv_nth sorted_iff_nth_mono not_less)
  then have "filter (\<lambda>x. x < ?v) (drop (k - 1) xs) = []" by (simp add: filter_empty_conv)
  then have "filter (\<lambda>x. x < ?v) xs = filter (\<lambda>x. x < ?v) (take (k - 1) xs)"
    by (metis append_Nil2 append_take_drop_id filter_append)
  then have "length (filter (\<lambda>x. x < ?v) xs) \<le> k - 1"
    by (metis length_filter_le length_take min.cobounded2 order_trans)
  then show "length (filter (\<lambda>x. x < ?v) xs) < k" using assms(2) by linarith
qed

lemma percentile_index:
  assumes "xs \<noteq> []" and "0 < p" and "p \<le> 1"
  defines "k \<equiv> nat \<lceil>p * of_nat (length xs)\<rceil>"
  shows "percentile xs p = xs ! (k - 1)" and "0 < k" and "k \<le> length xs"
    and "p * of_nat (length xs) \<le> of_nat k" and "of_nat k < p * of_nat (length xs) + (1 :: rat)"
proof -
  let ?c = "\<lceil>p * of_nat (length xs)\<rceil>"
  have pos: "0 < ?c" using assms(1,2) by simp
  have "p * of_nat (length xs) \<le> of_nat (length xs)" using assms(3) by (simp add: mult_left_le_one_le assms(2) order_less_imp_le)
  then have le: "?c \<le> int (length xs)" by (simp add: ceiling_le_iff)
  have k: "int k = ?c" using pos by (simp add: k_def)
  show "0 < k" "k \<le> length xs" using pos le k by linarith+
  have rk: "of_nat k = (of_int ?c :: rat)" by (metis k of_int_of_nat_eq)
  show "p * of_nat (length xs) \<le> of_nat k" "of_nat k < p * of_nat (length xs) + (1 :: rat)"
    unfolding rk using ceiling_correct[of "p * of_nat (length xs)"] by linarith+
  have "nat (min (max (?c - 1) 0) (int (length xs) - 1)) = k - 1" using pos le k by linarith
  then show "percentile xs p = xs ! (k - 1)" using assms(1) by (simp add: percentile_def Let_def)
qed

text \<open>The nearest-rank percentile: a sample such that at least the share \<open>p\<close> of the samples is at most
  it and less than the share \<open>p\<close> lies strictly below.\<close>

definition nearest_rank :: "rat list \<Rightarrow> rat \<Rightarrow> rat \<Rightarrow> bool" where
  "nearest_rank w p v \<longleftrightarrow> v \<in> set w \<and> p * of_nat (length w) \<le> of_nat (length (filter (\<lambda>x. x \<le> v) w)) \<and>
     of_nat (length (filter (\<lambda>x. x < v) w)) < p * of_nat (length w)"

lemma nearest_rank_mset: "mset w = mset w' \<Longrightarrow> nearest_rank w p v \<longleftrightarrow> nearest_rank w' p v"
proof -
  assume m: "mset w = mset w'"
  have "length (filter P w) = length (filter P w')" for P using m by (metis mset_filter size_mset)
  with m show ?thesis by (simp add: nearest_rank_def mset_eq_setD[OF m] mset_eq_length[OF m])
qed

lemma percentile_nearest_rank:
  assumes "sorted xs" and "xs \<noteq> []" and "0 < p" and "p \<le> 1"
  shows "nearest_rank xs p (percentile xs p)"
proof -
  note i = percentile_index[OF assms(2-4)]
  note r = nth_rank[OF assms(1) i(2,3)]
  let ?k = "nat \<lceil>p * of_nat (length xs)\<rceil>"
  let ?v = "xs ! (?k - 1)"
  have "of_nat (Suc (length (filter (\<lambda>x. x < ?v) xs))) \<le> (of_nat ?k :: rat)" using r(2) by (simp only: of_nat_le_iff Suc_le_eq)
  then have 1: "(of_nat (length (filter (\<lambda>x. x < ?v) xs)) :: rat) < p * of_nat (length xs)" using i(5) by simp
  have "(of_nat ?k :: rat) \<le> of_nat (length (filter (\<lambda>x. x \<le> ?v) xs))" using r(1) by (simp only: of_nat_le_iff)
  with i(4) have 2: "p * of_nat (length xs) \<le> (of_nat (length (filter (\<lambda>x. x \<le> ?v) xs)) :: rat)" by (rule order_trans)
  have "?v \<in> set xs" using i(2,3) by (intro nth_mem) linarith
  with 1 2 show ?thesis unfolding nearest_rank_def i(1) by blast
qed

lemma percentile_mono:
  assumes "sorted xs" and "xs \<noteq> []" and "0 < p" and "p \<le> q" and "q \<le> 1"
  shows "percentile xs p \<le> percentile xs q"
proof -
  have le: "nat \<lceil>p * of_nat (length xs)\<rceil> \<le> nat \<lceil>q * of_nat (length xs)\<rceil>"
    using assms(4) by (intro nat_mono ceiling_mono mult_right_mono) simp_all
  have p: "p \<le> 1" and q: "0 < q" using assms(3-5) by linarith+
  note j = percentile_index[OF assms(2) q assms(5)]
  show ?thesis unfolding percentile_index(1)[OF assms(2,3) p] j(1)
    using assms(1) le j(2,3) by (intro sorted_nth_mono) linarith+
qed

lemma rb_toArray_window:
  assumes "new_RingBuffer c = Inr rb"
  shows "mset (rb_toArray (fold rb_push xs rb)) = mset (last_n c xs)"
  using rb_toArray_mset[of "fold rb_push xs rb"] rb_pushes_ok[of rb xs] rb_pushes_window[of rb xs]
    new_RingBuffer_ok[OF assms] by simp

lemma sorted_last_Max: "sorted xs \<Longrightarrow> xs \<noteq> [] \<Longrightarrow> xs ! (length xs - 1) = Max (set xs)"
  by (rule Max_eqI[symmetric]) (auto simp: in_set_conv_nth sorted_iff_nth_mono intro!: exI[of _ "length xs - 1"])

lemma samples_window:
  assumes "new_LatencyHistogram (Some c) = Inr h"
  shows "mset (rb_toArray (lh_samples (fold lh_record xs h))) = mset (last_n c xs)"
proof -
  obtain rb where rb: "new_RingBuffer c = Inr rb" and h: "h = \<lparr>lh_samples = rb\<rparr>"
    using assms by (auto simp: new_LatencyHistogram_def split: sum.splits)
  have "lh_samples (fold lh_record xs h) = fold rb_push xs (lh_samples h)" for h
    by (induction xs arbitrary: h) (simp_all add: lh_record_def)
  then show ?thesis using rb_toArray_window[OF rb] h by simp
qed

text \<open>Latency percentiles are exact nearest-rank percentiles of the last \<open>capacity\<close> samples: with at
  least one sample recorded, P50, P95 and P99 are each a recorded sample of the window with the required
  share at or below it and less than that share strictly below, they are ordered, and \<open>max\<close> is the
  greatest sample of the window.\<close>

theorem percentiles_nearest_rank:
  assumes "new_LatencyHistogram (Some c) = Inr h" and "xs \<noteq> []"
  defines "w \<equiv> last_n c xs" and "r \<equiv> lh_percentiles (fold lh_record xs h)"
  shows "nearest_rank w (1 / 2) (lp_p50 r) \<and> nearest_rank w (95 / 100) (lp_p95 r) \<and>
    nearest_rank w (99 / 100) (lp_p99 r) \<and>
    lp_p50 r \<le> lp_p95 r \<and> lp_p95 r \<le> lp_p99 r \<and> lp_p99 r \<le> lp_max r \<and> lp_max r = Max (set w)"
proof -
  let ?s = "sort (rb_toArray (lh_samples (fold lh_record xs h)))"
  have m: "mset ?s = mset w" using samples_window[OF assms(1), of xs] by (simp add: w_def)
  have "0 < c" using assms(1) by (auto simp: new_LatencyHistogram_def new_RingBuffer_def split: if_splits)
  then have "length xs - c < length xs" using assms(2) by (cases xs) auto
  then have "w \<noteq> []" by (simp add: w_def last_n_def)
  then have ne: "?s \<noteq> []" using m by (metis mset_zero_iff)
  have r: "r = \<lparr>lp_p50 = percentile ?s (1 / 2), lp_p95 = percentile ?s (95 / 100),
      lp_p99 = percentile ?s (99 / 100), lp_max = ?s ! (length ?s - 1)\<rparr>"
    using ne unfolding r_def lh_percentiles_def Let_def by (metis length_0_conv)
  have nr: "nearest_rank w p (percentile ?s p)" if "0 < p" "p \<le> 1" for p
    using percentile_nearest_rank[OF sorted_sort ne that] nearest_rank_mset[OF m] by blast
  have mx: "?s ! (length ?s - 1) = Max (set w)"
    using sorted_last_Max[OF sorted_sort ne] by (simp only: mset_eq_setD[OF m])
  have "percentile ?s (99 / 100) \<in> set w" using nr[of "99 / 100"] by (simp add: nearest_rank_def)
  then have "percentile ?s (99 / 100) \<le> Max (set w)" by simp
  then show ?thesis
    using nr[of "1 / 2"] nr[of "95 / 100"] nr[of "99 / 100"] mx
      percentile_mono[OF sorted_sort ne, of "1 / 2" "95 / 100"] percentile_mono[OF sorted_sort ne, of "95 / 100" "99 / 100"]
    unfolding r by simp
qed

theorem percentiles_nearest_rank_witness:
  "\<exists>h. new_LatencyHistogram (Some 3) = Inr h \<and>
     lp_max (lh_percentiles (fold lh_record [9, 1, 5, 3] h)) = Max (set (last_n 3 [9, 1, 5, 3]))"
proof -
  obtain h where h: "new_LatencyHistogram (Some 3) = Inr h"
    by (simp add: new_LatencyHistogram_def new_RingBuffer_def)
  show ?thesis using h percentiles_nearest_rank[OF h, of "[9, 1, 5, 3]"] by blast
qed

section \<open>The request rate\<close>

lemma count_fold: "fold (\<lambda>ts count. if P ts then count + 1 else count) xs (n :: nat) = n + length (filter P xs)"
  by (induction xs arbitrary: n) auto

lemma sorted_recent:
  fixes ts :: "int list"
  assumes "sorted ts"
  shows "length (filter (\<lambda>t. cutoff \<le> t) (last_n c ts)) = min c (length (filter (\<lambda>t. cutoff \<le> t) ts))"
proof -
  define a b where "a = takeWhile (\<lambda>t. t < cutoff) ts" and "b = dropWhile (\<lambda>t. t < cutoff) ts"
  have ts: "ts = a @ b" by (simp add: a_def b_def)
  have a: "\<forall>t \<in> set a. \<not> cutoff \<le> t" by (auto simp: a_def dest: set_takeWhileD)
  have b: "\<forall>t \<in> set b. cutoff \<le> t"
  proof (cases b)
    case (Cons y ys)
    then have "cutoff \<le> y" using hd_dropWhile[of "\<lambda>t. t < cutoff" ts] by (auto simp: b_def)
    moreover have "sorted b" using assms unfolding b_def by (rule sorted_dropWhile)
    ultimately show ?thesis unfolding Cons by auto
  qed simp
  have fb: "filter (\<lambda>t. cutoff \<le> t) (drop k b) = drop k b" for k
    using b by (intro filter_True) (auto dest: in_set_dropD)
  have fa: "filter (\<lambda>t. cutoff \<le> t) (drop k a) = []" for k
    using a by (auto simp: filter_empty_conv dest: in_set_dropD)
  show ?thesis unfolding ts using fa[of 0] fb[of 0] by (simp add: last_n_def fa fb)
qed

text \<open>The reported request rate is the true rate up to the buffer's capacity: after hits at
  non-decreasing times, \<open>rate\<close> counts the hits of the trailing window exactly when there are at most
  \<open>capacity\<close> of them, and reports \<open>capacity\<close> per window otherwise.\<close>

theorem rate_exact_to_capacity:
  assumes "new_RateCounter (Some w) (Some c) = Inr r" and "sorted ts"
  shows "rc_rate now (fold rc_hit ts r) =
    of_nat (min c (length (filter (\<lambda>t. now - int w \<le> t) ts))) / (of_nat w / 1000)"
proof -
  obtain rb where rb: "new_RingBuffer c = Inr rb" and r: "r = \<lparr>rc_timestamps = rb, rc_windowMs = w\<rparr>"
    using assms(1) by (auto simp: new_RateCounter_def split: sum.splits)
  have f: "rc_timestamps (fold rc_hit ts r) = fold rb_push ts (rc_timestamps r) \<and> rc_windowMs (fold rc_hit ts r) = rc_windowMs r" for r
    by (induction ts arbitrary: r) (simp_all add: rc_hit_def)
  have "length (filter P (rb_toArray (fold rb_push ts rb))) = length (filter P (last_n c ts))" for P
    using rb_toArray_window[OF rb, of ts] by (metis mset_filter size_mset)
  then show ?thesis using sorted_recent[OF assms(2)] by (simp add: rc_rate_def f r count_fold Let_def)
qed

theorem rate_exact_to_capacity_witness:
  "\<exists>r. new_RateCounter (Some 1000) (Some 2) = Inr r \<and> rc_rate 2000 (fold rc_hit [500, 1500, 1600, 2000] r) = 2"
proof -
  obtain r where r: "new_RateCounter (Some 1000) (Some 2) = Inr r"
    by (simp add: new_RateCounter_def new_RingBuffer_def)
  show ?thesis using r rate_exact_to_capacity[OF r, of "[500, 1500, 1600, 2000]" 2000] by auto
qed

section \<open>The cluster summary\<close>

lemma totals_fold:
  "ct_hits (fold add_snapshot ss t) = ct_hits t + sum_list (map ms_hits ss)"
  "ct_misses (fold add_snapshot ss t) = ct_misses t + sum_list (map ms_misses ss)"
  "ct_rps (fold add_snapshot ss t) = ct_rps t + sum_list (map ms_requestsPerSecond ss)"
  "ct_entries (fold add_snapshot ss t) = ct_entries t + sum_list (map ms_entryCount ss)"
  "ct_memory (fold add_snapshot ss t) = ct_memory t + sum_list (map ms_memoryUsageBytes ss)"
  "ct_evictions (fold add_snapshot ss t) = ct_evictions t + sum_list (map ms_evictions ss)"
  "ct_policies (fold add_snapshot ss t) p = ct_policies t p + length (filter (\<lambda>s. ms_currentEvictionPolicy s = p) ss)"
  "ct_statuses (fold add_snapshot ss t) st = ct_statuses t st + length (filter (\<lambda>s. ms_nodeStatus s = st) ss)"
  by (induction ss arbitrary: t) (auto simp: add_snapshot_def)

lemma worst_fold: "ct_worstP99 (fold add_snapshot ss t) = Max (insert (ct_worstP99 t) (lp_p99 ` ms_latency ` set ss))"
proof (induction ss arbitrary: t)
  case (Cons s ss)
  have "ct_worstP99 (fold add_snapshot (s # ss) t) =
      Max (insert (max (ct_worstP99 t) (lp_p99 (ms_latency s))) (lp_p99 ` ms_latency ` set ss))"
    by (simp add: Cons.IH) (simp add: add_snapshot_def)
  then show ?case by (cases "set ss = {}") (auto simp: max.assoc)
qed simp

text \<open>The cluster summary loses nothing: hits, misses, entries and evictions are the sums over the
  nodes, each policy and status count is the number of nodes reporting it, the cluster P99 is the worst
  of the nodes', and the overall hit ratio is the hits of the whole cluster over its reads, in [0, 1]
  and not an average of the nodes' ratios.\<close>

theorem cluster_summary_exact:
  fixes snapshots now
  defines "r \<equiv> aggregateClusterMetrics now snapshots"
  shows "cs_totalEntryCount r = sum_list (map ms_entryCount snapshots) \<and>
    cs_totalEvictions r = sum_list (map ms_evictions snapshots) \<and>
    cs_totalRequestsPerSecond r = sum_list (map ms_requestsPerSecond snapshots) \<and>
    cs_overallHitRatio r * of_nat (sum_list (map ms_hits snapshots) + sum_list (map ms_misses snapshots)) =
      of_nat (sum_list (map ms_hits snapshots)) \<and>
    0 \<le> cs_overallHitRatio r \<and> cs_overallHitRatio r \<le> 1 \<and>
    cs_nodeStatusBreakdown r = (\<lambda>st. length (filter (\<lambda>s. ms_nodeStatus s = st) snapshots)) \<and>
    cs_policyDistribution r = (\<lambda>p. length (filter (\<lambda>s. ms_currentEvictionPolicy s = p) snapshots)) \<and>
    cs_healthyNodeCount r = length (filter (\<lambda>s. ms_nodeStatus s = HEALTHY) snapshots) \<and>
    cs_clusterP99LatencyMs r = Max (insert 0 (lp_p99 ` ms_latency ` set snapshots))"
proof -
  let ?h = "sum_list (map ms_hits snapshots)" and ?m = "sum_list (map ms_misses snapshots)"
  note d = r_def aggregateClusterMetrics_def zero_totals_def Let_def totals_fold worst_fold
  have ratio: "cs_overallHitRatio r = (if ?h + ?m > 0 then of_nat ?h / of_nat (?h + ?m) else 0)" by (simp add: d)
  have "0 \<le> cs_overallHitRatio r" "cs_overallHitRatio r \<le> 1" unfolding ratio by (auto simp: divide_le_eq)
  moreover have "cs_overallHitRatio r * of_nat (?h + ?m) = of_nat ?h" unfolding ratio by (cases "?h + ?m = 0") auto
  moreover have "cs_nodeStatusBreakdown r = (\<lambda>st. length (filter (\<lambda>s. ms_nodeStatus s = st) snapshots))"
    "cs_policyDistribution r = (\<lambda>p. length (filter (\<lambda>s. ms_currentEvictionPolicy s = p) snapshots))"
    by (simp_all add: fun_eq_iff d)
  ultimately show ?thesis by (simp add: d)
qed

text \<open>What one node contributes to the cluster view: its snapshot if it answers with a success status and a
  JSON body, nothing otherwise.\<close>

definition contribution :: "'j http_outcome \<Rightarrow> 'j option" where
  "contribution out = (case out of Response status (Inr s) \<Rightarrow> if response_ok status then Some s else None | _ \<Rightarrow> None)"

lemma client_getMetrics_contribution:
  "fst (client_getMetrics (\<lambda>req n w. (f req n, w)) node w) = Inr s \<longleftrightarrow> contribution (f GetMetrics node) = Some s"
  "snd (client_getMetrics (\<lambda>req n w. (f req n, w)) node w) = w"
proof -
  note d = client_getMetrics_def client_call_def contribution_def json_of_def
  show "fst (client_getMetrics (\<lambda>req n w. (f req n, w)) node w) = Inr s \<longleftrightarrow> contribution (f GetMetrics node) = Some s"
  proof (cases "f GetMetrics node")
    case (Response status body)
    then show ?thesis by (cases body) (simp_all add: d)
  qed (simp add: d)
qed (simp add: client_getMetrics_def client_call_def)

lemma collect_snapshots_stateless:
  "collect_snapshots (\<lambda>req n w. (f req n, w)) nodes w = (List.map_filter (\<lambda>n. contribution (f GetMetrics n)) nodes, w)"
proof (induction nodes)
  case (Cons n ns)
  obtain res w' where c: "client_getMetrics (\<lambda>req n w. (f req n, w)) n w = (res, w')" by (rule prod.exhaust)
  have w': "w' = w" and res: "res = Inr s \<longleftrightarrow> contribution (f GetMetrics n) = Some s" for s
    using client_getMetrics_contribution[of f n w] unfolding c by simp_all
  show ?case
  proof (cases res)
    case (Inl e)
    then have "contribution (f GetMetrics n) = None" using res by (metis not_None_eq sum.distinct(1))
    then show ?thesis using Cons by (simp add: c w' Inl List.map_filter_simps)
  next
    case (Inr s)
    then have "contribution (f GetMetrics n) = Some s" using res by blast
    then show ?thesis using Cons by (simp add: c w' Inr List.map_filter_simps)
  qed
qed (simp add: List.map_filter_simps)

text \<open>One unreachable node never fails the cluster view: the gateway's \<open>/metrics\<close> is the summary of the
  snapshots of exactly those nodes that are not DEAD and answered well, in ring order.\<close>

theorem gateway_metrics_degrades:
  "fst (gateway_metrics (\<lambda>req n w. (f req n, w)) now r w) =
   aggregateClusterMetrics now
     (List.map_filter (\<lambda>n. contribution (f GetMetrics n)) (filter (\<lambda>n. ni_status n \<noteq> DEAD) (getPhysicalNodes r)))"
  by (simp add: gateway_metrics_def collect_snapshots_stateless)

end
