(* ===== verification/Snapshot.thy ===== *)
theory Snapshot
  imports Shared "HOL-Library.Sublist"
begin

text \<open>
  \<open>packages/snapshot\<close>: the snapshot store interface with its two implementations (files in a
  directory, and a map in memory) and the snapshot manager.  The manager's code takes the store as a
  record of operations; what it relies on is the locale \<open>snapshot_store\<close>, which both stores interpret.
  A file holds what was written to it: bytes, or the metadata its JSON text denotes.  JSON, gzip and
  SHA-256 of the entries are the record \<open>codec\<close>.  File operations do not fail for outside reasons
  (disk full, permissions).  What a crash between and inside the calls leaves is the theory
  \<open>SnapshotCrash\<close>.
\<close>

section \<open>Metadata and codecs\<close>

record SnapshotMetadata =
  md_snapshotId :: string
  md_nodeId :: string
  md_createdAt :: time
  md_entryCount :: nat
  md_sizeBytes :: nat
  md_durationMs :: int
  md_checksum :: string
  md_compressed :: bool

record 'b StoredSnapshot =
  sp_metadata :: SnapshotMetadata
  sp_buffer :: 'b

record 'v SnapshotPayload =
  pl_metadata :: SnapshotMetadata
  pl_entries :: "'v CacheEntry list"

text \<open>\<open>JSON.stringify\<close> and \<open>JSON.parse\<close> of the entries, \<open>gzipSync\<close>, \<open>gunzipSync\<close> (which throws on other
  bytes), \<open>sha256\<close> and the length of a buffer.\<close>

record ('v, 'b) codec =
  co_stringify :: "'v CacheEntry list \<Rightarrow> 'b"
  co_parse :: "'b \<Rightarrow> 'v CacheEntry list option"
  co_gzip :: "'b \<Rightarrow> 'b"
  co_gunzip :: "'b \<Rightarrow> 'b option"
  co_sha256 :: "'b \<Rightarrow> string"
  co_byteLength :: "'b \<Rightarrow> nat"

definition codec_ok :: "('v, 'b) codec \<Rightarrow> bool" where
  "codec_ok c \<longleftrightarrow> (\<forall>es. co_parse c (co_stringify c es) = Some es) \<and> (\<forall>b. co_gunzip c (co_gzip c b) = Some b)"

text \<open>The inline serialization of \<open>takeSnapshot\<close> and the worker task of \<open>snapshotSerializeHandler.ts\<close>.\<close>

definition serialize_inline :: "('v, 'b) codec \<Rightarrow> 'v CacheEntry list \<Rightarrow> bool \<Rightarrow> ('b \<times> string) result" where
  "serialize_inline c entries compress =
     (let serialized = co_stringify c entries;
          payload = (if compress then co_gzip c serialized else serialized)
      in Inr (payload, co_sha256 c payload))"

record 'b SnapshotSerializeResult =
  sr_buffer :: 'b
  sr_checksum :: string
  sr_sizeBytes :: nat

definition snapshotSerializeHandler :: "('v, 'b) codec \<Rightarrow> 'v CacheEntry list \<Rightarrow> bool \<Rightarrow> 'b SnapshotSerializeResult" where
  "snapshotSerializeHandler c entries compress =
     (let serialized = co_stringify c entries;
          buffer = (if compress then co_gzip c serialized else serialized);
          checksum = co_sha256 c buffer
      in \<lparr>sr_buffer = buffer, sr_checksum = checksum, sr_sizeBytes = co_byteLength c buffer\<rparr>)"

section \<open>The store interface and its implementations\<close>

record ('b, 'st) ISnapshotStore =
  ss_write :: "string \<Rightarrow> 'b \<Rightarrow> SnapshotMetadata \<Rightarrow> 'st \<Rightarrow> 'st result"
  ss_read :: "string \<Rightarrow> 'st \<Rightarrow> 'b StoredSnapshot result"
  ss_writeLatestPointer :: "SnapshotMetadata \<Rightarrow> 'st \<Rightarrow> 'st"
  ss_readLatestPointer :: "'st \<Rightarrow> SnapshotMetadata option result"
  ss_list :: "'st \<Rightarrow> SnapshotMetadata list result"
  ss_delete :: "string \<Rightarrow> 'st \<Rightarrow> 'st result"

text \<open>\<open>sort((a, b) => b.createdAt - a.createdAt)\<close>, which is stable.\<close>

definition newest_first :: "SnapshotMetadata list \<Rightarrow> SnapshotMetadata list" where
  "newest_first ms = sort_key (\<lambda>m. - md_createdAt m) ms"

subsection \<open>Files\<close>

datatype 'b file_content = DataFile 'b | MetaFile SnapshotMetadata | OtherText string

type_synonym 'b directory = "(string, 'b file_content) js_map"

definition DATA_SUFFIX :: string where "DATA_SUFFIX = ''.snap''"
definition METADATA_SUFFIX :: string where "METADATA_SUFFIX = ''.meta.json''"
definition LATEST_POINTER_FILE :: string where "LATEST_POINTER_FILE = ''latest.json''"

definition id_char :: "char \<Rightarrow> bool" where
  "id_char c \<longleftrightarrow> (let n = of_char c :: nat
     in (65 \<le> n \<and> n \<le> 90) \<or> (97 \<le> n \<and> n \<le> 122) \<or> (48 \<le> n \<and> n \<le> 57) \<or> n = 95 \<or> n = 45)"

definition VALID_SNAPSHOT_ID :: "string \<Rightarrow> bool" where
  "VALID_SNAPSHOT_ID i \<longleftrightarrow> i \<noteq> [] \<and> list_all id_char i"

definition assertValidSnapshotId :: "string \<Rightarrow> unit result" where
  "assertValidSnapshotId i =
     (if \<not> VALID_SNAPSHOT_ID i then Inl (PlainError (''Invalid snapshot id: '' @ quoted i)) else Inr ())"

definition dataPath :: "string \<Rightarrow> string" where "dataPath i = i @ DATA_SUFFIX"
definition metaPath :: "string \<Rightarrow> string" where "metaPath i = i @ METADATA_SUFFIX"

definition ENOENT :: "string \<Rightarrow> thrown" where "ENOENT name = PlainError (''ENOENT: '' @ name)"

text \<open>\<open>JSON.parse\<close> of a file: the metadata it holds, or a syntax error.\<close>

definition parse_meta :: "'b file_content \<Rightarrow> SnapshotMetadata result" where
  "parse_meta f = (case f of MetaFile m \<Rightarrow> Inr m | _ \<Rightarrow> Inl (PlainError ''Unexpected token in JSON''))"

text \<open>The calls a store operation makes on the file system, as batches: a batch is awaited before the next one
  starts, and the calls of one batch run concurrently.  An \<open>unlink\<close> that fails is ignored by
  \<open>Promise.allSettled\<close>.\<close>

datatype 'b fs_call = WriteFile string "'b file_content" | Unlink string

fun run_call :: "'b fs_call \<Rightarrow> 'b directory \<Rightarrow> 'b directory" where
  "run_call (WriteFile name content) d = js_set name content d"
| "run_call (Unlink name) d = js_delete name d"

definition run_calls :: "'b fs_call list list \<Rightarrow> 'b directory \<Rightarrow> 'b directory" where
  "run_calls batches d = fold run_call (concat batches) d"

definition write_calls :: "string \<Rightarrow> 'b \<Rightarrow> SnapshotMetadata \<Rightarrow> 'b fs_call list list" where
  "write_calls i buffer metadata = [[WriteFile (dataPath i) (DataFile buffer)], [WriteFile (metaPath i) (MetaFile metadata)]]"

definition pointer_calls :: "SnapshotMetadata \<Rightarrow> 'b fs_call list list" where
  "pointer_calls metadata = [[WriteFile LATEST_POINTER_FILE (MetaFile metadata)]]"

definition delete_calls :: "string \<Rightarrow> 'b fs_call list list" where
  "delete_calls i = [[Unlink (dataPath i), Unlink (metaPath i)]]"

lemma run_calls_simps [simp]:
  "run_calls (write_calls i b m) d = js_set (metaPath i) (MetaFile m) (js_set (dataPath i) (DataFile b) d)"
  "run_calls (pointer_calls m) d = js_set LATEST_POINTER_FILE (MetaFile m) d"
  "run_calls (delete_calls i) d = js_delete (metaPath i) (js_delete (dataPath i) d)"
  "run_calls [] d = d" "run_calls (xs @ ys) d = run_calls ys (run_calls xs d)"
  by (simp_all add: run_calls_def write_calls_def pointer_calls_def delete_calls_def)

definition file_write :: "string \<Rightarrow> 'b \<Rightarrow> SnapshotMetadata \<Rightarrow> 'b directory \<Rightarrow> 'b directory result" where
  "file_write i buffer metadata d =
     (case assertValidSnapshotId i of
        Inl e \<Rightarrow> Inl e
      | Inr _ \<Rightarrow> Inr (run_calls (write_calls i buffer metadata) d))"

definition file_read :: "string \<Rightarrow> 'b directory \<Rightarrow> 'b StoredSnapshot result" where
  "file_read i d =
     (case assertValidSnapshotId i of
        Inl e \<Rightarrow> Inl e
      | Inr _ \<Rightarrow>
          (case (js_get d (dataPath i), js_get d (metaPath i)) of
             (Some (DataFile b), Some f) \<Rightarrow>
               (case parse_meta f of Inl e \<Rightarrow> Inl e | Inr m \<Rightarrow> Inr \<lparr>sp_metadata = m, sp_buffer = b\<rparr>)
           | _ \<Rightarrow> Inl (ENOENT i)))"

definition file_writeLatestPointer :: "SnapshotMetadata \<Rightarrow> 'b directory \<Rightarrow> 'b directory" where
  "file_writeLatestPointer metadata d = run_calls (pointer_calls metadata) d"

definition file_readLatestPointer :: "'b directory \<Rightarrow> SnapshotMetadata option result" where
  "file_readLatestPointer d =
     (case js_get d LATEST_POINTER_FILE of
        None \<Rightarrow> Inr None
      | Some f \<Rightarrow> (case parse_meta f of Inl e \<Rightarrow> Inl e | Inr m \<Rightarrow> Inr (Some m)))"

fun parse_all :: "'b file_content list \<Rightarrow> SnapshotMetadata list result" where
  "parse_all [] = Inr []"
| "parse_all (f # fs) =
     (case parse_meta f of
        Inl e \<Rightarrow> Inl e
      | Inr m \<Rightarrow> (case parse_all fs of Inl e \<Rightarrow> Inl e | Inr ms \<Rightarrow> Inr (m # ms)))"

definition file_list :: "'b directory \<Rightarrow> SnapshotMetadata list result" where
  "file_list d =
     (case parse_all (map snd (filter (\<lambda>p. suffix METADATA_SUFFIX (fst p)) d)) of
        Inl e \<Rightarrow> Inl e | Inr ms \<Rightarrow> Inr (newest_first ms))"

definition file_delete :: "string \<Rightarrow> 'b directory \<Rightarrow> 'b directory result" where
  "file_delete i d =
     (case assertValidSnapshotId i of
        Inl e \<Rightarrow> Inl e | Inr _ \<Rightarrow> Inr (run_calls (delete_calls i) d))"

definition FileSnapshotStore :: "('b, 'b directory) ISnapshotStore" where
  "FileSnapshotStore = \<lparr>ss_write = file_write, ss_read = file_read, ss_writeLatestPointer = file_writeLatestPointer,
     ss_readLatestPointer = file_readLatestPointer, ss_list = file_list, ss_delete = file_delete\<rparr>"

subsection \<open>In memory\<close>

record 'b memory_store =
  ms_data :: "(string, 'b StoredSnapshot) js_map"
  ms_latest :: "SnapshotMetadata option"

definition InMemorySnapshotStore :: "('b, 'b memory_store) ISnapshotStore" where
  "InMemorySnapshotStore =
     \<lparr>ss_write = (\<lambda>i buffer metadata st. Inr (st\<lparr>ms_data := js_set i \<lparr>sp_metadata = metadata, sp_buffer = buffer\<rparr> (ms_data st)\<rparr>)),
      ss_read = (\<lambda>i st. case js_get (ms_data st) i of
                          None \<Rightarrow> Inl (PlainError (''No such snapshot: '' @ i)) | Some entry \<Rightarrow> Inr entry),
      ss_writeLatestPointer = (\<lambda>metadata st. st\<lparr>ms_latest := Some metadata\<rparr>),
      ss_readLatestPointer = (\<lambda>st. Inr (ms_latest st)),
      ss_list = (\<lambda>st. Inr (newest_first (map (sp_metadata \<circ> snd) (ms_data st)))),
      ss_delete = (\<lambda>i st. Inr (st\<lparr>ms_data := js_delete i (ms_data st)\<rparr>))\<rparr>"

section \<open>The manager\<close>

record SnapshotManager =
  sm_nodeId :: string
  sm_intervalMs :: int
  sm_compress :: bool
  sm_maxRetained :: nat
  sm_timer :: bool
  sm_snapshotInProgress :: bool

definition new_SnapshotManager :: "string \<Rightarrow> int \<Rightarrow> bool \<Rightarrow> nat option \<Rightarrow> SnapshotManager" where
  "new_SnapshotManager nodeId intervalMs compress maxRetainedSnapshots =
     \<lparr>sm_nodeId = nodeId, sm_intervalMs = intervalMs, sm_compress = compress,
      sm_maxRetained = (case maxRetainedSnapshots of None \<Rightarrow> 5 | Some n \<Rightarrow> n),
      sm_timer = False, sm_snapshotInProgress = False\<rparr>"

definition sm_start :: "SnapshotManager \<Rightarrow> SnapshotManager" where
  "sm_start m = (if sm_timer m \<or> sm_intervalMs m \<le> 0 then m else m\<lparr>sm_timer := True\<rparr>)"

definition sm_stop :: "SnapshotManager \<Rightarrow> SnapshotManager" where
  "sm_stop m = (if sm_timer m then m\<lparr>sm_timer := False\<rparr> else m)"

definition sm_dispose :: "SnapshotManager \<Rightarrow> SnapshotManager" where
  "sm_dispose m = sm_stop m"

fun delete_all :: "('b, 'st) ISnapshotStore \<Rightarrow> SnapshotMetadata list \<Rightarrow> 'st \<Rightarrow> unit result \<times> 'st" where
  "delete_all H [] st = (Inr (), st)"
| "delete_all H (m # ms) st =
     (case ss_delete H (md_snapshotId m) st of Inl e \<Rightarrow> (Inl e, st) | Inr st' \<Rightarrow> delete_all H ms st')"

definition pruneOldSnapshots :: "('b, 'st) ISnapshotStore \<Rightarrow> SnapshotManager \<Rightarrow> 'st \<Rightarrow> unit result \<times> 'st" where
  "pruneOldSnapshots H m st =
     (case ss_list H st of
        Inl e \<Rightarrow> (Inl e, st)
      | Inr all \<Rightarrow> if length all \<le> sm_maxRetained m then (Inr (), st)
                   else delete_all H (drop (sm_maxRetained m) all) st)"

text \<open>\<open>takeSnapshot\<close>: the guard and the capture of the entries, then everything after the serialization
  was awaited; \<open>startedAt\<close> and \<open>now\<close> are the two readings of the clock and \<open>i\<close> the generated identifier.\<close>

definition takeSnapshot_begin :: "SnapshotManager \<Rightarrow> SnapshotManager result" where
  "takeSnapshot_begin m =
     (if sm_snapshotInProgress m
      then Inl (FlowCache (SnapshotError (''Snapshot already in progress for node '' @ quoted (sm_nodeId m))))
      else Inr (m\<lparr>sm_snapshotInProgress := True\<rparr>))"

definition snapshot_metadata :: "('b \<Rightarrow> nat) \<Rightarrow> time \<Rightarrow> time \<Rightarrow> string \<Rightarrow> 'v CacheEntry list \<Rightarrow> 'b \<Rightarrow> string \<Rightarrow>
    SnapshotManager \<Rightarrow> SnapshotMetadata" where
  "snapshot_metadata byteLength startedAt now i entries payload checksum m =
     \<lparr>md_snapshotId = i, md_nodeId = sm_nodeId m, md_createdAt = startedAt, md_entryCount = length entries,
      md_sizeBytes = byteLength payload, md_durationMs = now - startedAt, md_checksum = checksum,
      md_compressed = sm_compress m\<rparr>"

definition takeSnapshot_store :: "('b, 'st) ISnapshotStore \<Rightarrow> SnapshotManager \<Rightarrow> SnapshotMetadata \<Rightarrow> 'b \<Rightarrow> 'st \<Rightarrow> unit result \<times> 'st" where
  "takeSnapshot_store H m metadata payload st =
     (case ss_write H (md_snapshotId metadata) payload metadata st of
        Inl e \<Rightarrow> (Inl e, st)
      | Inr st1 \<Rightarrow> pruneOldSnapshots H m (ss_writeLatestPointer H metadata st1))"

definition takeSnapshot :: "('b, 'st) ISnapshotStore \<Rightarrow> ('v CacheEntry list \<Rightarrow> bool \<Rightarrow> ('b \<times> string) result) \<Rightarrow>
    ('b \<Rightarrow> nat) \<Rightarrow> time \<Rightarrow> time \<Rightarrow> string \<Rightarrow> 'v CacheEntry list \<Rightarrow> SnapshotManager \<Rightarrow> 'st \<Rightarrow>
    SnapshotMetadata result \<times> SnapshotManager \<times> 'st" where
  "takeSnapshot H serialize byteLength startedAt now i entries m st =
     (case takeSnapshot_begin m of
        Inl e \<Rightarrow> (Inl e, m, st)
      | Inr m1 \<Rightarrow>
          (let m2 = m1\<lparr>sm_snapshotInProgress := False\<rparr>
           in case serialize entries (sm_compress m) of
                Inl e \<Rightarrow> (Inl e, m2, st)
              | Inr (payload, checksum) \<Rightarrow>
                  (let metadata = snapshot_metadata byteLength startedAt now i entries payload checksum m
                   in case takeSnapshot_store H m metadata payload st of
                        (Inl e, st') \<Rightarrow> (Inl e, m2, st')
                      | (Inr _, st') \<Rightarrow> (Inr metadata, m2, st'))))"

definition restoreById :: "('b, 'st) ISnapshotStore \<Rightarrow> ('v, 'b) codec \<Rightarrow> SnapshotManager \<Rightarrow> string \<Rightarrow> 'st \<Rightarrow>
    'v SnapshotPayload option result" where
  "restoreById H c m snapshotId st =
     (case ss_read H snapshotId st of
        Inl _ \<Rightarrow> Inr None
      | Inr stored \<Rightarrow>
          (let buffer = sp_buffer stored; metadata = sp_metadata stored; actualChecksum = co_sha256 c buffer
           in if actualChecksum \<noteq> md_checksum metadata
              then Inl (FlowCache (SnapshotError
                (''Checksum mismatch restoring snapshot '' @ quoted snapshotId @ '' for node '' @ quoted (sm_nodeId m) @
                 '': expected '' @ md_checksum metadata @ '', got '' @ actualChecksum @
                 ''. The snapshot file may be corrupted.'')))
              else (case (if md_compressed metadata then co_gunzip c buffer else Some buffer) of
                      None \<Rightarrow> Inl (PlainError ''incorrect header check'')
                    | Some raw \<Rightarrow>
                        (case co_parse c raw of
                           None \<Rightarrow> Inl (PlainError ''Unexpected token in JSON'')
                         | Some entries \<Rightarrow> Inr (Some \<lparr>pl_metadata = metadata, pl_entries = entries\<rparr>)))))"

definition restoreLatest :: "('b, 'st) ISnapshotStore \<Rightarrow> ('v, 'b) codec \<Rightarrow> SnapshotManager \<Rightarrow> 'st \<Rightarrow>
    'v SnapshotPayload option result" where
  "restoreLatest H c m st =
     (case ss_readLatestPointer H st of
        Inl e \<Rightarrow> Inl e
      | Inr None \<Rightarrow> Inr None
      | Inr (Some pointer) \<Rightarrow> restoreById H c m (md_snapshotId pointer) st)"

definition listSnapshots :: "('b, 'st) ISnapshotStore \<Rightarrow> 'st \<Rightarrow> SnapshotMetadata list result" where
  "listSnapshots H st = ss_list H st"

section \<open>What the manager relies on\<close>

locale snapshot_store =
  fixes H :: "('b, 'st) ISnapshotStore" and snaps :: "'st \<Rightarrow> string \<Rightarrow> 'b StoredSnapshot option"
    and latest :: "'st \<Rightarrow> SnapshotMetadata option" and ok :: "'st \<Rightarrow> bool" and valid :: "string \<Rightarrow> bool"
  assumes store_ids: "ok st \<Longrightarrow> snaps st i = Some s \<Longrightarrow> valid i \<and> md_snapshotId (sp_metadata s) = i"
    and store_write: "ok st \<Longrightarrow> valid (md_snapshotId m) \<Longrightarrow>
      \<exists>st'. ss_write H (md_snapshotId m) b m st = Inr st' \<and> ok st' \<and> latest st' = latest st \<and>
        snaps st' = (snaps st)(md_snapshotId m := Some \<lparr>sp_metadata = m, sp_buffer = b\<rparr>)"
    and store_read: "ok st \<Longrightarrow> valid i \<Longrightarrow> (case snaps st i of Some s \<Rightarrow> ss_read H i st = Inr s | None \<Rightarrow> \<exists>e. ss_read H i st = Inl e)"
    and store_pointer: "ok st \<Longrightarrow> valid (md_snapshotId m) \<Longrightarrow>
      ok (ss_writeLatestPointer H m st) \<and> latest (ss_writeLatestPointer H m st) = Some m \<and>
      snaps (ss_writeLatestPointer H m st) = snaps st"
    and store_pointer_valid: "ok st \<Longrightarrow> latest st = Some m \<Longrightarrow> valid (md_snapshotId m)"
    and store_latest: "ok st \<Longrightarrow> ss_readLatestPointer H st = Inr (latest st)"
    and store_list: "ok st \<Longrightarrow> \<exists>ms. ss_list H st = Inr ms \<and> set ms = {sp_metadata s |i s. snaps st i = Some s} \<and>
      distinct (map md_snapshotId ms) \<and> sorted_wrt (\<lambda>a b. md_createdAt b \<le> md_createdAt a) ms"
    and store_delete: "ok st \<Longrightarrow> valid i \<Longrightarrow>
      \<exists>st'. ss_delete H i st = Inr st' \<and> ok st' \<and> latest st' = latest st \<and> snaps st' = (snaps st)(i := None)"
begin

lemma delete_all_ok:
  assumes "ok st" and "\<And>m. m \<in> set ms \<Longrightarrow> valid (md_snapshotId m)"
  shows "\<exists>st'. delete_all H ms st = (Inr (), st') \<and> ok st' \<and> latest st' = latest st \<and>
    snaps st' = (\<lambda>i. if i \<in> md_snapshotId ` set ms then None else snaps st i)"
  using assms
proof (induction ms arbitrary: st)
  case (Cons m ms)
  obtain st1 where st1: "ss_delete H (md_snapshotId m) st = Inr st1" "ok st1" "latest st1 = latest st"
    "snaps st1 = (snaps st)(md_snapshotId m := None)"
    using store_delete[OF Cons.prems(1), of "md_snapshotId m"] Cons.prems(2)[of m] by auto
  then show ?case using Cons.IH[OF st1(2)] Cons.prems(2) by fastforce
qed simp

text \<open>Pruning keeps the newest \<open>maxRetained\<close> snapshots of the listing and nothing else.\<close>

lemma prune_ok:
  assumes st: "ok st"
  shows "\<exists>ms st'. ss_list H st = Inr ms \<and> pruneOldSnapshots H m st = (Inr (), st') \<and> ok st' \<and> latest st' = latest st \<and>
    snaps st' = (\<lambda>i. if i \<in> md_snapshotId ` set (drop (sm_maxRetained m) ms) then None else snaps st i) \<and>
    set ms = {sp_metadata s |i s. snaps st i = Some s} \<and> distinct (map md_snapshotId ms) \<and>
    sorted_wrt (\<lambda>a b. md_createdAt b \<le> md_createdAt a) ms"
proof -
  obtain ms where ms: "ss_list H st = Inr ms" "set ms = {sp_metadata s |i s. snaps st i = Some s}"
    "distinct (map md_snapshotId ms)" "sorted_wrt (\<lambda>a b. md_createdAt b \<le> md_createdAt a) ms" using store_list[OF st] by blast
  have "valid (md_snapshotId x)" if "x \<in> set (drop (sm_maxRetained m) ms)" for x
  proof -
    from that have "x \<in> set ms" by (rule in_set_dropD)
    then obtain i s where "x = sp_metadata s" "snaps st i = Some s" using ms(2) by blast
    then show ?thesis using store_ids[OF st] by blast
  qed
  from delete_all_ok[OF st this] obtain st' where "delete_all H (drop (sm_maxRetained m) ms) st = (Inr (), st')"
    "ok st'" "latest st' = latest st"
    "snaps st' = (\<lambda>i. if i \<in> md_snapshotId ` set (drop (sm_maxRetained m) ms) then None else snaps st i)" by blast
  then show ?thesis using ms st by (cases "length ms \<le> sm_maxRetained m") (auto simp: pruneOldSnapshots_def)
qed

lemma prune_bound:
  assumes st: "ok st" and p: "pruneOldSnapshots H m st = (Inr (), st')"
  shows "\<exists>ms'. ss_list H st' = Inr ms' \<and> length ms' \<le> sm_maxRetained m \<and> set ms' = {sp_metadata s |i s. snaps st' i = Some s}"
proof -
  let ?n = "sm_maxRetained m"
  obtain ms where ms: "ok st'" "set ms = {sp_metadata s |i s. snaps st i = Some s}"
    "snaps st' = (\<lambda>i. if i \<in> md_snapshotId ` set (drop ?n ms) then None else snaps st i)" using prune_ok[OF st, of m] p by auto
  obtain ms' where l: "ss_list H st' = Inr ms'" "set ms' = {sp_metadata s |i s. snaps st' i = Some s}" "distinct (map md_snapshotId ms')"
    using store_list[OF ms(1)] by blast
  have "set (map md_snapshotId ms') \<subseteq> set (map md_snapshotId (take ?n ms))"
  proof
    fix j assume "j \<in> set (map md_snapshotId ms')"
    then obtain s k where k: "snaps st' k = Some s" "j = md_snapshotId (sp_metadata s)" by (auto simp: l(2))
    then have j: "j = k" using store_ids[OF ms(1)] by blast
    have "snaps st k = Some s" "k \<notin> md_snapshotId ` set (drop ?n ms)" using k(1) unfolding ms(3) by (auto split: if_splits)
    moreover from this have "k \<in> md_snapshotId ` set ms" using k(2) j unfolding ms(2) by blast
    ultimately show "j \<in> set (map md_snapshotId (take ?n ms))"
      using j by (metis append_take_drop_id image_Un list.set_map set_append UnE)
  qed
  then have "length ms' \<le> ?n"
    using card_mono[of "set (map md_snapshotId (take ?n ms))" "set (map md_snapshotId ms')"]
      distinct_card[OF l(3)] card_length[of "map md_snapshotId (take ?n ms)"] by simp
  with l show ?thesis by blast
qed

lemma restore_from_snaps:
  assumes "ok st" and "valid i"
  shows "restoreById H c m i st = (case snaps st i of None \<Rightarrow> Inr None
    | Some s \<Rightarrow> if co_sha256 c (sp_buffer s) \<noteq> md_checksum (sp_metadata s)
        then restoreById H c m i st
        else case (if md_compressed (sp_metadata s) then co_gunzip c (sp_buffer s) else Some (sp_buffer s)) of
               None \<Rightarrow> Inl (PlainError ''incorrect header check'')
             | Some raw \<Rightarrow> (case co_parse c raw of None \<Rightarrow> Inl (PlainError ''Unexpected token in JSON'')
                            | Some es \<Rightarrow> Inr (Some \<lparr>pl_metadata = sp_metadata s, pl_entries = es\<rparr>)))"
  using store_read[OF assms] by (auto simp: restoreById_def Let_def split: option.splits)

text \<open>A snapshot newer than everything stored survives its own pruning.\<close>

lemma newest_kept:
  assumes "sorted_wrt (\<lambda>a b. md_createdAt b \<le> md_createdAt a) ms" and "x \<in> set ms" and "0 < n"
    and "\<And>y. y \<in> set ms \<Longrightarrow> y \<noteq> x \<Longrightarrow> md_createdAt y < md_createdAt x" and "distinct (map md_snapshotId ms)"
  shows "md_snapshotId x \<notin> md_snapshotId ` set (drop n ms)"
proof (cases ms)
  case (Cons y ys)
  have "y = x"
  proof (rule ccontr)
    assume "y \<noteq> x"
    with assms Cons have "md_createdAt y < md_createdAt x" "x \<in> set ys" by auto
    with assms(1) Cons show False by auto
  qed
  then have "md_snapshotId x \<notin> md_snapshotId ` set ys" using assms(5) Cons by simp
  moreover have "set (drop n ms) \<subseteq> set ys" using assms(3) Cons by (cases n) (auto dest: in_set_dropD)
  ultimately show ?thesis by blast
qed simp

lemma pruning_keeps_newest:
  assumes st: "ok st" and i: "snaps st i = Some s" and keep: "0 < n" and l: "ss_list H st = Inr ms"
    and newest: "\<And>j t. snaps st j = Some t \<Longrightarrow> j \<noteq> i \<Longrightarrow> md_createdAt (sp_metadata t) < md_createdAt (sp_metadata s)"
  shows "i \<notin> md_snapshotId ` set (drop n ms)"
proof -
  have ms: "set ms = {sp_metadata s |i s. snaps st i = Some s}" "distinct (map md_snapshotId ms)"
    "sorted_wrt (\<lambda>a b. md_createdAt b \<le> md_createdAt a) ms" using store_list[OF st] l by auto
  have s: "sp_metadata s \<in> set ms" "md_snapshotId (sp_metadata s) = i" using ms(1) i store_ids[OF st i] by auto
  have "md_createdAt y < md_createdAt (sp_metadata s)" if "y \<in> set ms" "y \<noteq> sp_metadata s" for y
    using that newest i unfolding ms(1) by force
  from newest_kept[OF ms(3) s(1) keep this ms(2)] show ?thesis by (simp add: s(2))
qed

lemma take_then_restore:
  assumes st: "ok st" and v: "valid i" and c: "codec_ok c" and free: "\<not> sm_snapshotInProgress m" and keep: "0 < sm_maxRetained m"
    and newest: "\<And>j s. snaps st j = Some s \<Longrightarrow> j \<noteq> i \<Longrightarrow> md_createdAt (sp_metadata s) < startedAt"
  shows "\<exists>md st'. takeSnapshot H (serialize_inline c) (co_byteLength c) startedAt now i entries m st = (Inr md, m, st') \<and> ok st' \<and>
    restoreLatest H c m st' = Inr (Some \<lparr>pl_metadata = md, pl_entries = entries\<rparr>) \<and>
    md_snapshotId md = i \<and> md_entryCount md = length entries \<and>
    (\<exists>ms. listSnapshots H st' = Inr ms \<and> md \<in> set ms \<and> length ms \<le> sm_maxRetained m)"
proof -
  define p where "p = (if sm_compress m then co_gzip c (co_stringify c entries) else co_stringify c entries)"
  define md where "md = snapshot_metadata (co_byteLength c) startedAt now i entries p (co_sha256 c p) m"
  have id: "md_snapshotId md = i" by (simp add: md_def snapshot_metadata_def)
  obtain st1 where st1: "ss_write H i p md st = Inr st1" "ok st1" "snaps st1 = (snaps st)(i := Some \<lparr>sp_metadata = md, sp_buffer = p\<rparr>)"
    using store_write[OF st, of md p] v id by auto
  define st2 where "st2 = ss_writeLatestPointer H md st1"
  have st2: "ok st2" "latest st2 = Some md" "snaps st2 = (snaps st)(i := Some \<lparr>sp_metadata = md, sp_buffer = p\<rparr>)"
    using store_pointer[OF st1(2), of md] v id st1(3) by (simp_all add: st2_def)
  obtain ms st' where pr: "ss_list H st2 = Inr ms" "pruneOldSnapshots H m st2 = (Inr (), st')" "ok st'" "latest st' = latest st2"
    "snaps st' = (\<lambda>i. if i \<in> md_snapshotId ` set (drop (sm_maxRetained m) ms) then None else snaps st2 i)"
    "set ms = {sp_metadata s |i s. snaps st2 i = Some s}" "distinct (map md_snapshotId ms)"
    "sorted_wrt (\<lambda>a b. md_createdAt b \<le> md_createdAt a) ms" using prune_ok[OF st2(1), of m] by blast
  have "i \<notin> md_snapshotId ` set (drop (sm_maxRetained m) ms)"
    by (rule pruning_keeps_newest[OF st2(1) _ keep pr(1)]) (use newest in \<open>auto simp: st2(3) md_def snapshot_metadata_def split: if_splits\<close>)
  then have i: "snaps st' i = Some \<lparr>sp_metadata = md, sp_buffer = p\<rparr>" by (simp add: pr(5) st2(3))
  have restore: "restoreLatest H c m st' = Inr (Some \<lparr>pl_metadata = md, pl_entries = entries\<rparr>)"
    using restore_from_snaps[OF pr(3) v, of c m] store_latest[OF pr(3)] pr(4) st2(2) id i c
    by (simp add: restoreLatest_def codec_ok_def) (simp add: md_def snapshot_metadata_def p_def)
  obtain ms' where l: "ss_list H st' = Inr ms'" "length ms' \<le> sm_maxRetained m"
    "set ms' = {sp_metadata s |i s. snaps st' i = Some s}" using prune_bound[OF st2(1) pr(2)] by blast
  moreover have "md \<in> set ms'" unfolding l(3) using i by force
  moreover have "takeSnapshot H (serialize_inline c) (co_byteLength c) startedAt now i entries m st = (Inr md, m, st')"
    using free st1(1) pr(2) id
    by (simp add: takeSnapshot_def takeSnapshot_begin_def serialize_inline_def takeSnapshot_store_def Let_def
        p_def[symmetric] md_def[symmetric] st2_def[symmetric])
  ultimately show ?thesis using restore pr(3) id l(1,2)
    by (auto simp: listSnapshots_def md_def snapshot_metadata_def)
qed

lemma restoreLatest_eq:
  assumes "ok st"
  shows "restoreLatest H c m st =
    (case latest st of None \<Rightarrow> Inr None | Some md \<Rightarrow> restoreById H c m (md_snapshotId md) st)"
  using store_latest[OF assms] by (simp add: restoreLatest_def split: option.splits)

lemma restoreById_cong:
  assumes "ok st" and "ok st'" and "valid i" and "snaps st i = snaps st' i"
  shows "restoreById H c m i st = restoreById H c m i st'"
proof (cases "snaps st i")
  case None
  with assms restore_from_snaps[of st i c m] restore_from_snaps[of st' i c m] show ?thesis by simp
next
  case (Some s)
  then have "ss_read H i st = Inr s" "ss_read H i st' = Inr s"
    using store_read[OF assms(1,3)] store_read[OF assms(2,3)] assms(4) by simp_all
  then show ?thesis by (simp add: restoreById_def)
qed

end

section \<open>The two stores keep the contract\<close>

lemma newest_first_props [simp]:
  "set (newest_first ms) = set ms" "distinct (map md_snapshotId (newest_first ms)) \<longleftrightarrow> distinct (map md_snapshotId ms)"
  "sorted_wrt (\<lambda>a b. md_createdAt b \<le> md_createdAt a) (newest_first ms)"
proof -
  show "set (newest_first ms) = set ms" by (simp add: newest_first_def)
  show "distinct (map md_snapshotId (newest_first ms)) \<longleftrightarrow> distinct (map md_snapshotId ms)"
    by (simp add: newest_first_def distinct_map)
  have "sorted (map (\<lambda>m. - md_createdAt m) (newest_first ms))" by (simp add: newest_first_def)
  then show "sorted_wrt (\<lambda>a b. md_createdAt b \<le> md_createdAt a) (newest_first ms)" by (simp add: sorted_map)
qed

definition mem_ok :: "'b memory_store \<Rightarrow> bool" where
  "mem_ok st \<longleftrightarrow> js_map_ok (ms_data st) \<and> (\<forall>i s. js_get (ms_data st) i = Some s \<longrightarrow> md_snapshotId (sp_metadata s) = i)"

interpretation mem: snapshot_store InMemorySnapshotStore "\<lambda>st. js_get (ms_data st)" ms_latest mem_ok "\<lambda>_. True"
proof (unfold_locales, goal_cases)
  case (3 st i)
  then show ?case by (simp add: InMemorySnapshotStore_def split: option.splits)
next
  case (7 st)
  then have key: "md_snapshotId (sp_metadata (snd q)) = fst q" if "q \<in> set (ms_data st)" for q
    using that by (auto simp: mem_ok_def map_of_eq_Some_iff prod_eq_iff)
  then have "map md_snapshotId (map (sp_metadata \<circ> snd) (ms_data st)) = js_keys (ms_data st)" by simp
  moreover have "js_map_ok (ms_data st)" using 7 by (simp add: mem_ok_def)
  ultimately have "distinct (map md_snapshotId (map (sp_metadata \<circ> snd) (ms_data st)))" by (simp only:)
  moreover have "set (map (sp_metadata \<circ> snd) (ms_data st)) = {sp_metadata s |i s. js_get (ms_data st) i = Some s}"
    using 7 by (force simp: mem_ok_def map_of_eq_Some_iff)
  ultimately show ?case by (simp add: InMemorySnapshotStore_def)
qed (auto simp: InMemorySnapshotStore_def mem_ok_def js_map_simps split: if_splits)

lemma paths_distinct [simp]:
  "dataPath i \<noteq> metaPath j" "dataPath i \<noteq> LATEST_POINTER_FILE" "metaPath i \<noteq> LATEST_POINTER_FILE"
  "\<not> suffix METADATA_SUFFIX (dataPath i)" "\<not> suffix METADATA_SUFFIX LATEST_POINTER_FILE" "suffix METADATA_SUFFIX (metaPath i)"
  "dataPath i = dataPath j \<longleftrightarrow> i = j" "metaPath i = metaPath j \<longleftrightarrow> i = j"
proof -
  have rev: "xs = ys \<longleftrightarrow> rev xs = rev ys" for xs ys :: string by simp
  note d = dataPath_def metaPath_def DATA_SUFFIX_def METADATA_SUFFIX_def LATEST_POINTER_FILE_def
  show "dataPath i \<noteq> metaPath j" "dataPath i \<noteq> LATEST_POINTER_FILE" "metaPath i \<noteq> LATEST_POINTER_FILE"
    unfolding rev[of "dataPath i"] rev[of "metaPath i"] by (simp_all add: d)
  show "\<not> suffix METADATA_SUFFIX (dataPath i)" "\<not> suffix METADATA_SUFFIX LATEST_POINTER_FILE" "suffix METADATA_SUFFIX (metaPath i)"
    by (simp_all add: suffix_to_prefix d)
  show "dataPath i = dataPath j \<longleftrightarrow> i = j" "metaPath i = metaPath j \<longleftrightarrow> i = j" by (simp_all add: d)
qed

lemmas paths_distinct' [simp] = paths_distinct(1-3)[symmetric]

definition file_snaps :: "'b directory \<Rightarrow> string \<Rightarrow> 'b StoredSnapshot option" where
  "file_snaps d i = (if VALID_SNAPSHOT_ID i then case (js_get d (dataPath i), js_get d (metaPath i)) of
       (Some (DataFile b), Some (MetaFile m)) \<Rightarrow> Some \<lparr>sp_metadata = m, sp_buffer = b\<rparr> | _ \<Rightarrow> None else None)"

definition file_latest :: "'b directory \<Rightarrow> SnapshotMetadata option" where
  "file_latest d = (case js_get d LATEST_POINTER_FILE of Some (MetaFile m) \<Rightarrow> Some m | _ \<Rightarrow> None)"

text \<open>A directory only this store has written to.\<close>

definition file_ok :: "'b directory \<Rightarrow> bool" where
  "file_ok d \<longleftrightarrow> js_map_ok d \<and>
     (\<forall>f. js_get d LATEST_POINTER_FILE = Some f \<longrightarrow> (\<exists>m. f = MetaFile m \<and> VALID_SNAPSHOT_ID (md_snapshotId m))) \<and>
     (\<forall>name f. js_get d name = Some f \<longrightarrow> suffix METADATA_SUFFIX name \<longrightarrow>
        (\<exists>m b. name = metaPath (md_snapshotId m) \<and> f = MetaFile m \<and> VALID_SNAPSHOT_ID (md_snapshotId m) \<and>
           js_get d (dataPath (md_snapshotId m)) = Some (DataFile b)))"

lemma parse_all_metas: "parse_all (map MetaFile ms) = Inr ms"
  by (induction ms) (simp_all add: parse_meta_def)

lemma file_list_ok:
  assumes ok: "file_ok d"
  shows "\<exists>ms. file_list d = Inr ms \<and> set ms = {sp_metadata s |i s. file_snaps d i = Some s} \<and>
    distinct (map md_snapshotId ms) \<and> sorted_wrt (\<lambda>a b. md_createdAt b \<le> md_createdAt a) ms"
proof -
  let ?fs = "filter (\<lambda>p. suffix METADATA_SUFFIX (fst p)) d"
  define ms where "ms = map (\<lambda>p. case snd p of MetaFile m \<Rightarrow> m) ?fs"
  have entry: "\<exists>m b. snd p = MetaFile m \<and> fst p = metaPath (md_snapshotId m) \<and> VALID_SNAPSHOT_ID (md_snapshotId m) \<and>
      js_get d (dataPath (md_snapshotId m)) = Some (DataFile b)" if "p \<in> set ?fs" for p
  proof -
    have "js_get d (fst p) = Some (snd p)" using that ok by (auto simp: file_ok_def)
    moreover have "suffix METADATA_SUFFIX (fst p)" using that by simp
    ultimately show ?thesis using ok unfolding file_ok_def by blast
  qed
  have "map snd ?fs = map MetaFile ms" unfolding ms_def map_map by (rule map_cong) (use entry in fastforce)+
  then have l: "file_list d = Inr (newest_first ms)" by (simp add: file_list_def parse_all_metas)
  have names: "map fst ?fs = map (metaPath \<circ> md_snapshotId) ms" unfolding ms_def map_map by (rule map_cong) (use entry in fastforce)+
  have "distinct (map fst ?fs)" using ok by (simp add: file_ok_def distinct_map_filter)
  then have dist: "distinct (map md_snapshotId ms)" unfolding names by (auto simp: distinct_map inj_on_def)
  have "m \<in> set ms \<longleftrightarrow> (\<exists>i s. m = sp_metadata s \<and> file_snaps d i = Some s)" for m
  proof
    assume "m \<in> set ms"
    then obtain p where p: "p \<in> set ?fs" "m = (case snd p of MetaFile m \<Rightarrow> m)" by (auto simp: ms_def)
    with entry[OF p(1)] obtain b where b: "snd p = MetaFile m" "fst p = metaPath (md_snapshotId m)"
      "VALID_SNAPSHOT_ID (md_snapshotId m)" "js_get d (dataPath (md_snapshotId m)) = Some (DataFile b)" by auto
    have "js_get d (metaPath (md_snapshotId m)) = Some (MetaFile m)" using p(1) b ok by (metis file_ok_def filter_is_subset map_of_eq_Some_iff prod.collapse subsetD)
    with b have "file_snaps d (md_snapshotId m) = Some \<lparr>sp_metadata = m, sp_buffer = b\<rparr>" by (simp add: file_snaps_def)
    then show "\<exists>i s. m = sp_metadata s \<and> file_snaps d i = Some s" by (metis StoredSnapshot.select_convs(1))
  next
    assume "\<exists>i s. m = sp_metadata s \<and> file_snaps d i = Some s"
    then obtain i where i: "js_get d (metaPath i) = Some (MetaFile m)"
      by (auto simp: file_snaps_def split: if_splits option.splits file_content.splits)
    then have "(metaPath i, MetaFile m) \<in> set ?fs" by (auto dest: map_of_SomeD)
    then show "m \<in> set ms" unfolding ms_def by force
  qed
  with l dist show ?thesis by auto
qed

lemma file_ok_write:
  assumes ok: "file_ok d" and v: "VALID_SNAPSHOT_ID (md_snapshotId m)"
  shows "file_ok (js_set (metaPath (md_snapshotId m)) (MetaFile m) (js_set (dataPath (md_snapshotId m)) (DataFile b) d))"
    (is "file_ok ?d")
proof -
  let ?i = "md_snapshotId m"
  have meta: "\<exists>k b. name = metaPath (md_snapshotId k) \<and> f = MetaFile k \<and> VALID_SNAPSHOT_ID (md_snapshotId k) \<and>
      js_get ?d (dataPath (md_snapshotId k)) = Some (DataFile b)" if f: "js_get ?d name = Some f" "suffix METADATA_SUFFIX name" for name f
  proof (cases "name = metaPath ?i")
    case True
    with f(1) v show ?thesis by (auto simp: js_map_simps)
  next
    case False
    have "name \<noteq> dataPath ?i" using f(2) by auto
    with False f have "js_get d name = Some f" by (simp add: js_map_simps)
    with ok f(2) obtain k b' where "name = metaPath (md_snapshotId k)" "f = MetaFile k" "VALID_SNAPSHOT_ID (md_snapshotId k)"
      "js_get d (dataPath (md_snapshotId k)) = Some (DataFile b')" unfolding file_ok_def by blast
    then show ?thesis by (auto simp: js_map_simps)
  qed
  show ?thesis unfolding file_ok_def
  proof (intro conjI allI impI)
    show "js_map_ok ?d" using ok by (simp add: file_ok_def)
    show "\<exists>m. f = MetaFile m \<and> VALID_SNAPSHOT_ID (md_snapshotId m)" if "js_get ?d LATEST_POINTER_FILE = Some f" for f
      using ok that by (simp add: file_ok_def js_map_simps)
  qed (rule meta)
qed

lemma file_ok_delete:
  assumes ok: "file_ok d"
  shows "file_ok (js_delete (metaPath i) (js_delete (dataPath i) d))" (is "file_ok ?d")
proof -
  have meta: "\<exists>k b. name = metaPath (md_snapshotId k) \<and> f = MetaFile k \<and> VALID_SNAPSHOT_ID (md_snapshotId k) \<and>
      js_get ?d (dataPath (md_snapshotId k)) = Some (DataFile b)" if f: "js_get ?d name = Some f" "suffix METADATA_SUFFIX name" for name f
  proof -
    from f have "name \<noteq> metaPath i" "js_get d name = Some f" by (auto simp: js_map_simps split: if_splits)
    with ok f(2) obtain k b' where k: "name = metaPath (md_snapshotId k)" "f = MetaFile k" "VALID_SNAPSHOT_ID (md_snapshotId k)"
      "js_get d (dataPath (md_snapshotId k)) = Some (DataFile b')" unfolding file_ok_def by blast
    with \<open>name \<noteq> metaPath i\<close> have "md_snapshotId k \<noteq> i" by auto
    with k show ?thesis by (auto simp: js_map_simps)
  qed
  show ?thesis unfolding file_ok_def
  proof (intro conjI allI impI)
    show "js_map_ok ?d" using ok by (simp add: file_ok_def)
    show "\<exists>m. f = MetaFile m \<and> VALID_SNAPSHOT_ID (md_snapshotId m)" if "js_get ?d LATEST_POINTER_FILE = Some f" for f
      using ok that by (simp add: file_ok_def js_map_simps)
  qed (rule meta)
qed

lemma file_ok_pointer:
  assumes ok: "file_ok d" and v: "VALID_SNAPSHOT_ID (md_snapshotId m)"
  shows "file_ok (js_set LATEST_POINTER_FILE (MetaFile m) d)" (is "file_ok ?d")
proof -
  have other: "js_get ?d name = js_get d name" if "name \<noteq> LATEST_POINTER_FILE" for name using that by (simp add: js_map_simps)
  have "suffix METADATA_SUFFIX name \<Longrightarrow> name \<noteq> LATEST_POINTER_FILE" for name by auto
  with ok v other show ?thesis by (fastforce simp: file_ok_def js_map_simps)
qed

interpretation files: snapshot_store FileSnapshotStore file_snaps file_latest file_ok VALID_SNAPSHOT_ID
proof (unfold_locales, goal_cases)
  case (1 st i s)
  then obtain m b where mb: "VALID_SNAPSHOT_ID i" "js_get st (metaPath i) = Some (MetaFile m)" "s = \<lparr>sp_metadata = m, sp_buffer = b\<rparr>"
    by (auto simp: file_snaps_def split: if_splits option.splits file_content.splits)
  then have "md_snapshotId m = i" using 1(1) unfolding file_ok_def by (metis file_content.inject(2) paths_distinct(6,8))
  with mb show ?case by simp
next
  case (2 st m b)
  let ?d = "js_set (metaPath (md_snapshotId m)) (MetaFile m) (js_set (dataPath (md_snapshotId m)) (DataFile b) st)"
  have "file_snaps ?d = (file_snaps st)(md_snapshotId m := Some \<lparr>sp_metadata = m, sp_buffer = b\<rparr>)"
    using 2 by (simp add: fun_eq_iff file_snaps_def js_map_simps)
  moreover have "file_latest ?d = file_latest st" by (simp add: file_latest_def js_map_simps)
  ultimately show ?case using 2 file_ok_write[OF 2] by (simp add: FileSnapshotStore_def file_write_def assertValidSnapshotId_def)
next
  case (3 st i)
  have "js_get st (metaPath i) = Some f \<Longrightarrow> \<exists>m. f = MetaFile m" for f
    using 3(1) unfolding file_ok_def by (metis paths_distinct(6))
  with 3(2) show ?case
    by (auto simp: FileSnapshotStore_def file_read_def file_snaps_def assertValidSnapshotId_def parse_meta_def
        split: option.splits file_content.splits)
next
  case (4 st m)
  then show ?case using file_ok_pointer[OF 4]
    by (simp add: FileSnapshotStore_def file_writeLatestPointer_def file_latest_def file_snaps_def js_map_simps fun_eq_iff)
next
  case (5 st m)
  then show ?case by (auto simp: file_ok_def file_latest_def split: option.splits file_content.splits)
next
  case (6 st)
  then show ?case
    by (auto simp: file_ok_def file_latest_def FileSnapshotStore_def file_readLatestPointer_def parse_meta_def
        split: option.splits file_content.splits)
next
  case (7 st)
  then show ?case using file_list_ok[OF 7] by (simp add: FileSnapshotStore_def)
next
  case (8 st i)
  have "file_snaps (js_delete (metaPath i) (js_delete (dataPath i) st)) = (file_snaps st)(i := None)"
    by (simp add: fun_eq_iff file_snaps_def js_map_simps)
  moreover have "file_latest (js_delete (metaPath i) (js_delete (dataPath i) st)) = file_latest st"
    by (simp add: file_latest_def js_map_simps)
  ultimately show ?case using 8 file_ok_delete[OF 8(1), of i]
    by (simp add: FileSnapshotStore_def file_delete_def assertValidSnapshotId_def)
qed

section \<open>Properties\<close>

text \<open>C31. A snapshot can be restored: on a directory this store wrote, with JSON and gzip reversible, at least
  one snapshot retained and a clock past every stored snapshot, \<open>takeSnapshot\<close> succeeds, \<open>restoreLatest\<close>
  then returns exactly the captured entries under the returned metadata, the manager is ready for the
  next snapshot, and at most \<open>maxRetained\<close> snapshots remain, the new one among them.\<close>

theorem snapshot_roundtrip:
  assumes "codec_ok c" and "file_ok d" and "VALID_SNAPSHOT_ID i" and "\<not> sm_snapshotInProgress m" and "0 < sm_maxRetained m"
    and "\<And>j s. file_snaps d j = Some s \<Longrightarrow> j \<noteq> i \<Longrightarrow> md_createdAt (sp_metadata s) < startedAt"
  shows "\<exists>md d'. takeSnapshot FileSnapshotStore (serialize_inline c) (co_byteLength c) startedAt now i entries m d = (Inr md, m, d') \<and>
    file_ok d' \<and> restoreLatest FileSnapshotStore c m d' = Inr (Some \<lparr>pl_metadata = md, pl_entries = entries\<rparr>) \<and>
    md_snapshotId md = i \<and> md_entryCount md = length entries \<and>
    (\<exists>ms. listSnapshots FileSnapshotStore d' = Inr ms \<and> md \<in> set ms \<and> length ms \<le> sm_maxRetained m)"
  by (rule files.take_then_restore[OF assms(2,3,1,4,5)]) (rule assms(6))

definition demo_codec :: "(nat, nat CacheEntry list) codec" where
  "demo_codec = \<lparr>co_stringify = (\<lambda>es. es), co_parse = Some, co_gzip = rev, co_gunzip = Some \<circ> rev,
     co_sha256 = (\<lambda>es. replicate (length es) CHR ''x''), co_byteLength = length\<rparr>"

definition demo_manager :: SnapshotManager where
  "demo_manager = new_SnapshotManager ''n1'' 60000 True (Some 1)"

definition demo_metadata :: SnapshotMetadata where
  "demo_metadata = snapshot_metadata (co_byteLength demo_codec) 5 7 ''snap_1'' ([] :: nat CacheEntry list) [] [] demo_manager"

lemma demo_codec_ok: "codec_ok demo_codec"
  by (simp add: codec_ok_def demo_codec_def)

lemma empty_directory_ok: "file_ok []" "file_snaps [] i = None" "file_latest [] = None"
  by (simp_all add: file_ok_def file_snaps_def file_latest_def)

lemma demo_id_valid: "VALID_SNAPSHOT_ID ''snap_1''"
  by (simp add: VALID_SNAPSHOT_ID_def id_char_def)

theorem snapshot_roundtrip_witness:
  "\<exists>md d'. takeSnapshot FileSnapshotStore (serialize_inline demo_codec) (co_byteLength demo_codec) 5 7 ''snap_1'' [] demo_manager [] =
      (Inr md, demo_manager, d') \<and>
    restoreLatest FileSnapshotStore demo_codec demo_manager d' = Inr (Some \<lparr>pl_metadata = md, pl_entries = []\<rparr>)"
  using snapshot_roundtrip[OF demo_codec_ok empty_directory_ok(1) demo_id_valid, of demo_manager 5 7 "[]"]
  by (auto simp: demo_manager_def new_SnapshotManager_def empty_directory_ok)

definition after_step_back :: "nat CacheEntry list memory_store" where
  "after_step_back =
     (let st1 = snd (snd (takeSnapshot InMemorySnapshotStore (serialize_inline demo_codec) length 10 10 ''a'' [] demo_manager
            \<lparr>ms_data = [], ms_latest = None\<rparr>))
      in snd (snd (takeSnapshot InMemorySnapshotStore (serialize_inline demo_codec) length 5 5 ''b'' [] demo_manager st1)))"

text \<open>If the clock has stepped back, the snapshot just taken can be pruned at once while the pointer names
  it: here one snapshot is retained, the second is taken at an earlier time than the first, and
  afterwards \<open>restoreLatest\<close> finds nothing although a snapshot is stored.\<close>

theorem clock_step_back_loses_latest:
  "restoreLatest InMemorySnapshotStore demo_codec demo_manager after_step_back = Inr None \<and>
   js_keys (ms_data after_step_back) = [''a'']"
  by (simp add: after_step_back_def takeSnapshot_def takeSnapshot_begin_def takeSnapshot_store_def serialize_inline_def
      pruneOldSnapshots_def snapshot_metadata_def InMemorySnapshotStore_def newest_first_def demo_manager_def
      new_SnapshotManager_def demo_codec_def restoreLatest_def restoreById_def Let_def)

end
