(* ===== verification/WorkerPool.thy ===== *)
theory WorkerPool
  imports Shared
begin

text \<open>
  \<open>packages/worker-pool/src/WorkerPool.ts\<close>: the pool of worker threads.  Each method is a function
  from the pool to its effects (messages posted, promises settled, events emitted) and the next pool.
  Threads, timers and the event loop are the environment: their callbacks are the rules of a step
  relation, in any order.  \<open>generateId\<close> is relied on for fresh task identifiers, and
  \<open>workerEntry.ts\<close> for answering the request it was sent.
\<close>

section \<open>Tasks, workers and the pool\<close>

record 'p TaskRequest =
  tr_taskId :: string
  tr_type :: string
  tr_payload :: 'p

datatype 'r TaskResult =
    TaskSuccessResult (task_result_id: string) 'r rat
  | TaskErrorResult (task_result_id: string) string rat

record 'p PendingTask =
  pt_taskId :: string
  pt_type :: string
  pt_payload :: 'p
  pt_timeoutHandle :: bool

record ManagedWorker =
  mw_id :: nat
  mw_busy :: bool
  mw_currentTaskId :: "string option"

record 'p WorkerPool =
  wp_size :: nat
  wp_defaultTimeoutMs :: nat
  wp_workers :: "ManagedWorker list"
  wp_queue :: "'p PendingTask list"
  wp_pendingByTaskId :: "(string, 'p PendingTask) js_map"
  wp_nextWorkerId :: nat
  wp_disposed :: bool

datatype ('p, 'r) pool_effect =
    PostMessage nat "'p TaskRequest"
  | StartTimer string nat
  | ClearTimer string
  | ResolveTask string 'r
  | RejectTask string string
  | RejectSubmission string
  | Terminate nat
  | EmitWorkerSpawned nat
  | EmitTaskCompleted "'r TaskResult"
  | EmitWorkerError nat string
  | EmitWorkerExit nat int

definition DEFAULT_TASK_TIMEOUT_MS :: nat where "DEFAULT_TASK_TIMEOUT_MS = 30000"

definition update_worker :: "nat \<Rightarrow> (ManagedWorker \<Rightarrow> ManagedWorker) \<Rightarrow> 'p WorkerPool \<Rightarrow> 'p WorkerPool" where
  "update_worker wid f s = s\<lparr>wp_workers := map (\<lambda>w. if mw_id w = wid then f w else w) (wp_workers s)\<rparr>"

definition find_worker :: "nat \<Rightarrow> 'p WorkerPool \<Rightarrow> ManagedWorker option" where
  "find_worker wid s = List.find (\<lambda>w. mw_id w = wid) (wp_workers s)"

section \<open>The methods\<close>

definition spawnWorker :: "'p WorkerPool \<Rightarrow> ('p, 'r) pool_effect list \<times> 'p WorkerPool" where
  "spawnWorker s =
     (let i = wp_nextWorkerId s
      in ([EmitWorkerSpawned i],
          s\<lparr>wp_nextWorkerId := i + 1,
            wp_workers := wp_workers s @ [\<lparr>mw_id = i, mw_busy = False, mw_currentTaskId = None\<rparr>]\<rparr>))"

fun spawnWorkers :: "nat \<Rightarrow> 'p WorkerPool \<Rightarrow> ('p, 'r) pool_effect list \<times> 'p WorkerPool" where
  "spawnWorkers 0 s = ([], s)"
| "spawnWorkers (Suc n) s =
     (let (e1, s1) = spawnWorker s; (e2, s2) = spawnWorkers n s1 in (e1 @ e2, s2))"

definition new_WorkerPool :: "nat \<Rightarrow> nat option \<Rightarrow> ('p, 'r) pool_effect list \<times> 'p WorkerPool" where
  "new_WorkerPool sz taskTimeoutMs =
     spawnWorkers (max 1 sz)
       \<lparr>wp_size = max 1 sz,
        wp_defaultTimeoutMs = (case taskTimeoutMs of None \<Rightarrow> DEFAULT_TASK_TIMEOUT_MS | Some t \<Rightarrow> t),
        wp_workers = [], wp_queue = [], wp_pendingByTaskId = [], wp_nextWorkerId = 0, wp_disposed = False\<rparr>"

definition dispatch :: "nat \<Rightarrow> 'p PendingTask \<Rightarrow> 'p WorkerPool \<Rightarrow> ('p, 'r) pool_effect list \<times> 'p WorkerPool" where
  "dispatch wid pending s =
     ([PostMessage wid \<lparr>tr_taskId = pt_taskId pending, tr_type = pt_type pending, tr_payload = pt_payload pending\<rparr>],
      update_worker wid (\<lambda>w. w\<lparr>mw_busy := True, mw_currentTaskId := Some (pt_taskId pending)\<rparr>) s)"

definition submitTask :: "string \<Rightarrow> string \<Rightarrow> 'p \<Rightarrow> nat option \<Rightarrow> 'p WorkerPool \<Rightarrow>
    ('p, 'r) pool_effect list \<times> 'p WorkerPool" where
  "submitTask taskId type payload timeoutMs s =
     (if wp_disposed s
      then ([RejectSubmission ''Cannot submit a task: WorkerPool has already been disposed''], s)
      else
        (let effectiveTimeoutMs = (case timeoutMs of None \<Rightarrow> wp_defaultTimeoutMs s | Some t \<Rightarrow> t);
             pending = \<lparr>pt_taskId = taskId, pt_type = type, pt_payload = payload,
                        pt_timeoutHandle = effectiveTimeoutMs > 0\<rparr>;
             e1 = (if effectiveTimeoutMs > 0 then [StartTimer taskId effectiveTimeoutMs] else []);
             s1 = s\<lparr>wp_pendingByTaskId := js_set taskId pending (wp_pendingByTaskId s)\<rparr>
         in case List.find (\<lambda>w. \<not> mw_busy w) (wp_workers s1) of
              Some idleWorker \<Rightarrow> (let (e2, s2) = dispatch (mw_id idleWorker) pending s1 in (e1 @ e2, s2))
            | None \<Rightarrow> (e1, s1\<lparr>wp_queue := wp_queue s1 @ [pending]\<rparr>)))"

definition drainQueueTo :: "nat \<Rightarrow> 'p WorkerPool \<Rightarrow> ('p, 'r) pool_effect list \<times> 'p WorkerPool" where
  "drainQueueTo wid s =
     (case find_worker wid s of
        None \<Rightarrow> ([], s)
      | Some w \<Rightarrow>
          if mw_busy w \<or> wp_disposed s then ([], s)
          else (case wp_queue s of
                  [] \<Rightarrow> ([], s)
                | nxt # rest \<Rightarrow> dispatch wid nxt (s\<lparr>wp_queue := rest\<rparr>)))"

definition replaceWorker :: "nat \<Rightarrow> 'p WorkerPool \<Rightarrow> ('p, 'r) pool_effect list \<times> 'p WorkerPool" where
  "replaceWorker wid s =
     (let s1 = s\<lparr>wp_workers := filter (\<lambda>w. mw_id w \<noteq> wid) (wp_workers s)\<rparr>
      in if \<not> wp_disposed s1
         then (let (e2, s2) = spawnWorker s1; (e3, s3) = drainQueueTo (wp_nextWorkerId s1) s2
               in (Terminate wid # e2 @ e3, s3))
         else ([Terminate wid], s1))"

definition clear_timer :: "'p PendingTask \<Rightarrow> ('p, 'r) pool_effect list" where
  "clear_timer pending = (if pt_timeoutHandle pending then [ClearTimer (pt_taskId pending)] else [])"

definition handleWorkerMessage :: "nat \<Rightarrow> 'r TaskResult \<Rightarrow> 'p WorkerPool \<Rightarrow> ('p, 'r) pool_effect list \<times> 'p WorkerPool" where
  "handleWorkerMessage wid message s =
     (let s1 = update_worker wid (\<lambda>w. w\<lparr>mw_busy := False, mw_currentTaskId := None\<rparr>) s;
          (e2, s2) =
            (case js_get (wp_pendingByTaskId s) (task_result_id message) of
               None \<Rightarrow> ([], s1)
             | Some pending \<Rightarrow>
                 (clear_timer pending @
                  (case message of
                     TaskSuccessResult taskId result _ \<Rightarrow> [ResolveTask (pt_taskId pending) result]
                   | TaskErrorResult taskId err _ \<Rightarrow>
                       [RejectTask (pt_taskId pending) (''Worker task '' @ quoted (pt_type pending) @ '' failed: '' @ err)]) @
                  [EmitTaskCompleted message],
                  s1\<lparr>wp_pendingByTaskId := js_delete (task_result_id message) (wp_pendingByTaskId s1)\<rparr>));
          (e3, s3) = drainQueueTo wid s2
      in (e2 @ e3, s3))"

definition handleTimeout :: "'p PendingTask \<Rightarrow> 'p WorkerPool \<Rightarrow> ('p, 'r) pool_effect list \<times> 'p WorkerPool" where
  "handleTimeout pending s =
     (if \<not> js_has (wp_pendingByTaskId s) (pt_taskId pending) then ([], s)
      else
        (let s1 = s\<lparr>wp_pendingByTaskId := js_delete (pt_taskId pending) (wp_pendingByTaskId s)\<rparr>;
             e1 = [RejectTask (pt_taskId pending)
                     (''Task '' @ quoted (pt_type pending) @ '' ('' @ pt_taskId pending @ '') timed out'')]
         in case List.find (\<lambda>w. mw_currentTaskId w = Some (pt_taskId pending)) (wp_workers s1) of
              None \<Rightarrow> (e1, s1)
            | Some stuckWorker \<Rightarrow> (let (e2, s2) = replaceWorker (mw_id stuckWorker) s1 in (e1 @ e2, s2))))"

text \<open>The rejection of the task a worker was running, shared by its \<open>error\<close> and \<open>exit\<close> handlers.\<close>

definition reject_current :: "ManagedWorker \<Rightarrow> ('p PendingTask \<Rightarrow> string) \<Rightarrow> 'p WorkerPool \<Rightarrow>
    ('p, 'r) pool_effect list \<times> 'p WorkerPool" where
  "reject_current w msg s =
     (case mw_currentTaskId w of
        None \<Rightarrow> ([], s)
      | Some failedTaskId \<Rightarrow>
          (case js_get (wp_pendingByTaskId s) failedTaskId of
             None \<Rightarrow> ([], s)
           | Some pending \<Rightarrow>
               (clear_timer pending @ [RejectTask (pt_taskId pending) (msg pending)],
                s\<lparr>wp_pendingByTaskId := js_delete failedTaskId (wp_pendingByTaskId s)\<rparr>)))"

definition show_int :: "int \<Rightarrow> string" where
  "show_int i = (if i < 0 then ''-'' @ show_nat (nat (- i)) else show_nat (nat i))"

definition handleWorkerError :: "ManagedWorker \<Rightarrow> string \<Rightarrow> 'p WorkerPool \<Rightarrow> ('p, 'r) pool_effect list \<times> 'p WorkerPool" where
  "handleWorkerError w err s =
     (let (e1, s1) = reject_current w (\<lambda>_. err) s; (e2, s2) = replaceWorker (mw_id w) s1
      in (EmitWorkerError (mw_id w) err # e1 @ e2, s2))"

definition handleWorkerExit :: "ManagedWorker \<Rightarrow> int \<Rightarrow> 'p WorkerPool \<Rightarrow> ('p, 'r) pool_effect list \<times> 'p WorkerPool" where
  "handleWorkerExit w code s =
     (if wp_disposed s then ([EmitWorkerExit (mw_id w) code], s)
      else if list_ex (\<lambda>v. mw_id v = mw_id w) (wp_workers s) \<and> code \<noteq> 0
      then (let (e1, s1) = reject_current w
                  (\<lambda>pending. ''Worker exited unexpectedly (code '' @ show_int code @ '') while running task '' @ quoted (pt_type pending)) s;
                (e2, s2) = replaceWorker (mw_id w) s1
            in (EmitWorkerExit (mw_id w) code # e1 @ e2, s2))
      else ([EmitWorkerExit (mw_id w) code], s))"

text \<open>\<open>dispose\<close> up to its \<open>await\<close>, and what follows once every thread has terminated.\<close>

definition pool_dispose :: "'p WorkerPool \<Rightarrow> ('p, 'r) pool_effect list \<times> 'p WorkerPool" where
  "pool_dispose s =
     (concat (map (\<lambda>pending. clear_timer pending @
                     [RejectTask (pt_taskId pending) ''WorkerPool was disposed before this task completed''])
                (wp_queue s @ map snd (wp_pendingByTaskId s))) @
      map (\<lambda>w. Terminate (mw_id w)) (wp_workers s),
      s\<lparr>wp_disposed := True, wp_queue := [], wp_pendingByTaskId := []\<rparr>)"

definition pool_dispose_end :: "'p WorkerPool \<Rightarrow> 'p WorkerPool" where
  "pool_dispose_end s = s\<lparr>wp_workers := []\<rparr>"

record WorkerPoolStats =
  ps_poolSize :: nat
  ps_busyWorkers :: nat
  ps_queuedTasks :: nat
  ps_inFlightTasks :: nat

definition pool_stats :: "'p WorkerPool \<Rightarrow> WorkerPoolStats" where
  "pool_stats s = \<lparr>ps_poolSize = length (wp_workers s), ps_busyWorkers = length (filter mw_busy (wp_workers s)),
     ps_queuedTasks = length (wp_queue s), ps_inFlightTasks = length (wp_pendingByTaskId s)\<rparr>"

section \<open>workerEntry.ts: what a worker does with a request\<close>

text \<open>The registered handlers are a parameter (\<open>registry.ts\<close> is a map from task type to handler); a
  handler either throws or returns.\<close>

definition worker_answer :: "(string \<Rightarrow> ('p \<Rightarrow> 'r result) option) \<Rightarrow> (thrown \<Rightarrow> string) \<Rightarrow> rat \<Rightarrow> 'p TaskRequest \<Rightarrow> 'r TaskResult" where
  "worker_answer getHandler message durationMs request =
     (case getHandler (tr_type request) of
        None \<Rightarrow> TaskErrorResult (tr_taskId request)
                  (''No task handler registered for type '' @ quoted (tr_type request)) durationMs
      | Some handler \<Rightarrow>
          (case handler (tr_payload request) of
             Inr value \<Rightarrow> TaskSuccessResult (tr_taskId request) value durationMs
           | Inl err \<Rightarrow> TaskErrorResult (tr_taskId request) (message err) durationMs))"

lemma worker_answers_its_request [simp]: "task_result_id (worker_answer h m d req) = tr_taskId req"
  by (simp add: worker_answer_def split: option.splits sum.splits)

section \<open>The pool among its callbacks\<close>

definition dispatched :: "('p, 'r) pool_effect list \<Rightarrow> string list" where
  "dispatched eff = List.map_filter (\<lambda>e. case e of PostMessage _ req \<Rightarrow> Some (tr_taskId req) | _ \<Rightarrow> None) eff"

definition settled :: "('p, 'r) pool_effect list \<Rightarrow> string list" where
  "settled eff = List.map_filter (\<lambda>e. case e of ResolveTask t _ \<Rightarrow> Some t | RejectTask t _ \<Rightarrow> Some t | _ \<Rightarrow> None) eff"

text \<open>A run: the pool, every effect so far and the identifiers of the accepted submissions, in order.\<close>

record ('p, 'r) pool_run =
  pr_pool :: "'p WorkerPool"
  pr_effects :: "('p, 'r) pool_effect list"
  pr_submitted :: "string list"

definition advance :: "('p, 'r) pool_effect list \<times> 'p WorkerPool \<Rightarrow> ('p, 'r) pool_run \<Rightarrow> ('p, 'r) pool_run" where
  "advance res r = r\<lparr>pr_pool := snd res, pr_effects := pr_effects r @ fst res\<rparr>"

definition new_run :: "nat \<Rightarrow> nat option \<Rightarrow> ('p, 'r) pool_run" where
  "new_run sz t = (let (e, s) = new_WorkerPool sz t in \<lparr>pr_pool = s, pr_effects = e, pr_submitted = []\<rparr>)"

inductive pool_step :: "('p, 'r) pool_run \<Rightarrow> ('p, 'r) pool_run \<Rightarrow> bool" where
  submit: "\<not> wp_disposed (pr_pool r) \<Longrightarrow> taskId \<notin> set (pr_submitted r) \<Longrightarrow>
    pool_step r (advance (submitTask taskId type payload timeoutMs (pr_pool r)) (r\<lparr>pr_submitted := pr_submitted r @ [taskId]\<rparr>))"
| submit_late: "wp_disposed (pr_pool r) \<Longrightarrow> pool_step r (advance (submitTask taskId type payload timeoutMs (pr_pool r)) r)"
| message: "w \<in> set (wp_workers (pr_pool r)) \<Longrightarrow> mw_currentTaskId w = Some (task_result_id m) \<Longrightarrow>
    pool_step r (advance (handleWorkerMessage (mw_id w) m (pr_pool r)) r)"
| timeout: "pool_step r (advance (handleTimeout pending (pr_pool r)) r)"
| worker_error: "w \<in> set (wp_workers (pr_pool r)) \<Longrightarrow> pool_step r (advance (handleWorkerError w err (pr_pool r)) r)"
| worker_exit: "w \<in> set (wp_workers (pr_pool r)) \<Longrightarrow> pool_step r (advance (handleWorkerExit w code (pr_pool r)) r)"
| dispose: "pool_step r (advance (pool_dispose (pr_pool r)) r)"
| dispose_end: "wp_disposed (pr_pool r) \<Longrightarrow> pool_step r (advance ([], pool_dispose_end (pr_pool r)) r)"

inductive pool_reachable :: "nat \<Rightarrow> nat option \<Rightarrow> ('p, 'r) pool_run \<Rightarrow> bool" for sz t where
  pool_init: "pool_reachable sz t (new_run sz t)"
| pool_next: "pool_reachable sz t r \<Longrightarrow> pool_step r r' \<Longrightarrow> pool_reachable sz t r'"

section \<open>No task is lost\<close>

lemma dispatched_simps [simp]:
  "dispatched [] = []" "dispatched (e # es) = (case e of PostMessage i req \<Rightarrow> [tr_taskId req] | _ \<Rightarrow> []) @ dispatched es"
  "dispatched (es @ fs) = dispatched es @ dispatched fs"
  by (auto simp: dispatched_def List.map_filter_def split: pool_effect.splits)

lemma settled_simps [simp]:
  "settled [] = []"
  "settled (e # es) = (case e of ResolveTask t x \<Rightarrow> [t] | RejectTask t m \<Rightarrow> [t] | _ \<Rightarrow> []) @ settled es"
  "settled (es @ fs) = settled es @ settled fs"
  by (auto simp: settled_def List.map_filter_def split: pool_effect.splits)

lemma clear_timer_silent [simp]: "dispatched (clear_timer p) = []" "settled (clear_timer p) = []"
  by (simp_all add: clear_timer_def)

text \<open>The workers: distinct identifiers, busy exactly when they have a task, each task on one worker.\<close>

definition worker_ok :: "nat \<Rightarrow> string list \<Rightarrow> ManagedWorker \<Rightarrow> bool" where
  "worker_ok next D w \<longleftrightarrow> mw_id w < next \<and> (mw_busy w \<longleftrightarrow> mw_currentTaskId w \<noteq> None) \<and>
     set_option (mw_currentTaskId w) \<subseteq> set D"

definition workers_ok :: "nat \<Rightarrow> string list \<Rightarrow> ManagedWorker list \<Rightarrow> bool" where
  "workers_ok next D ws \<longleftrightarrow> distinct (map mw_id ws) \<and> (\<forall>w \<in> set ws. worker_ok next D w) \<and>
     distinct (List.map_filter mw_currentTaskId ws)"

definition running :: "'p WorkerPool \<Rightarrow> string set" where
  "running s = set (List.map_filter mw_currentTaskId (wp_workers s))"

definition queued :: "'p WorkerPool \<Rightarrow> string list" where
  "queued s = map pt_taskId (wp_queue s)"

abbreviation pending_ids :: "'p WorkerPool \<Rightarrow> string set" where
  "pending_ids s \<equiv> fst ` set (wp_pendingByTaskId s)"

text \<open>The invariant, with the dispatched, settled and submitted identifiers so far.  \<open>X\<close> is a worker that
  may be idle although tasks are queued, in the middle of a handler.\<close>

definition pool_core :: "nat option \<Rightarrow> 'p WorkerPool \<Rightarrow> string list \<Rightarrow> string list \<Rightarrow> string list \<Rightarrow> bool" where
  "pool_core X s D S U \<longleftrightarrow>
     workers_ok (wp_nextWorkerId s) D (wp_workers s) \<and> distinct U \<and> js_map_ok (wp_pendingByTaskId s) \<and>
     (\<forall>k p. js_get (wp_pendingByTaskId s) k = Some p \<longrightarrow> pt_taskId p = k) \<and>
     pending_ids s \<subseteq> set (queued s) \<union> running s \<and>
     set S \<inter> pending_ids s = {} \<and> set S \<union> pending_ids s = set U \<and>
     (if wp_disposed s then wp_queue s = [] \<and> wp_pendingByTaskId s = []
      else length (wp_workers s) = wp_size s \<and> D @ queued s = U \<and> distinct S \<and>
        (wp_queue s \<noteq> [] \<longrightarrow> (\<forall>w \<in> set (wp_workers s). X \<noteq> Some (mw_id w) \<longrightarrow> mw_busy w)))"

lemma pool_coreI:
  assumes "\<not> wp_disposed s" and "workers_ok (wp_nextWorkerId s) D (wp_workers s)" and "distinct U"
    and "js_map_ok (wp_pendingByTaskId s)"
    and "\<And>k p. js_get (wp_pendingByTaskId s) k = Some p \<Longrightarrow> pt_taskId p = k"
    and "pending_ids s \<subseteq> set (queued s) \<union> running s"
    and "set S \<inter> pending_ids s = {}" and "set S \<union> pending_ids s = set U"
    and "length (wp_workers s) = wp_size s" and "D @ queued s = U" and "distinct S"
    and "\<And>w. wp_queue s \<noteq> [] \<Longrightarrow> w \<in> set (wp_workers s) \<Longrightarrow> X \<noteq> Some (mw_id w) \<Longrightarrow> mw_busy w"
  shows "pool_core X s D S U"
  using assms unfolding pool_core_def by simp

lemma pool_coreD:
  assumes "pool_core X s D S U"
  shows "workers_ok (wp_nextWorkerId s) D (wp_workers s)" and "distinct U"
    and "js_map_ok (wp_pendingByTaskId s)"
    and "\<And>k p. js_get (wp_pendingByTaskId s) k = Some p \<Longrightarrow> pt_taskId p = k"
    and "pending_ids s \<subseteq> set (queued s) \<union> running s"
    and "set S \<inter> pending_ids s = {}" and "set S \<union> pending_ids s = set U"
    and "\<not> wp_disposed s \<Longrightarrow> length (wp_workers s) = wp_size s" and "\<not> wp_disposed s \<Longrightarrow> D @ queued s = U"
    and "\<not> wp_disposed s \<Longrightarrow> distinct S"
    and "\<And>w. \<not> wp_disposed s \<Longrightarrow> wp_queue s \<noteq> [] \<Longrightarrow> w \<in> set (wp_workers s) \<Longrightarrow> X \<noteq> Some (mw_id w) \<Longrightarrow> mw_busy w"
    and "wp_disposed s \<Longrightarrow> wp_queue s = []" and "wp_disposed s \<Longrightarrow> wp_pendingByTaskId s = []"
  using assms unfolding pool_core_def by (simp_all split: if_splits)

lemma workers_ok_Nil [simp]: "workers_ok n D []"
  by (simp add: workers_ok_def List.map_filter_simps)

lemma set_map_filter_current: "set (List.map_filter mw_currentTaskId ws) = {t. \<exists>w \<in> set ws. mw_currentTaskId w = Some t}"
  by (force simp: List.map_filter_def)

lemma workers_ok_Cons [simp]:
  "workers_ok n D (w # ws) \<longleftrightarrow> worker_ok n D w \<and> workers_ok n D ws \<and> mw_id w \<notin> mw_id ` set ws \<and>
     (\<forall>v \<in> set ws. mw_currentTaskId w \<noteq> None \<longrightarrow> mw_currentTaskId v \<noteq> mw_currentTaskId w)"
  by (cases "mw_currentTaskId w") (auto simp: workers_ok_def List.map_filter_simps set_map_filter_current)

lemma worker_ok_mono: "worker_ok n D w \<Longrightarrow> n \<le> m \<Longrightarrow> set D \<subseteq> set E \<Longrightarrow> worker_ok m E w"
  by (auto simp: worker_ok_def)

lemma workers_ok_mono: "workers_ok n D ws \<Longrightarrow> n \<le> m \<Longrightarrow> set D \<subseteq> set E \<Longrightarrow> workers_ok m E ws"
  by (auto simp: workers_ok_def intro: worker_ok_mono)

lemma workers_ok_find: "workers_ok n D ws \<Longrightarrow> w \<in> set ws \<Longrightarrow> List.find (\<lambda>v. mw_id v = mw_id w) ws = Some w"
  by (induction ws) force+

lemma update_absent: "i \<notin> mw_id ` set ws \<Longrightarrow> map (\<lambda>w. if mw_id w = i then f w else w) ws = ws"
  by (induction ws) auto

lemma workers_ok_assign:
  assumes "workers_ok n D ws" and "t \<notin> set D"
  shows "workers_ok n (D @ [t]) (map (\<lambda>w. if mw_id w = i then w\<lparr>mw_busy := True, mw_currentTaskId := Some t\<rparr> else w) ws)"
  using assms(1)
proof (induction ws)
  case (Cons w ws)
  then have ok: "worker_ok n D w" "workers_ok n D ws" "mw_id w \<notin> mw_id ` set ws" by simp_all
  have other: "mw_currentTaskId v \<noteq> Some t" if "v \<in> set ws" for v
    using ok(2) that assms(2) by (auto simp: workers_ok_def worker_ok_def)
  show ?case
  proof (cases "mw_id w = i")
    case True
    then have same: "map (\<lambda>w. if mw_id w = i then w\<lparr>mw_busy := True, mw_currentTaskId := Some t\<rparr> else w) ws = ws"
      using ok(3) by (intro update_absent) simp
    have "worker_ok n (D @ [t]) (w\<lparr>mw_busy := True, mw_currentTaskId := Some t\<rparr>)" using ok(1) by (simp add: worker_ok_def)
    moreover have "workers_ok n (D @ [t]) ws" using ok(2) by (rule workers_ok_mono) auto
    ultimately show ?thesis using True same other ok(3) by simp
  next
    case False
    have "mw_currentTaskId w \<noteq> Some t" using ok(1) assms(2) by (auto simp: worker_ok_def)
    moreover have "worker_ok n (D @ [t]) w" using ok(1) by (rule worker_ok_mono) auto
    ultimately show ?thesis using False Cons ok(3) by (auto simp: image_iff)
  qed
qed simp

lemma workers_ok_free:
  "workers_ok n D ws \<Longrightarrow>
   workers_ok n D (map (\<lambda>w. if mw_id w = i then w\<lparr>mw_busy := False, mw_currentTaskId := None\<rparr> else w) ws)"
proof (induction ws)
  case (Cons w ws)
  then show ?case
  proof (cases "mw_id w = i")
    case True
    then have same: "map (\<lambda>w. if mw_id w = i then w\<lparr>mw_busy := False, mw_currentTaskId := None\<rparr> else w) ws = ws"
      using Cons.prems by (intro update_absent) simp
    show ?thesis using True same Cons.prems by (simp add: worker_ok_def)
  next
    case False
    then show ?thesis using Cons by (auto simp: image_iff)
  qed
qed simp

lemma workers_ok_filter: "workers_ok n D ws \<Longrightarrow> workers_ok n D (filter P ws)"
  by (induction ws) auto

lemma workers_ok_spawn:
  "workers_ok n D ws \<Longrightarrow> workers_ok (n + 1) D (ws @ [\<lparr>mw_id = n, mw_busy = False, mw_currentTaskId = None\<rparr>])"
proof (induction ws)
  case (Cons w ws)
  then show ?case by (auto simp: worker_ok_def)
qed (simp add: worker_ok_def)

lemma length_without:
  "distinct (map mw_id ws) \<Longrightarrow> w \<in> set ws \<Longrightarrow> Suc (length (filter (\<lambda>v. mw_id v \<noteq> mw_id w) ws)) = length ws"
proof (induction ws)
  case (Cons v ws)
  show ?case
  proof (cases "mw_id v = mw_id w")
    case True
    then have "mw_id w \<notin> mw_id ` set ws" using Cons.prems(1) by simp
    then have "filter (\<lambda>v. mw_id v \<noteq> mw_id w) ws = ws" by (intro filter_True) (metis image_eqI)
    with True show ?thesis by simp
  next
    case False
    with Cons show ?thesis by auto
  qed
qed simp

lemma workers_ok_unique:
  "workers_ok n D ws \<Longrightarrow> w \<in> set ws \<Longrightarrow> v \<in> set ws \<Longrightarrow> mw_id v = mw_id w \<Longrightarrow> v = w"
  by (auto simp: workers_ok_def distinct_map dest: inj_onD)

lemma running_assign:
  assumes "workers_ok n D ws" and "w \<in> set ws" and "\<not> mw_busy w"
  shows "set (List.map_filter mw_currentTaskId
      (map (\<lambda>v. if mw_id v = mw_id w then v\<lparr>mw_busy := True, mw_currentTaskId := Some t\<rparr> else v) ws)) =
    insert t (set (List.map_filter mw_currentTaskId ws))"
  using assms(1,2)
proof (induction ws)
  case (Cons v ws)
  show ?case
  proof (cases "mw_id v = mw_id w")
    case True
    then have "mw_id w \<notin> mw_id ` set ws" using Cons.prems(1) by simp
    moreover from this True Cons.prems(2) have "v = w" by auto
    moreover have "mw_currentTaskId w = None" using Cons.prems(1) \<open>v = w\<close> assms(3) by (simp add: worker_ok_def)
    ultimately show ?thesis by (simp add: update_absent List.map_filter_simps)
  next
    case False
    then have "w \<in> set ws" using Cons.prems(2) by auto
    then show ?thesis using False Cons by (cases "mw_currentTaskId v") (auto simp: List.map_filter_simps)
  qed
qed simp

text \<open>Dispatching a task to an idle worker: in the queue's order, so the log grows by the next task.\<close>

lemma dispatch_fields:
  "dispatch i p s = ([PostMessage i \<lparr>tr_taskId = pt_taskId p, tr_type = pt_type p, tr_payload = pt_payload p\<rparr>],
     s\<lparr>wp_workers := map (\<lambda>w. if mw_id w = i then w\<lparr>mw_busy := True, mw_currentTaskId := Some (pt_taskId p)\<rparr> else w) (wp_workers s)\<rparr>)"
  by (simp add: dispatch_def update_worker_def)

lemma drain_ok:
  assumes core: "pool_core (Some i) s D S U" and d: "drainQueueTo i s = (e, s')"
  shows "pool_core None s' (D @ dispatched e) (S @ settled e) U"
proof (cases "find_worker i s = None \<or> wp_disposed s \<or> wp_queue s = [] \<or> mw_busy (the (find_worker i s))")
  case True
  then have es: "e = []" "s' = s" using d by (auto simp: drainQueueTo_def split: option.splits list.splits)
  note c = pool_coreD[OF core]
  have busy: "mw_busy w" if w: "w \<in> set (wp_workers s)" "\<not> wp_disposed s" "wp_queue s \<noteq> []" for w
  proof (cases "mw_id w = i")
    case idle: True
    have "find_worker i s = Some w" using workers_ok_find[OF c(1) w(1)] idle by (simp add: find_worker_def)
    with True w show ?thesis by simp
  next
    case False
    with c(11) w show ?thesis by blast
  qed
  show ?thesis
  proof (cases "wp_disposed s")
    case True
    with core show ?thesis by (auto simp: es pool_core_def)
  next
    case False
    show ?thesis unfolding es by (rule pool_coreI) (use c False busy in simp_all)
  qed
next
  case False
  then obtain w p q where w: "find_worker i s = Some w" "\<not> mw_busy w" and nd: "\<not> wp_disposed s"
    and q: "wp_queue s = p # q" by (cases "wp_queue s") auto
  note c = pool_coreD[OF core]
  have wi: "w \<in> set (wp_workers s)" "mw_id w = i"
    using w(1) unfolding find_worker_def by (auto simp: find_Some_iff)
  have fresh: "pt_taskId p \<notin> set D" using c(2,9) nd q by (auto simp: queued_def)
  from d w nd q have e: "dispatched e = [pt_taskId p]" "settled e = []"
    and s': "s' = s\<lparr>wp_queue := q, wp_workers := map (\<lambda>w. if mw_id w = i then w\<lparr>mw_busy := True, mw_currentTaskId := Some (pt_taskId p)\<rparr> else w) (wp_workers s)\<rparr>"
    by (auto simp: drainQueueTo_def dispatch_fields)
  have run: "running s' = insert (pt_taskId p) (running s)"
    using running_assign[OF c(1) wi(1) w(2)] wi(2) by (simp add: running_def s')
  have qd: "queued s = pt_taskId p # queued s'" by (simp add: queued_def q s')
  then have pend: "pending_ids s' \<subseteq> set (queued s') \<union> running s'" using c(5) run by (auto simp: s')
  have busy: "mw_busy v" if "v \<in> set (wp_workers s')" for v using c(11) nd q that by (auto simp: s')
  have wok: "workers_ok (wp_nextWorkerId s') (D @ dispatched e) (wp_workers s')"
    using workers_ok_assign[OF c(1) fresh, of i] by (simp add: s' e)
  have order: "(D @ dispatched e) @ queued s' = U" using c(9) nd qd e by simp
  show ?thesis
    by (rule pool_coreI[OF _ wok c(2) _ _ pend _ _ _ order _ busy])
       (use c(3,4,6,7) c(8,10)[OF nd] nd e in \<open>simp_all add: s'\<close>)
qed

lemma settle_ok:
  assumes core: "pool_core X s D S U" and t: "t \<in> pending_ids s"
  shows "pool_core X (s\<lparr>wp_pendingByTaskId := js_delete t (wp_pendingByTaskId s)\<rparr>) D (S @ [t]) U"
proof -
  let ?s = "s\<lparr>wp_pendingByTaskId := js_delete t (wp_pendingByTaskId s)\<rparr>"
  note c = pool_coreD[OF core]
  have ids: "pending_ids ?s = pending_ids s - {t}" by (simp add: js_keys_delete)
  have nd: "\<not> wp_disposed s" using c(13) t by auto
  have same: "running ?s = running s" "queued ?s = queued s" by (simp_all add: running_def queued_def)
  have key: "pt_taskId p = k" if "js_get (wp_pendingByTaskId ?s) k = Some p" for k p
    using c(4) that by (auto simp: js_map_simps split: if_splits)
  have 1: "set (S @ [t]) \<inter> pending_ids ?s = {}" "set (S @ [t]) \<union> pending_ids ?s = set U"
    "pending_ids ?s \<subseteq> set (queued ?s) \<union> running ?s" "distinct (S @ [t])"
    unfolding ids same using c(5,6,7) c(10)[OF nd] t by auto
  show ?thesis
    by (rule pool_coreI[OF _ _ c(2) _ key 1(3,1,2) _ _ 1(4)])
       (use c(1,3) c(8,9,11)[OF nd] nd same in simp_all)
qed

text \<open>When the task of a worker is no longer pending, every pending task is queued or with another worker.\<close>

lemma pending_elsewhere:
  assumes core: "pool_core X s D S U" and w: "w \<in> set (wp_workers s)"
    and quiet: "set_option (mw_currentTaskId w) \<inter> pending_ids s = {}"
  defines "ws \<equiv> filter (\<lambda>v. mw_id v \<noteq> mw_id w) (wp_workers s)"
  shows "pending_ids s \<subseteq> set (queued s) \<union> set (List.map_filter mw_currentTaskId ws)"
proof
  note c = pool_coreD[OF core]
  fix t assume t: "t \<in> pending_ids s"
  show "t \<in> set (queued s) \<union> set (List.map_filter mw_currentTaskId ws)"
  proof (cases "t \<in> set (queued s)")
    case False
    with c(5) t have "t \<in> running s" by blast
    then obtain v where v: "v \<in> set (wp_workers s)" "mw_currentTaskId v = Some t"
      by (auto simp: running_def set_map_filter_current)
    have "mw_id v \<noteq> mw_id w"
    proof
      assume "mw_id v = mw_id w"
      with workers_ok_unique[OF c(1) w] v have "mw_currentTaskId w = Some t" by blast
      with quiet t show False by auto
    qed
    with v show ?thesis by (auto simp: ws_def set_map_filter_current)
  qed simp
qed

text \<open>A worker leaves the pool, its task settled: a fresh one takes its place and the next queued task.\<close>

lemma replace_ok:
  fixes e :: "('p, 'r) pool_effect list"
  assumes core: "pool_core None s D S U" and w: "w \<in> set (wp_workers s)"
    and quiet: "set_option (mw_currentTaskId w) \<inter> pending_ids s = {}"
    and r: "replaceWorker (mw_id w) s = (e, s')"
  shows "pool_core None s' (D @ dispatched e) (S @ settled e) U"
proof -
  note c = pool_coreD[OF core]
  let ?ws = "filter (\<lambda>v. mw_id v \<noteq> mw_id w) (wp_workers s)"
  have pend: "pending_ids s \<subseteq> set (queued s) \<union> set (List.map_filter mw_currentTaskId ?ws)"
    by (rule pending_elsewhere[OF core w quiet])
  show ?thesis
  proof (cases "wp_disposed s")
    case True
    then have es: "dispatched e = []" "settled e = []" "s' = s\<lparr>wp_workers := ?ws\<rparr>" using r by (auto simp: replaceWorker_def)
    show ?thesis using workers_ok_filter[OF c(1)] c(2-7) c(12,13)[OF True] True pend
      by (simp add: es pool_core_def queued_def running_def)
  next
    case False
    define s2 where "s2 = s\<lparr>wp_nextWorkerId := wp_nextWorkerId s + 1,
      wp_workers := ?ws @ [\<lparr>mw_id = wp_nextWorkerId s, mw_busy = False, mw_currentTaskId = None\<rparr>]\<rparr>"
    obtain e3 :: "('p, 'r) pool_effect list" and s3 where d: "drainQueueTo (wp_nextWorkerId s) s2 = (e3, s3)" by (rule prod.exhaust)
    have es: "dispatched e = dispatched e3" "settled e = settled e3" "s' = s3"
      using r False d by (auto simp: replaceWorker_def spawnWorker_def s2_def Let_def)
    have run: "running s2 = set (List.map_filter mw_currentTaskId ?ws)"
      by (auto simp: running_def s2_def set_map_filter_current)
    have "pool_core (Some (wp_nextWorkerId s)) s2 D S U"
    proof (rule pool_coreI)
      show "length (wp_workers s2) = wp_size s2"
        using length_without[of "wp_workers s" w] c(1,8) False w by (simp add: s2_def workers_ok_def)
      show "mw_busy v" if "wp_queue s2 \<noteq> []" "v \<in> set (wp_workers s2)" "Some (wp_nextWorkerId s) \<noteq> Some (mw_id v)" for v
        using c(11)[OF False] that by (auto simp: s2_def)
      show "pending_ids s2 \<subseteq> set (queued s2) \<union> running s2" unfolding run using pend by (simp add: s2_def queued_def)
      show "workers_ok (wp_nextWorkerId s2) D (wp_workers s2)"
        using workers_ok_spawn[OF workers_ok_filter[OF c(1)]] by (simp add: s2_def)
      show "D @ queued s2 = U" using c(9)[OF False] by (simp add: s2_def queued_def)
    qed (use c False in \<open>simp_all add: s2_def\<close>)
    from drain_ok[OF this d] show ?thesis by (simp add: es)
  qed
qed

text \<open>A worker becomes idle, its task already settled.\<close>

lemma free_ok:
  assumes core: "pool_core None s D S U" and w: "w \<in> set (wp_workers s)"
    and quiet: "set_option (mw_currentTaskId w) \<inter> pending_ids s = {}"
  shows "pool_core (Some (mw_id w)) (update_worker (mw_id w) (\<lambda>w. w\<lparr>mw_busy := False, mw_currentTaskId := None\<rparr>) s) D S U"
proof -
  let ?ws = "map (\<lambda>v. if mw_id v = mw_id w then v\<lparr>mw_busy := False, mw_currentTaskId := None\<rparr> else v) (wp_workers s)"
  let ?s = "s\<lparr>wp_workers := ?ws\<rparr>"
  note c = pool_coreD[OF core]
  have kept: "t \<in> running ?s" if "v \<in> set (wp_workers s)" "mw_currentTaskId v = Some t" "mw_id v \<noteq> mw_id w" for v t
  proof -
    have "v \<in> set ?ws" using that by (auto intro!: image_eqI[of _ _ v])
    with that show ?thesis by (auto simp: running_def set_map_filter_current)
  qed
  have "x \<in> set (queued s) \<union> running ?s" if x: "x \<in> pending_ids s" for x
  proof (cases "x \<in> set (queued s)")
    case False
    then have "x \<in> running s" using c(5) x by (metis UnE subsetD)
    then obtain v where v: "v \<in> set (wp_workers s)" "mw_currentTaskId v = Some x"
      by (auto simp: running_def set_map_filter_current)
    have "mw_id v \<noteq> mw_id w"
    proof
      assume "mw_id v = mw_id w"
      then have "v = w" by (rule workers_ok_unique[OF c(1) w v(1)])
      with quiet v x show False by auto
    qed
    with kept[OF v] show ?thesis by simp
  qed simp
  then have pend: "pending_ids ?s \<subseteq> set (queued ?s) \<union> running ?s" by (auto simp: queued_def)
  have wok: "workers_ok (wp_nextWorkerId ?s) D (wp_workers ?s)" using workers_ok_free[OF c(1), of "mw_id w"] by simp
  have "pool_core (Some (mw_id w)) ?s D S U"
  proof (cases "wp_disposed s")
    case True
    with wok c(2-7) c(12,13) show ?thesis by (simp add: pool_core_def queued_def)
  next
    case False
    show ?thesis
      by (rule pool_coreI[OF _ wok c(2) _ c(4) pend])
         (use c(3,6,7) c(8,9,10,11)[OF False] False in \<open>auto simp: queued_def split: if_splits\<close>)
  qed
  then show ?thesis by (simp add: update_worker_def)
qed

lemma message_ok:
  fixes e :: "('p, 'r) pool_effect list"
  assumes core: "pool_core None s D S U" and w: "w \<in> set (wp_workers s)"
    and m: "mw_currentTaskId w = Some (task_result_id msg)" and r: "handleWorkerMessage (mw_id w) msg s = (e, s')"
  shows "pool_core None s' (D @ dispatched e) (S @ settled e) U"
proof -
  let ?t = "task_result_id msg"
  let ?free = "update_worker (mw_id w) (\<lambda>w. w\<lparr>mw_busy := False, mw_currentTaskId := None\<rparr>)"
  show ?thesis
  proof (cases "js_get (wp_pendingByTaskId s) ?t")
    case None
    then have "?t \<notin> pending_ids s" by (simp add: map_of_eq_None_iff)
    then have "pool_core (Some (mw_id w)) (?free s) D S U" by (intro free_ok core w) (simp add: m)
    moreover have "drainQueueTo (mw_id w) (?free s) = (e, s')"
      using r None by (auto simp: handleWorkerMessage_def Let_def split: prod.splits)
    ultimately show ?thesis by (rule drain_ok)
  next
    case (Some p)
    let ?sd = "s\<lparr>wp_pendingByTaskId := js_delete ?t (wp_pendingByTaskId s)\<rparr>"
    have "?t \<in> pending_ids s" using Some by (metis map_of_eq_None_iff option.distinct(1))
    from settle_ok[OF core this] have "pool_core None ?sd D (S @ [?t]) U" .
    then have freed: "pool_core (Some (mw_id w)) (?free ?sd) D (S @ [?t]) U" by (rule free_ok) (simp_all add: w m js_keys_delete)
    obtain e3 :: "('p, 'r) pool_effect list" and s3 where d: "drainQueueTo (mw_id w) (?free ?sd) = (e3, s3)" by (rule prod.exhaust)
    have swap: "(?free s)\<lparr>wp_pendingByTaskId := js_delete ?t (wp_pendingByTaskId (?free s))\<rparr> = ?free ?sd"
      by (simp add: update_worker_def)
    have "pt_taskId p = ?t" using pool_coreD(4)[OF core] Some by blast
    then have "dispatched e = dispatched e3" "settled e = ?t # settled e3" "s' = s3"
      using r Some d swap by (auto simp: handleWorkerMessage_def Let_def split: TaskResult.splits)
    with drain_ok[OF freed d] show ?thesis by simp
  qed
qed

lemma reject_current_ok:
  fixes e :: "('p, 'r) pool_effect list"
  assumes core: "pool_core None s D S U" and w: "w \<in> set (wp_workers s)" and r: "reject_current w msg s = (e, s')"
  shows "pool_core None s' D (S @ settled e) U" and "dispatched e = []" and "wp_workers s' = wp_workers s"
    and "set_option (mw_currentTaskId w) \<inter> pending_ids s' = {}"
proof -
  consider "mw_currentTaskId w = None" | t where "mw_currentTaskId w = Some t" "t \<notin> pending_ids s"
    | t p where "mw_currentTaskId w = Some t" "js_get (wp_pendingByTaskId s) t = Some p"
    by (metis map_of_eq_None_iff not_None_eq)
  then have "pool_core None s' D (S @ settled e) U \<and> dispatched e = [] \<and> wp_workers s' = wp_workers s \<and>
      set_option (mw_currentTaskId w) \<inter> pending_ids s' = {}"
  proof cases
    case 1
    with r core show ?thesis by (simp add: reject_current_def)
  next
    case (2 t)
    then have "js_get (wp_pendingByTaskId s) t = None" by (simp add: map_of_eq_None_iff)
    with r core 2 show ?thesis by (simp add: reject_current_def)
  next
    case (3 t p)
    then have "t \<in> pending_ids s" by (metis map_of_eq_None_iff option.distinct(1))
    note c = settle_ok[OF core this]
    have "pt_taskId p = t" using pool_coreD(4)[OF core] 3 by blast
    then have "settled e = [t]" "dispatched e = []" "s' = s\<lparr>wp_pendingByTaskId := js_delete t (wp_pendingByTaskId s)\<rparr>"
      using r 3 by (auto simp: reject_current_def)
    with c 3 show ?thesis by (simp add: js_keys_delete)
  qed
  then show "pool_core None s' D (S @ settled e) U" and "dispatched e = []" and "wp_workers s' = wp_workers s"
    and "set_option (mw_currentTaskId w) \<inter> pending_ids s' = {}" by simp_all
qed

lemma crash_ok:
  fixes e1 e2 :: "('p, 'r) pool_effect list"
  assumes core: "pool_core None s D S U" and w: "w \<in> set (wp_workers s)"
    and r: "reject_current w msg s = (e1, s1)" "replaceWorker (mw_id w) s1 = (e2, s2)"
  shows "pool_core None s2 (D @ dispatched (e1 @ e2)) (S @ settled (e1 @ e2)) U"
proof -
  note c = reject_current_ok[OF core w r(1)]
  from w c(3) have w1: "w \<in> set (wp_workers s1)" by simp
  from replace_ok[OF c(1) w1 c(4) r(2)] c(2) show ?thesis by simp
qed

lemma timeout_ok:
  fixes e :: "('p, 'r) pool_effect list"
  assumes core: "pool_core None s D S U" and r: "handleTimeout p s = (e, s')"
  shows "pool_core None s' (D @ dispatched e) (S @ settled e) U"
proof (cases "pt_taskId p \<in> pending_ids s")
  case False
  then show ?thesis using core r by (simp add: handleTimeout_def js_has_iff)
next
  case True
  let ?t = "pt_taskId p"
  let ?s = "s\<lparr>wp_pendingByTaskId := js_delete ?t (wp_pendingByTaskId s)\<rparr>"
  note c = settle_ok[OF core True]
  show ?thesis
  proof (cases "List.find (\<lambda>w. mw_currentTaskId w = Some ?t) (wp_workers s)")
    case None
    with r True have "dispatched e = []" "settled e = [?t]" "s' = ?s" by (auto simp: handleTimeout_def js_has_iff)
    with c show ?thesis by simp
  next
    case (Some w)
    then have w: "w \<in> set (wp_workers ?s)" "mw_currentTaskId w = Some ?t" by (auto simp: find_Some_iff)
    then have quiet: "set_option (mw_currentTaskId w) \<inter> pending_ids ?s = {}" by (simp add: js_keys_delete)
    obtain e2 :: "('p, 'r) pool_effect list" and s2 where rep: "replaceWorker (mw_id w) ?s = (e2, s2)" by (rule prod.exhaust)
    from r True Some rep have "dispatched e = dispatched e2" "settled e = ?t # settled e2" "s' = s2"
      by (auto simp: handleTimeout_def js_has_iff)
    with replace_ok[OF c w(1) quiet rep] show ?thesis by simp
  qed
qed

lemma submit_ok:
  fixes e :: "('p, 'r) pool_effect list"
  assumes core: "pool_core None s D S U" and nd: "\<not> wp_disposed s" and fresh: "t \<notin> set U"
    and r: "submitTask t ty pl tm s = (e, s')"
  shows "pool_core None s' (D @ dispatched e) (S @ settled e) (U @ [t])"
proof -
  note c = pool_coreD[OF core]
  define eff where "eff = (case tm of None \<Rightarrow> wp_defaultTimeoutMs s | Some x \<Rightarrow> x)"
  define p where "p = \<lparr>pt_taskId = t, pt_type = ty, pt_payload = pl, pt_timeoutHandle = eff > 0\<rparr>"
  define s1 where "s1 = s\<lparr>wp_pendingByTaskId := js_set t p (wp_pendingByTaskId s)\<rparr>"
  have new: "t \<notin> set D" "t \<notin> set S" using fresh c(7) c(9)[OF nd] by auto
  have ids: "pending_ids s1 = insert t (pending_ids s)" by (simp add: s1_def js_keys_set)
  have sets: "set S \<inter> pending_ids s1 = {}" "set S \<union> pending_ids s1 = set (U @ [t])" "distinct (U @ [t])"
    unfolding ids using c(2,6,7) new fresh by auto
  have key: "pt_taskId q = k" if "js_get (wp_pendingByTaskId s1) k = Some q" for k q
    using that c(4) by (auto simp: s1_def p_def js_map_simps split: if_splits)
  have ok1: "js_map_ok (wp_pendingByTaskId s1)" using c(3) by (simp add: s1_def)
  show ?thesis
  proof (cases "List.find (\<lambda>w. \<not> mw_busy w) (wp_workers s)")
    case None
    then have busy: "mw_busy w" if "w \<in> set (wp_workers s)" for w using that by (simp add: find_None_iff)
    have es: "dispatched e = []" "settled e = []" "s' = s1\<lparr>wp_queue := wp_queue s @ [p]\<rparr>"
      using r nd None by (auto simp: submitTask_def Let_def s1_def p_def eff_def)
    have q: "queued s' = queued s @ [t]" by (simp add: es queued_def p_def)
    have run: "running s' = running s" by (simp add: es running_def s1_def)
    have pend: "pending_ids s' \<subseteq> set (queued s') \<union> running s'" using c(5) ids unfolding q run by (auto simp: es)
    have order: "(D @ dispatched e) @ queued s' = U @ [t]" using c(9)[OF nd] q es by simp
    show ?thesis
      by (rule pool_coreI[OF _ _ sets(3) _ _ pend _ _ _ order])
         (use nd sets key ok1 c(1) c(8,10)[OF nd] busy in \<open>simp_all add: es s1_def\<close>)
  next
    case (Some w)
    then have w: "w \<in> set (wp_workers s)" "\<not> mw_busy w" by (auto simp: find_Some_iff)
    then have qe: "wp_queue s = []" using c(11)[OF nd] by blast
    have es: "dispatched e = [t]" "settled e = []"
      "s' = s1\<lparr>wp_workers := map (\<lambda>v. if mw_id v = mw_id w then v\<lparr>mw_busy := True, mw_currentTaskId := Some t\<rparr> else v) (wp_workers s)\<rparr>"
      using r nd Some by (auto simp: submitTask_def dispatch_fields Let_def s1_def p_def eff_def)
    have run: "running s' = insert t (running s)"
      using running_assign[OF c(1) w] by (simp add: es running_def)
    have q: "queued s' = queued s" "wp_queue s' = []" using qe by (simp_all add: es queued_def s1_def)
    have pend: "pending_ids s' \<subseteq> set (queued s') \<union> running s'" using c(5) ids unfolding q run by (auto simp: es)
    have order: "(D @ dispatched e) @ queued s' = U @ [t]" using c(9)[OF nd] q(1) qe es by (simp add: queued_def)
    have wok: "workers_ok (wp_nextWorkerId s') (D @ dispatched e) (wp_workers s')"
      using workers_ok_assign[OF c(1) new(1), of "mw_id w"] by (simp add: es s1_def)
    show ?thesis
      by (rule pool_coreI[OF _ wok sets(3) _ _ pend _ _ _ order])
         (use nd sets key ok1 c(8,10)[OF nd] q in \<open>simp_all add: es s1_def\<close>)
  qed
qed

lemma settled_rejections [simp]:
  "settled (concat (map (\<lambda>p. clear_timer p @ [RejectTask (pt_taskId p) m]) ps)) = map pt_taskId ps"
  "dispatched (concat (map (\<lambda>p. clear_timer p @ [RejectTask (pt_taskId p) m]) ps)) = []"
  by (induction ps) simp_all

lemma settled_terminations [simp]:
  "settled (map (\<lambda>w. Terminate (f w)) ws) = []" "dispatched (map (\<lambda>w. Terminate (f w)) ws) = []"
  by (induction ws) simp_all

lemma dispose_ok:
  fixes e :: "('p, 'r) pool_effect list"
  assumes core: "pool_core None s D S U" and r: "pool_dispose s = (e, s')"
  shows "pool_core None s' (D @ dispatched e) (S @ settled e) U"
proof -
  note c = pool_coreD[OF core]
  have es: "dispatched e = []" "settled e = map pt_taskId (wp_queue s @ map snd (wp_pendingByTaskId s))"
    "s' = s\<lparr>wp_disposed := True, wp_queue := [], wp_pendingByTaskId := []\<rparr>"
    using r unfolding pool_dispose_def by (auto simp: queued_def simp del: map_append map_map concat_append)
  have "pt_taskId (snd q) = fst q" if "q \<in> set (wp_pendingByTaskId s)" for q
    using c(4)[of "fst q" "snd q"] c(3) that by (simp add: map_of_eq_Some_iff)
  then have ids: "(\<lambda>q. pt_taskId (snd q)) ` set (wp_pendingByTaskId s) = pending_ids s" by (intro image_cong) simp_all
  have "set (queued s) \<subseteq> set U"
  proof (cases "wp_disposed s")
    case True
    then show ?thesis using c(12) by (simp add: queued_def)
  next
    case False
    from c(9)[OF False] show ?thesis by auto
  qed
  then have "set (S @ settled e) = set U" using c(7) by (auto simp: es ids queued_def image_image)
  then show ?thesis using c(1,2) unfolding pool_core_def by (simp add: es)
qed

definition pool_ok :: "('p, 'r) pool_run \<Rightarrow> bool" where
  "pool_ok r \<longleftrightarrow> pool_core None (pr_pool r) (dispatched (pr_effects r)) (settled (pr_effects r)) (pr_submitted r)"

lemma advance_fields [simp]:
  "pr_pool (advance res r) = snd res" "pr_effects (advance res r) = pr_effects r @ fst res"
  "pr_submitted (advance res r) = pr_submitted r"
  by (simp_all add: advance_def)

lemma pool_step_ok: "pool_step r r' \<Longrightarrow> pool_ok r \<Longrightarrow> pool_ok r'"
proof (induction rule: pool_step.induct)
  case (submit r taskId ty pl tm)
  then show ?case using submit_ok[OF _ submit(1,2) prod.collapse[symmetric]] by (simp add: pool_ok_def)
next
  case (submit_late r taskId ty pl tm)
  then show ?case by (simp add: pool_ok_def submitTask_def)
next
  case (message w r m)
  then show ?case using message_ok[OF _ message(1,2) prod.collapse[symmetric]] by (simp add: pool_ok_def)
next
  case (timeout r p)
  then show ?case using timeout_ok[OF _ prod.collapse[symmetric]] by (simp add: pool_ok_def)
next
  case (worker_error w r err)
  then show ?case using crash_ok[of "pr_pool r" _ _ _ w] by (auto simp: pool_ok_def handleWorkerError_def split: prod.splits)
next
  case (worker_exit w r code)
  then show ?case using crash_ok[of "pr_pool r" _ _ _ w] by (auto simp: pool_ok_def handleWorkerExit_def Let_def split: prod.splits)
next
  case (dispose r)
  then show ?case using dispose_ok[OF _ prod.collapse[symmetric]] by (simp add: pool_ok_def)
next
  case (dispose_end r)
  then show ?case using pool_coreD[OF dispose_end(2)[unfolded pool_ok_def]]
    by (simp add: pool_ok_def pool_core_def pool_dispose_end_def queued_def)
qed

lemma spawnWorkers_ok:
  "spawnWorkers n s = (e, s') \<Longrightarrow> workers_ok (wp_nextWorkerId s) [] (wp_workers s) \<Longrightarrow>
   workers_ok (wp_nextWorkerId s') [] (wp_workers s') \<and> length (wp_workers s') = length (wp_workers s) + n \<and>
   dispatched e = [] \<and> settled e = [] \<and> wp_size s' = wp_size s \<and> wp_queue s' = wp_queue s \<and>
   wp_pendingByTaskId s' = wp_pendingByTaskId s \<and> wp_disposed s' = wp_disposed s"
proof (induction n arbitrary: s e)
  case (Suc n)
  let ?s1 = "s\<lparr>wp_nextWorkerId := wp_nextWorkerId s + 1,
    wp_workers := wp_workers s @ [\<lparr>mw_id = wp_nextWorkerId s, mw_busy = False, mw_currentTaskId = None\<rparr>]\<rparr>"
  obtain e2 where r: "spawnWorkers n ?s1 = (e2, s')" and e: "e = EmitWorkerSpawned (wp_nextWorkerId s) # e2"
    using Suc.prems(1) by (auto simp: spawnWorker_def Let_def split: prod.splits)
  have "workers_ok (wp_nextWorkerId ?s1) [] (wp_workers ?s1)"
    using workers_ok_spawn[OF Suc.prems(2)] by simp
  from Suc.IH[OF r this] show ?case by (simp add: e)
qed simp

lemma new_run_ok: "pool_ok (new_run sz t)"
proof -
  obtain e s where n: "(new_WorkerPool sz t :: ('a, 'b) pool_effect list \<times> 'a WorkerPool) = (e, s)" by (rule prod.exhaust)
  from spawnWorkers_ok[OF n[unfolded new_WorkerPool_def]] show ?thesis
    by (simp add: pool_ok_def new_run_def n pool_core_def queued_def)
qed

lemma pool_reachable_ok: "pool_reachable sz t r \<Longrightarrow> pool_ok r"
  by (induction rule: pool_reachable.induct) (auto intro: new_run_ok pool_step_ok)

subsection \<open>The size of the pool\<close>

lemma drainQueueTo_size [simp]: "wp_size (snd (drainQueueTo i s)) = wp_size s"
  by (simp add: drainQueueTo_def dispatch_fields split: option.splits list.splits)

lemma replaceWorker_size [simp]: "wp_size (snd (replaceWorker i s)) = wp_size s"
proof -
  let ?s = "s\<lparr>wp_workers := filter (\<lambda>w. mw_id w \<noteq> i) (wp_workers s) @ [\<lparr>mw_id = wp_nextWorkerId s, mw_busy = False, mw_currentTaskId = None\<rparr>],
    wp_nextWorkerId := wp_nextWorkerId s + 1\<rparr>"
  show ?thesis using drainQueueTo_size[of "wp_nextWorkerId s" ?s]
    by (simp add: replaceWorker_def spawnWorker_def Let_def case_prod_beta)
qed

lemma reject_current_size [simp]: "wp_size (snd (reject_current w m s)) = wp_size s"
  by (simp add: reject_current_def split: option.splits)

lemma pool_step_size: "pool_step r r' \<Longrightarrow> wp_size (pr_pool r') = wp_size (pr_pool r)"
proof (induction rule: pool_step.induct)
  case (message w r m)
  show ?case by (simp add: handleWorkerMessage_def Let_def case_prod_beta update_worker_def split: option.splits)
qed (simp_all add: submitTask_def dispatch_fields handleTimeout_def handleWorkerError_def handleWorkerExit_def
      pool_dispose_def pool_dispose_end_def Let_def case_prod_beta split: option.splits)

lemma pool_reachable_size: "pool_reachable sz t r \<Longrightarrow> wp_size (pr_pool r) = max 1 sz"
proof (induction rule: pool_reachable.induct)
  case pool_init
  obtain e s where n: "(new_WorkerPool sz t :: ('a, 'b) pool_effect list \<times> 'a WorkerPool) = (e, s)" by (rule prod.exhaust)
  from spawnWorkers_ok[OF n[unfolded new_WorkerPool_def]] show ?case by (simp add: new_run_def n)
qed (simp add: pool_step_size)

text \<open>C32. The worker pool loses no task and keeps its size, whatever the order of submissions, results,
  timeouts, crashes, exits and shutdown: until it is disposed it has exactly \<open>max 1 size\<close> workers, hands out
  tasks in submission order (what was dispatched followed by what is queued is what was submitted), settles
  no promise twice and leaves no worker idle while tasks wait; at all times every submitted task is either
  settled or still pending, never both, a pending task is queued or running, no task runs on two workers,
  and once the pool is disposed every promise is settled.\<close>

theorem pool_loses_no_task:
  assumes "pool_reachable sz t r"
  defines "s \<equiv> pr_pool r" and "D \<equiv> dispatched (pr_effects r)" and "S \<equiv> settled (pr_effects r)" and "U \<equiv> pr_submitted r"
  shows "(\<not> wp_disposed s \<longrightarrow> length (wp_workers s) = max 1 sz \<and> D @ queued s = U \<and> distinct D \<and> distinct S \<and>
           (queued s \<noteq> [] \<longrightarrow> (\<forall>w \<in> set (wp_workers s). mw_busy w))) \<and>
         set S \<union> pending_ids s = set U \<and> set S \<inter> pending_ids s = {} \<and>
         pending_ids s \<subseteq> set (queued s) \<union> running s \<and> distinct (List.map_filter mw_currentTaskId (wp_workers s)) \<and>
         (wp_disposed s \<longrightarrow> set S = set U)"
proof -
  have core: "pool_core None s D S U"
    using pool_reachable_ok[OF assms(1)] by (simp add: pool_ok_def s_def D_def S_def U_def)
  note c = pool_coreD[OF core]
  have size: "wp_size s = max 1 sz" using pool_reachable_size[OF assms(1)] by (simp add: s_def)
  have tasks: "distinct (List.map_filter mw_currentTaskId (wp_workers s))" using c(1) by (simp add: workers_ok_def)
  have nd: "length (wp_workers s) = max 1 sz \<and> D @ queued s = U \<and> distinct D \<and> distinct S \<and>
      (queued s \<noteq> [] \<longrightarrow> (\<forall>w \<in> set (wp_workers s). mw_busy w))" if "\<not> wp_disposed s"
    using c(8,9,10,11)[OF that] c(2) size by (auto simp: queued_def)
  have "set S = set U" if "wp_disposed s" using c(7) c(13)[OF that] by simp
  with nd c(5,6,7) tasks show ?thesis by blast
qed

text \<open>A pool of one worker: \<open>t1\<close> runs, \<open>t2\<close> waits and times out in the queue, then \<open>t1\<close> finishes.\<close>

definition demo_idle :: "(nat, nat) pool_run" where "demo_idle = new_run 1 None"

definition demo_busy :: "(nat, nat) pool_run" where
  "demo_busy = advance (submitTask ''t1'' ''T'' 0 None (pr_pool demo_idle)) (demo_idle\<lparr>pr_submitted := pr_submitted demo_idle @ [''t1'']\<rparr>)"

definition demo_waiting :: "(nat, nat) pool_run" where
  "demo_waiting = advance (submitTask ''t2'' ''T'' 0 None (pr_pool demo_busy)) (demo_busy\<lparr>pr_submitted := pr_submitted demo_busy @ [''t2'']\<rparr>)"

definition demo_expired :: "(nat, nat) pool_run" where
  "demo_expired = advance (handleTimeout \<lparr>pt_taskId = ''t2'', pt_type = ''T'', pt_payload = 0, pt_timeoutHandle = True\<rparr>
     (pr_pool demo_waiting)) demo_waiting"

definition demo_wedged :: "(nat, nat) pool_run" where
  "demo_wedged = advance (handleWorkerMessage 0 (TaskSuccessResult ''t1'' 7 1) (pr_pool demo_expired)) demo_expired"

lemmas pool_eval = demo_wedged_def demo_expired_def demo_waiting_def demo_busy_def demo_idle_def new_run_def new_WorkerPool_def
  spawnWorker_def submitTask_def dispatch_fields handleTimeout_def handleWorkerMessage_def drainQueueTo_def
  find_worker_def update_worker_def advance_def DEFAULT_TASK_TIMEOUT_MS_def js_has_def clear_timer_def Let_def

lemma demo_wedged_reachable: "pool_reachable 1 None demo_wedged"
proof -
  have 0: "pool_reachable 1 None demo_idle" unfolding demo_idle_def by (rule pool_init)
  have 1: "pool_reachable 1 None demo_busy"
    unfolding demo_busy_def by (rule pool_next[OF 0], rule pool_step.submit) (simp_all add: pool_eval)
  have 2: "pool_reachable 1 None demo_waiting"
    unfolding demo_waiting_def by (rule pool_next[OF 1], rule pool_step.submit) (simp_all add: pool_eval)
  have 3: "pool_reachable 1 None demo_expired"
    unfolding demo_expired_def by (rule pool_next[OF 2], rule pool_step.timeout)
  have "\<lparr>mw_id = 0, mw_busy = True, mw_currentTaskId = Some ''t1''\<rparr> \<in> set (wp_workers (pr_pool demo_expired))"
    by (simp add: pool_eval)
  from pool_step.message[OF this, of "TaskSuccessResult ''t1'' 7 1"] show ?thesis
    unfolding demo_wedged_def by (intro pool_next[OF 3]) simp
qed

theorem pool_loses_no_task_witness:
  "length (wp_workers (pr_pool demo_wedged)) = 1 \<and> dispatched (pr_effects demo_wedged) = [''t1'', ''t2''] \<and>
   set (settled (pr_effects demo_wedged)) = {''t1'', ''t2''}"
proof -
  have "\<not> wp_disposed (pr_pool demo_wedged)" "queued (pr_pool demo_wedged) = []" "pr_submitted demo_wedged = [''t1'', ''t2'']"
    "wp_pendingByTaskId (pr_pool demo_wedged) = []" by (simp_all add: pool_eval queued_def)
  then show ?thesis using pool_loses_no_task[OF demo_wedged_reachable] by auto
qed

text \<open>A task that times out while it is still queued is not removed from the queue: here its promise is
  rejected, yet the worker is later given the task, and since it is no longer pending its timeout can
  never fire again, so nothing ever replaces that worker if the task does not return.\<close>

theorem timed_out_queued_task_still_runs:
  "pool_reachable 1 None demo_wedged \<and> RejectTask ''t2'' ''Task \"T\" (t2) timed out'' \<in> set (pr_effects demo_wedged) \<and>
   map mw_currentTaskId (wp_workers (pr_pool demo_wedged)) = [Some ''t2''] \<and>
   handleTimeout \<lparr>pt_taskId = ''t2'', pt_type = ''T'', pt_payload = 0, pt_timeoutHandle = True\<rparr> (pr_pool demo_wedged) =
     ([] :: (nat, nat) pool_effect list, pr_pool demo_wedged)"
  by (intro conjI demo_wedged_reachable) (simp_all add: pool_eval quoted_def)

end
