(* ===== verification/CacheNode.thy ===== *)
theory CacheNode
  imports NodeStorage Replication Metrics Snapshot WorkerPool
begin

text \<open>
  \<open>services/cache-node\<close>: fault injection, recovery, the HTTP routes with their middleware, and
  \<open>CacheNodeServer.ts\<close>, which wires the storage engine, the adaptive eviction engine, the ring,
  replication, snapshots, the worker pool and the metrics into one node.  An operation that awaits is
  split there: a PUT or DELETE hands its replication over as a \<open>deferred\<close> value, the cleanup sweep and
  the recovery have a beginning and an end.  The last part lets all of these interleave as a step
  relation.  The clock, the random number of the drop test, the identifiers and what the snapshot
  store answers are arguments.  A deferred write carries the entry's metadata as it was when the
  request was answered (reads in between change only its access counters, which no receiver uses).
\<close>

section \<open>FaultInjector.ts\<close>

datatype fault_type = KILL | RESTART | DELAY_REPLICATION | DROP_MESSAGES

record FaultInjectionCommand =
  fc_type :: fault_type
  fc_durationMs :: "int option"
  fc_dropRate :: "rat option"

record FaultState =
  fs_killed :: bool
  fs_replicationDelayMs :: int
  fs_dropRate :: rat

definition new_FaultInjector :: FaultState where
  "new_FaultInjector = \<lparr>fs_killed = False, fs_replicationDelayMs = 0, fs_dropRate = 0\<rparr>"

definition clamp01 :: "rat \<Rightarrow> rat" where
  "clamp01 value = min 1 (max 0 value)"

definition fi_apply :: "FaultInjectionCommand \<Rightarrow> FaultState \<Rightarrow> FaultState" where
  "fi_apply command s =
     (case fc_type command of
        KILL \<Rightarrow> s\<lparr>fs_killed := True\<rparr>
      | RESTART \<Rightarrow> s\<lparr>fs_killed := False\<rparr>
      | DELAY_REPLICATION \<Rightarrow>
          s\<lparr>fs_replicationDelayMs := (case fc_durationMs command of None \<Rightarrow> 2000 | Some d \<Rightarrow> d)\<rparr>
      | DROP_MESSAGES \<Rightarrow>
          s\<lparr>fs_dropRate := clamp01 (case fc_dropRate command of None \<Rightarrow> 1 / 2 | Some r \<Rightarrow> r)\<rparr>)"

definition isKilled :: "FaultState \<Rightarrow> bool" where "isKilled s = fs_killed s"

definition getReplicationDelayMs :: "FaultState \<Rightarrow> int" where "getReplicationDelayMs s = fs_replicationDelayMs s"

definition shouldDropReplicationMessage :: "rat \<Rightarrow> FaultState \<Rightarrow> bool" where
  "shouldDropReplicationMessage random s \<longleftrightarrow> random < fs_dropRate s"

definition fi_reset :: "FaultState \<Rightarrow> FaultState" where
  "fi_reset s = \<lparr>fs_killed = False, fs_replicationDelayMs = 0, fs_dropRate = 0\<rparr>"

section \<open>The node and its constructor\<close>

text \<open>The part of \<open>CacheNodeConfig\<close> the server reads, its numbers being the finite ones the loader
  is meant to deliver.\<close>

record node_settings =
  ns_nodeId :: string
  ns_virtualNodeCount :: nat
  ns_staticNodes :: "StaticNodeEntry list"
  ns_maxMemoryBytes :: nat
  ns_defaultTtlMs :: "int option"
  ns_workerPoolSize :: nat
  ns_snapshotIntervalMs :: int
  ns_snapshotCompress :: bool

datatype 'v worker_payload =
    CleanupFindExpiredPayload "'v CacheEntry list" time
  | SnapshotSerializePayload "'v CacheEntry list" bool

datatype 'b worker_result =
    CleanupFindExpiredResult "CacheKey list"
  | SerializeResult "'b SnapshotSerializeResult"

definition CLEANUP_FIND_EXPIRED :: string where "CLEANUP_FIND_EXPIRED = ''cleanup:find-expired''"
definition SNAPSHOT_SERIALIZE :: string where "SNAPSHOT_SERIALIZE = ''snapshot:serialize''"

record 'v CacheNodeServer =
  cn_settings :: node_settings
  cn_ring :: ConsistentHashRing
  cn_storage :: "'v node_storage"
  cn_metricsCollector :: MetricsCollector
  cn_workerPool :: "'v worker_payload WorkerPool"
  cn_snapshotManager :: SnapshotManager
  cn_replicationEngine :: ReplicationEngine
  cn_faultInjector :: FaultState
  cn_cleanupTimer :: bool
  cn_listening :: bool
  cn_startedAt :: time

definition REPLICATION_FACTOR :: nat where "REPLICATION_FACTOR = 2"
definition CLEANUP_INTERVAL_MS :: nat where "CLEANUP_INTERVAL_MS = 15000"

definition node_options :: "node_settings \<Rightarrow> StorageEngineOptions" where
  "node_options c = \<lparr>so_maxEntries = \<infinity>, so_maxSizeBytes = enat (ns_maxMemoryBytes c), so_defaultTtlMs = ns_defaultTtlMs c\<rparr>"

definition node_ring :: "node_settings \<Rightarrow> time \<Rightarrow> ConsistentHashRing" where
  "node_ring c now = fold (\<lambda>node r. snd (addNode (node_of_static HEALTHY now node) r)) (ns_staticNodes c)
     (new_ConsistentHashRing (Some (ns_virtualNodeCount c)))"

definition new_CacheNodeServer :: "node_settings \<Rightarrow> time \<Rightarrow>
    (('v worker_payload, 'b worker_result) pool_effect list \<times> 'v CacheNodeServer) result" where
  "new_CacheNodeServer c now =
     (case new_AdaptiveEvictionEngine ADAPTIVE_DEFAULTS of
        Inl e \<Rightarrow> Inl e
      | Inr evictionEngine \<Rightarrow>
          (case new_MetricsCollector (ns_nodeId c) None None of
             Inl e \<Rightarrow> Inl e
           | Inr metrics \<Rightarrow>
               (let (eff, pool) = new_WorkerPool (ns_workerPoolSize c) None
                in Inr (eff,
                  \<lparr>cn_settings = c, cn_ring = node_ring c now, cn_storage = new_StorageEngine evictionEngine,
                   cn_metricsCollector = metrics, cn_workerPool = pool,
                   cn_snapshotManager = new_SnapshotManager (ns_nodeId c) (ns_snapshotIntervalMs c) (ns_snapshotCompress c) None,
                   cn_replicationEngine = new_ReplicationEngine (ns_nodeId c) None,
                   cn_faultInjector = new_FaultInjector, cn_cleanupTimer = False, cn_listening = False,
                   cn_startedAt = now\<rparr>))))"

definition node_metrics_getters :: "'v CacheNodeServer \<Rightarrow> MetricsGetters" where
  "node_metrics_getters n =
     \<lparr>mg_storageStats = storage_getStats (cn_storage n), mg_memoryLimitBytes = enat (ns_maxMemoryBytes (cn_settings n)),
      mg_currentPolicy = getCurrentPolicy (se_hook (cn_storage n)),
      mg_nodeStatus = (if isKilled (cn_faultInjector n) then DEAD else HEALTHY)\<rparr>"

text \<open>The calls into the node's own storage.\<close>

definition node_set :: "('v \<Rightarrow> unit + string option) \<Rightarrow> time \<Rightarrow> CacheKey \<Rightarrow> 'v \<Rightarrow> SetOptions \<Rightarrow> 'v CacheNodeServer \<Rightarrow>
    ('v CacheEntry \<times> 'v CacheNodeServer) result" where
  "node_set js now key value ttl n =
     (case storage_set adaptive_hook js (node_options (cn_settings n)) now key value ttl (cn_storage n) of
        Inl e \<Rightarrow> Inl e
      | Inr (entry, s) \<Rightarrow> Inr (entry, n\<lparr>cn_storage := s\<rparr>))"

definition node_delete :: "CacheKey \<Rightarrow> 'v CacheNodeServer \<Rightarrow> bool \<times> 'v CacheNodeServer" where
  "node_delete key n =
     (let (deleted, s) = storage_delete adaptive_hook key (cn_storage n) in (deleted, n\<lparr>cn_storage := s\<rparr>))"

section \<open>Replication under fault injection\<close>

datatype 'v deferred = DeferWrite CacheKey 'v CacheMetadata | DeferDelete CacheKey

definition getReplicaNodeIds :: "'v CacheNodeServer \<Rightarrow> CacheKey \<Rightarrow> string list" where
  "getReplicaNodeIds n key = getNodesForKey key REPLICATION_FACTOR (cn_ring n)"

text \<open>How long \<open>applyReplicationDelay\<close> waits before it lets the replication continue.\<close>

definition applyReplicationDelay :: "FaultState \<Rightarrow> int" where
  "applyReplicationDelay s = (let delayMs = getReplicationDelayMs s in if delayMs > 0 then delayMs else 0)"

text \<open>Up to the delay: \<open>None\<close> is the dropped message, otherwise the delay and what follows it.\<close>

definition replicateWriteWithFaults :: "rat \<Rightarrow> CacheKey \<Rightarrow> 'v \<Rightarrow> CacheMetadata \<Rightarrow> 'v CacheNodeServer \<Rightarrow>
    (int \<times> 'v deferred) option" where
  "replicateWriteWithFaults random key value metadata n =
     (if shouldDropReplicationMessage random (cn_faultInjector n) then None
      else Some (applyReplicationDelay (cn_faultInjector n), DeferWrite key value metadata))"

definition replicateDeleteWithFaults :: "rat \<Rightarrow> CacheKey \<Rightarrow> 'v CacheNodeServer \<Rightarrow> (int \<times> 'v deferred) option" where
  "replicateDeleteWithFaults random key n =
     (if shouldDropReplicationMessage random (cn_faultInjector n) then None
      else Some (applyReplicationDelay (cn_faultInjector n), DeferDelete key))"

text \<open>After the delay: the call of the replication engine.\<close>

definition continue_replication :: "string \<Rightarrow> time \<Rightarrow> 'v deferred \<Rightarrow> 'v CacheNodeServer \<Rightarrow>
    'v repl_effect list option \<times> 'v CacheNodeServer" where
  "continue_replication eventId now d n =
     (let (eff, re) =
        (case d of
           DeferWrite key value metadata \<Rightarrow>
             replicateWrite (getReplicaNodeIds n) eventId now key value metadata (cn_replicationEngine n)
         | DeferDelete key \<Rightarrow> replicateDelete (getReplicaNodeIds n) eventId now key (cn_replicationEngine n))
      in (eff, n\<lparr>cn_replicationEngine := re\<rparr>))"

section \<open>Applying remote and restored data\<close>

definition remaining_ttl :: "time \<Rightarrow> CacheMetadata \<Rightarrow> SetOptions" where
  "remaining_ttl now metadata =
     (case cm_expiresAt metadata of None \<Rightarrow> None | Some t \<Rightarrow> Some (Some (max 0 (t - now))))"

definition applyRemoteWrite :: "('v \<Rightarrow> unit + string option) \<Rightarrow> time \<Rightarrow> CacheKey \<Rightarrow> 'v \<Rightarrow> CacheMetadata \<Rightarrow>
    'v CacheNodeServer \<Rightarrow> 'v CacheNodeServer result" where
  "applyRemoteWrite js now key value metadata n =
     (case storage_peek now key (cn_storage n) of
        Some existing \<Rightarrow>
          if cm_version (ce_metadata existing) \<ge> cm_version metadata then Inr n
          else (case node_set js now key value (remaining_ttl now metadata) n of Inl e \<Rightarrow> Inl e | Inr (_, n') \<Rightarrow> Inr n')
      | None \<Rightarrow>
          (case node_set js now key value (remaining_ttl now metadata) n of Inl e \<Rightarrow> Inl e | Inr (_, n') \<Rightarrow> Inr n'))"

definition applyRemoteDelete :: "CacheKey \<Rightarrow> 'v CacheNodeServer \<Rightarrow> 'v CacheNodeServer" where
  "applyRemoteDelete key n = snd (node_delete key n)"

definition applyRestoredEntry :: "('v \<Rightarrow> unit + string option) \<Rightarrow> time \<Rightarrow> 'v CacheEntry \<Rightarrow> 'v CacheNodeServer \<Rightarrow>
    'v CacheNodeServer result" where
  "applyRestoredEntry js now entry n =
     (case node_set js now (ce_key entry) (ce_value entry) (remaining_ttl now (ce_metadata entry)) n of
        Inl e \<Rightarrow> Inl e
      | Inr (_, n') \<Rightarrow> Inr n')"

text \<open>The callbacks the replication engine is constructed with; \<open>undef\<close> is the value \<open>undefined\<close> that
  a PUT event without a value would store.\<close>

definition node_callbacks :: "('v \<Rightarrow> unit + string option) \<Rightarrow> 'v \<Rightarrow> ('v, 'v CacheNodeServer) repl_callbacks" where
  "node_callbacks js undef =
     \<lparr>cb_applyRemoteWrite = (\<lambda>now key value metadata n.
        applyRemoteWrite js now key (case value of None \<Rightarrow> undef | Some v \<Rightarrow> v) metadata n),
      cb_applyRemoteDelete = (\<lambda>key n. Inr (applyRemoteDelete key n))\<rparr>"

definition on_replication_message :: "('v \<Rightarrow> unit + string option) \<Rightarrow> 'v \<Rightarrow> time \<Rightarrow> 'v ReplicationTopicMessage \<Rightarrow>
    'v CacheNodeServer \<Rightarrow> 'v repl_effect list \<times> 'v CacheNodeServer" where
  "on_replication_message js undef now message n =
     (let (eff, re, n') = handleMessage (node_callbacks js undef) now message (cn_replicationEngine n) n
      in (eff, n'\<lparr>cn_replicationEngine := re\<rparr>))"

section \<open>Background cleanup and the worker tasks\<close>

definition cleanupExpiredHandler :: "'v CacheEntry list \<Rightarrow> time \<Rightarrow> CacheKey list" where
  "cleanupExpiredHandler entries now =
     map ce_key (filter (\<lambda>e. case cm_expiresAt (ce_metadata e) of None \<Rightarrow> False | Some t \<Rightarrow> t \<le> now) entries)"

text \<open>The handlers a node's workers look up.  Both payloads carry \<open>entries\<close>; a field the other payload
  lacks reads as \<open>undefined\<close>, with which no comparison holds and which does not ask for compression.\<close>

definition node_handlers :: "('v, 'b) codec \<Rightarrow> string \<Rightarrow> ('v worker_payload \<Rightarrow> 'b worker_result result) option" where
  "node_handlers c type =
     (if type = CLEANUP_FIND_EXPIRED then
        Some (\<lambda>p. case p of
          CleanupFindExpiredPayload entries now \<Rightarrow> Inr (CleanupFindExpiredResult (cleanupExpiredHandler entries now))
        | SnapshotSerializePayload _ _ \<Rightarrow> Inr (CleanupFindExpiredResult []))
      else if type = SNAPSHOT_SERIALIZE then
        Some (\<lambda>p. case p of
          SnapshotSerializePayload entries compress \<Rightarrow> Inr (SerializeResult (snapshotSerializeHandler c entries compress))
        | CleanupFindExpiredPayload entries _ \<Rightarrow> Inr (SerializeResult (snapshotSerializeHandler c entries False)))
      else None)"

definition startBackgroundCleanup :: "'v CacheNodeServer \<Rightarrow> 'v CacheNodeServer" where
  "startBackgroundCleanup n = n\<lparr>cn_cleanupTimer := True\<rparr>"

text \<open>\<open>runCleanupSweep\<close> up to its \<open>await\<close> (\<open>None\<close> is the early return on an empty store) and after it.\<close>

definition runCleanupSweep_begin :: "string \<Rightarrow> time \<Rightarrow> 'v CacheNodeServer \<Rightarrow>
    ('v worker_payload, 'b worker_result) pool_effect list option \<times> 'v CacheNodeServer" where
  "runCleanupSweep_begin taskId now n =
     (let entries = storage_entries (cn_storage n)
      in if length entries = 0 then (None, n)
         else let (eff, pool) = submitTask taskId CLEANUP_FIND_EXPIRED (CleanupFindExpiredPayload entries now) None (cn_workerPool n)
              in (Some eff, n\<lparr>cn_workerPool := pool\<rparr>))"

definition runCleanupSweep_end :: "CacheKey list \<Rightarrow> 'v CacheNodeServer \<Rightarrow> 'v CacheNodeServer" where
  "runCleanupSweep_end expiredKeys n = fold (\<lambda>key n. snd (node_delete key n)) expiredKeys n"

section \<open>Snapshots\<close>

text \<open>The \<open>serialize\<close> callback: the pool runs the task or rejects it (\<open>failure\<close>).\<close>

definition pool_serialize :: "('v, 'b) codec \<Rightarrow> thrown option \<Rightarrow> 'v CacheEntry list \<Rightarrow> bool \<Rightarrow> ('b \<times> string) result" where
  "pool_serialize c failure entries compress =
     (case failure of
        Some e \<Rightarrow> Inl e
      | None \<Rightarrow> (let r = snapshotSerializeHandler c entries compress in Inr (sr_buffer r, sr_checksum r)))"

text \<open>A snapshot of the node: on success the \<open>snapshot\<close> listener records its duration.\<close>

definition node_takeSnapshot :: "('b, 'st) ISnapshotStore \<Rightarrow> ('v, 'b) codec \<Rightarrow> thrown option \<Rightarrow> time \<Rightarrow> time \<Rightarrow> string \<Rightarrow>
    'v CacheNodeServer \<Rightarrow> 'st \<Rightarrow> SnapshotMetadata result \<times> 'v CacheNodeServer \<times> 'st" where
  "node_takeSnapshot H c failure startedAt now i n st =
     (let (res, sm, st') = takeSnapshot H (pool_serialize c failure) (co_byteLength c) startedAt now i
            (storage_entries (cn_storage n)) (cn_snapshotManager n) st;
          n1 = n\<lparr>cn_snapshotManager := sm\<rparr>
      in (res,
          (case res of
             Inl _ \<Rightarrow> n1
           | Inr md \<Rightarrow> n1\<lparr>cn_metricsCollector := recordSnapshotDuration (md_durationMs md) (cn_metricsCollector n1)\<rparr>),
          st'))"

section \<open>RecoveryEngine.ts\<close>

record RecoveryReport =
  rr_nodeId :: string
  rr_startedAt :: time
  rr_finishedAt :: time
  rr_snapshotRestored :: "string option"
  rr_entriesRestoredFromSnapshot :: nat
  rr_operationsReplayed :: nat
  rr_integrityVerified :: bool
  rr_errors :: "string list"

text \<open>The loop over the restored entries leaves at the first entry that throws, keeping what it stored.\<close>

fun apply_entries :: "('v \<Rightarrow> unit + string option) \<Rightarrow> time \<Rightarrow> 'v CacheEntry list \<Rightarrow> 'v CacheNodeServer \<Rightarrow>
    unit result \<times> 'v CacheNodeServer" where
  "apply_entries js now [] n = (Inr (), n)"
| "apply_entries js now (entry # entries) n =
     (case applyRestoredEntry js now entry n of Inl e \<Rightarrow> (Inl e, n) | Inr n' \<Rightarrow> apply_entries js now entries n')"

text \<open>\<open>recover\<close> up to the \<open>await\<close> of \<open>restoreLatest\<close>, and after it with what was restored.\<close>

definition recover_begin :: "'v CacheNodeServer \<Rightarrow> 'v CacheNodeServer" where
  "recover_begin n = n\<lparr>cn_storage := storage_clear (cn_storage n)\<rparr>"

definition recover_end :: "('v \<Rightarrow> unit + string option) \<Rightarrow> time \<Rightarrow> time \<Rightarrow> 'v SnapshotPayload option result \<Rightarrow>
    'v CacheNodeServer \<Rightarrow> RecoveryReport \<times> 'v CacheNodeServer" where
  "recover_end js startedAt now restored n =
     (let (snapshotRestored, entriesRestored, errors, n') =
        (case restored of
           Inl e \<Rightarrow> (None, 0, [thrown_message e], n)
         | Inr None \<Rightarrow> (None, 0, [], n)
         | Inr (Some payload) \<Rightarrow>
             (case apply_entries js now (pl_entries payload) n of
                (Inr _, n1) \<Rightarrow> (Some (md_snapshotId (pl_metadata payload)), length (pl_entries payload), [], n1)
              | (Inl e, n1) \<Rightarrow> (None, 0, [thrown_message e], n1)))
      in (\<lparr>rr_nodeId = ns_nodeId (cn_settings n), rr_startedAt = startedAt, rr_finishedAt = now,
           rr_snapshotRestored = snapshotRestored, rr_entriesRestoredFromSnapshot = entriesRestored,
           rr_operationsReplayed = 0, rr_integrityVerified = (length errors = 0), rr_errors = errors\<rparr>, n'))"

definition recover :: "('v \<Rightarrow> unit + string option) \<Rightarrow> time \<Rightarrow> time \<Rightarrow> 'v SnapshotPayload option result \<Rightarrow>
    'v CacheNodeServer \<Rightarrow> RecoveryReport \<times> 'v CacheNodeServer" where
  "recover js startedAt now restored n = recover_end js startedAt now restored (recover_begin n)"

fun join_with :: "string \<Rightarrow> string list \<Rightarrow> string" where
  "join_with sep [] = []"
| "join_with sep [x] = x"
| "join_with sep (x # y # ys) = x @ sep @ join_with sep (y # ys)"

definition assertHealthy :: "RecoveryReport \<Rightarrow> unit result" where
  "assertHealthy report =
     (if \<not> rr_integrityVerified report
      then Inl (FlowCache (RecoveryError (''Recovery for node '' @ quoted (rr_nodeId report) @
             '' did not verify cleanly: '' @ join_with ''; '' (rr_errors report))))
      else Inr ())"

section \<open>Lifecycle\<close>

text \<open>\<open>subscribed\<close> is the outcome of the event bus's \<open>subscribeAll\<close>.\<close>

definition node_start :: "('v \<Rightarrow> unit + string option) \<Rightarrow> time \<Rightarrow> time \<Rightarrow> 'v SnapshotPayload option result \<Rightarrow> unit result \<Rightarrow>
    'v CacheNodeServer \<Rightarrow> unit result \<times> 'v CacheNodeServer" where
  "node_start js startedAt now restored subscribed n =
     (let (report, n1) = recover js startedAt now restored n
      in case assertHealthy report of
           Inl e \<Rightarrow> (Inl e, n1)
         | Inr _ \<Rightarrow>
             (if re_started (cn_replicationEngine n1) then Inr () else subscribed,
              case (if re_started (cn_replicationEngine n1) then Inr () else subscribed) of
                Inl e \<Rightarrow> n1
              | Inr _ \<Rightarrow>
                  (startBackgroundCleanup
                     (n1\<lparr>cn_replicationEngine := snd (repl_start (cn_replicationEngine n1) :: 'v repl_effect list \<times> ReplicationEngine),
                         cn_snapshotManager := sm_start (cn_snapshotManager n1)\<rparr>))\<lparr>cn_listening := True\<rparr>))"

definition handleRestart_end :: "('v \<Rightarrow> unit + string option) \<Rightarrow> time \<Rightarrow> time \<Rightarrow> 'v SnapshotPayload option result \<Rightarrow>
    'v CacheNodeServer \<Rightarrow> unit result \<times> 'v CacheNodeServer" where
  "handleRestart_end js startedAt now restored n =
     (let (report, n1) = recover_end js startedAt now restored n
      in case assertHealthy report of
           Inl e \<Rightarrow> (Inl e, n1)
         | Inr _ \<Rightarrow> (Inr (), n1\<lparr>cn_faultInjector := fi_reset (cn_faultInjector n1)\<rparr>))"

definition handleRestart :: "('v \<Rightarrow> unit + string option) \<Rightarrow> time \<Rightarrow> time \<Rightarrow> 'v SnapshotPayload option result \<Rightarrow>
    'v CacheNodeServer \<Rightarrow> unit result \<times> 'v CacheNodeServer" where
  "handleRestart js startedAt now restored n = handleRestart_end js startedAt now restored (recover_begin n)"

text \<open>\<open>stop\<close> in two parts: up to the end of the final snapshot (a failing one is only logged), and from
  there to the close of the HTTP server, which still accepts requests in between.\<close>

definition node_stop_snapshot :: "('b, 'st) ISnapshotStore \<Rightarrow> ('v, 'b) codec \<Rightarrow> thrown option \<Rightarrow> time \<Rightarrow> time \<Rightarrow> string \<Rightarrow>
    'v CacheNodeServer \<Rightarrow> 'st \<Rightarrow> 'v CacheNodeServer \<times> 'st" where
  "node_stop_snapshot H c failure startedAt now i n st =
     (let n1 = n\<lparr>cn_cleanupTimer := False, cn_snapshotManager := sm_stop (cn_snapshotManager n)\<rparr>
      in snd (node_takeSnapshot H c failure startedAt now i n1 st))"

definition node_stop_dispose :: "'v CacheNodeServer \<Rightarrow>
    'v repl_effect list \<times> ('v worker_payload, 'b worker_result) pool_effect list \<times> 'v CacheNodeServer" where
  "node_stop_dispose n =
     (let (eff, re) = repl_dispose (cn_replicationEngine n);
          (peff, pool) = pool_dispose (cn_workerPool n);
          s = cn_storage n
      in (eff, peff,
          n\<lparr>cn_replicationEngine := re, cn_workerPool := pool_dispose_end pool,
            cn_storage := storage_dispose (s\<lparr>se_hook := ae_dispose (se_hook s)\<rparr>), cn_listening := False\<rparr>))"

definition node_stop :: "('b, 'st) ISnapshotStore \<Rightarrow> ('v, 'b) codec \<Rightarrow> thrown option \<Rightarrow> time \<Rightarrow> time \<Rightarrow> string \<Rightarrow>
    'v CacheNodeServer \<Rightarrow> 'st \<Rightarrow> 'v repl_effect list \<times> ('v worker_payload, 'b worker_result) pool_effect list \<times> 'v CacheNodeServer \<times> 'st" where
  "node_stop H c failure startedAt now i n st =
     (let (n1, st') = node_stop_snapshot H c failure startedAt now i n st; (eff, peff, n2) = node_stop_dispose n1
      in (eff, peff, n2, st'))"

subsection \<open>index.ts: starting with retries\<close>

definition MAX_START_ATTEMPTS :: nat where "MAX_START_ATTEMPTS = 5"
definition START_RETRY_BASE_DELAY_MS :: nat where "START_RETRY_BASE_DELAY_MS = 1000"

text \<open>One attempt: a fresh server is started on the snapshot store \<open>st\<close>; a failing attempt stops it, final
  snapshot included.  \<open>i\<close> and \<open>t\<close> give the attempt its snapshot identifier and its time, \<open>subscribed\<close>
  the outcome of its subscription.  The code constructs the server outside its \<open>try\<close>; the branch of a throwing
  constructor is never taken (\<open>new_CacheNodeServer_some\<close>).\<close>

definition start_attempt :: "('v \<Rightarrow> unit + string option) \<Rightarrow> ('b, 'st) ISnapshotStore \<Rightarrow> ('v, 'b) codec \<Rightarrow> node_settings \<Rightarrow>
    (nat \<Rightarrow> string) \<Rightarrow> (nat \<Rightarrow> time) \<Rightarrow> (nat \<Rightarrow> unit result) \<Rightarrow> nat \<Rightarrow> 'st \<Rightarrow> 'v CacheNodeServer result \<times> 'st" where
  "start_attempt js H c settings i t subscribed attempt st =
     (case (new_CacheNodeServer settings (t attempt) ::
              (('v worker_payload, 'b worker_result) pool_effect list \<times> 'v CacheNodeServer) result) of
        Inl e \<Rightarrow> (Inl e, st)
      | Inr (_, server) \<Rightarrow>
          (case node_start js (t attempt) (t attempt) (restoreLatest H c (cn_snapshotManager server) st) (subscribed attempt) server of
             (Inr _, n) \<Rightarrow> (Inr n, st)
           | (Inl e, n) \<Rightarrow>
               (let (_, _, _, st') = node_stop H c None (t attempt) (t attempt) (i attempt) n st in (Inl e, st'))))"

text \<open>The loop over the attempts: the result, the delays slept between them and the state they leave.\<close>

function start_attempts :: "(nat \<Rightarrow> 'w \<Rightarrow> 's result \<times> 'w) \<Rightarrow> thrown \<Rightarrow> nat \<Rightarrow> 'w \<Rightarrow> 's result \<times> nat list \<times> 'w" where
  "start_attempts try lastErr attempt w =
     (if attempt \<le> MAX_START_ATTEMPTS then
        (case try attempt w of
           (Inr server, w1) \<Rightarrow> (Inr server, [], w1)
         | (Inl err, w1) \<Rightarrow>
             (let (res, delays, w2) = start_attempts try err (attempt + 1) w1
              in (res, if attempt < MAX_START_ATTEMPTS
                       then START_RETRY_BASE_DELAY_MS * 2 ^ (attempt - 1) # delays else delays, w2)))
      else (Inl lastErr, [], w))"
  by pat_completeness auto
termination by (relation "measure (\<lambda>(try, err, attempt, w). Suc MAX_START_ATTEMPTS - attempt)") auto

declare start_attempts.simps [simp del]

definition startWithRetry :: "(nat \<Rightarrow> 'w \<Rightarrow> 's result \<times> 'w) \<Rightarrow> 'w \<Rightarrow> 's result \<times> nat list \<times> 'w" where
  "startWithRetry try w = start_attempts try (PlainError ''undefined'') 1 w"

section \<open>The HTTP routes\<close>

text \<open>\<open>type\<close> is missing or some string; the other fields are as the command's type has them.\<close>

record fault_body =
  fb_type :: "string option"
  fb_durationMs :: "int option"
  fb_dropRate :: "rat option"

datatype 'v node_request =
    ReqGet string
  | ReqPut "'v PutRequestBody option"
  | ReqDelete string
  | ReqMetrics
  | ReqEviction
  | ReqHealth
  | ReqExport
  | ReqFault "fault_body option"
  | ReqPolicy "string option"

record 'v GetResponseBody =
  gb_key :: CacheKey
  gb_value :: 'v
  gb_metadata :: CacheMetadata
  gb_nodeId :: string

record PutResponseBody =
  pr_key :: CacheKey
  pr_version :: nat
  pr_nodeId :: string
  pr_replicated :: bool

record DeleteResponseBody =
  dr_key :: CacheKey
  dr_deleted :: bool
  dr_nodeId :: string

record HealthCheckResponse =
  hr_nodeId :: string
  hr_status :: NodeStatus
  hr_uptimeMs :: int
  hr_timestamp :: time

record EvictionDetail =
  ed_nodeId :: string
  ed_currentPolicy :: EvictionPolicyType
  ed_autoSwitchEnabled :: bool
  ed_signals :: WorkloadSignals
  ed_switchHistory :: "PolicySwitchEvent list"

datatype 'v node_body =
    GetReply "'v GetResponseBody"
  | PutReply PutResponseBody
  | DeleteReply DeleteResponseBody
  | MetricsReply MetricsSnapshot
  | EvictionReply EvictionDetail
  | HealthReply HealthCheckResponse
  | ExportReply "'v CacheEntry list"
  | FaultReply fault_body
  | PolicyReply EvictionPolicyType bool

subsection \<open>cacheRoutes.ts\<close>

definition node_get_route :: "(string \<Rightarrow> string option) \<Rightarrow> time \<Rightarrow> string \<Rightarrow> 'v CacheNodeServer \<Rightarrow>
    'v node_body result \<times> 'v CacheNodeServer" where
  "node_get_route decode now raw n =
     (case decodeCacheKeyParam decode raw of
        Inl e \<Rightarrow> (Inl e, n)
      | Inr key \<Rightarrow>
          (let (entry, s) = storage_get adaptive_hook now key (cn_storage n); n' = n\<lparr>cn_storage := s\<rparr>
           in case entry of
                None \<Rightarrow> (Inl (FlowCache (KeyNotFoundError key)), n')
              | Some e \<Rightarrow> (Inr (GetReply \<lparr>gb_key = key, gb_value = ce_value e, gb_metadata = ce_metadata e,
                                   gb_nodeId = ns_nodeId (cn_settings n)\<rparr>), n')))"

fun put_ttl :: "raw_ttl \<Rightarrow> SetOptions result" where
  "put_ttl TtlUndefined = Inr None"
| "put_ttl (TtlNumber t) =
     (if t \<le> 0 then Inl (FlowCache (ValidationError ''\"ttlMs\", if provided, must be a positive number''))
      else Inr (Some (Some t)))"
| "put_ttl TtlNull = Inl (FlowCache (ValidationError ''\"ttlMs\", if provided, must be a positive number''))"
| "put_ttl TtlOther = Inl (FlowCache (ValidationError ''\"ttlMs\", if provided, must be a positive number''))"

text \<open>The checks of the PUT route: key, value and the \<open>ttlMs\<close> to store with.\<close>

definition validate_put :: "'v PutRequestBody option \<Rightarrow> (CacheKey \<times> 'v \<times> SetOptions) result" where
  "validate_put requestBody =
     (let no_key = Inl (FlowCache (ValidationError ''Request body must include a non-empty string \"key\"''))
      in case requestBody of
           None \<Rightarrow> no_key
         | Some body \<Rightarrow>
             (case pb_key body of
                None \<Rightarrow> no_key
              | Some key \<Rightarrow>
                  if length key = 0 then no_key
                  else (case pb_value body of
                          None \<Rightarrow> Inl (FlowCache (ValidationError ''Request body must include a \"value\" field''))
                        | Some v \<Rightarrow> (case put_ttl (pb_ttlMs body) of Inl e \<Rightarrow> Inl e | Inr t \<Rightarrow> Inr (key, v, t)))))"

definition node_put_route :: "('v \<Rightarrow> unit + string option) \<Rightarrow> time \<Rightarrow> rat \<Rightarrow> 'v PutRequestBody option \<Rightarrow> 'v CacheNodeServer \<Rightarrow>
    'v node_body result \<times> (int \<times> 'v deferred) option \<times> 'v CacheNodeServer" where
  "node_put_route js now random requestBody n =
     (case validate_put requestBody of
        Inl e \<Rightarrow> (Inl e, None, n)
      | Inr (key, value, ttl) \<Rightarrow>
          (case node_set js now key value ttl n of
             Inl e \<Rightarrow> (Inl e, None, n)
           | Inr (entry, n') \<Rightarrow>
               (Inr (PutReply \<lparr>pr_key = key, pr_version = cm_version (ce_metadata entry),
                       pr_nodeId = ns_nodeId (cn_settings n), pr_replicated = False\<rparr>),
                replicateWriteWithFaults random key (ce_value entry) (ce_metadata entry) n', n')))"

definition node_delete_route :: "(string \<Rightarrow> string option) \<Rightarrow> rat \<Rightarrow> string \<Rightarrow> 'v CacheNodeServer \<Rightarrow>
    'v node_body result \<times> (int \<times> 'v deferred) option \<times> 'v CacheNodeServer" where
  "node_delete_route decode random raw n =
     (case decodeCacheKeyParam decode raw of
        Inl e \<Rightarrow> (Inl e, None, n)
      | Inr key \<Rightarrow>
          (let (deleted, n') = node_delete key n
           in (Inr (DeleteReply \<lparr>dr_key = key, dr_deleted = deleted, dr_nodeId = ns_nodeId (cn_settings n)\<rparr>),
               if deleted then replicateDeleteWithFaults random key n' else None, n')))"

subsection \<open>metricsRoutes.ts and healthRoutes.ts\<close>

definition node_metrics_route :: "time \<Rightarrow> 'v CacheNodeServer \<Rightarrow> MetricsSnapshot" where
  "node_metrics_route now n = mc_getSnapshot (node_metrics_getters n) now (cn_metricsCollector n)"

definition node_eviction_route :: "'v CacheNodeServer \<Rightarrow> EvictionDetail \<times> 'v CacheNodeServer" where
  "node_eviction_route n =
     (let h = se_hook (cn_storage n);
          (signals, s) = getSignalsNow (ns_maxMemoryBytes (cn_settings n)) (cn_storage n)
      in (\<lparr>ed_nodeId = ns_nodeId (cn_settings n), ed_currentPolicy = getCurrentPolicy h,
           ed_autoSwitchEnabled = isAutoSwitchEnabled h, ed_signals = signals,
           ed_switchHistory = getSwitchHistory (se_hook s)\<rparr>, n\<lparr>cn_storage := s\<rparr>))"

definition node_health_route :: "time \<Rightarrow> 'v CacheNodeServer \<Rightarrow> HealthCheckResponse" where
  "node_health_route now n =
     \<lparr>hr_nodeId = ns_nodeId (cn_settings n), hr_status = (if isKilled (cn_faultInjector n) then DEAD else HEALTHY),
      hr_uptimeMs = now - cn_startedAt n, hr_timestamp = now\<rparr>"

subsection \<open>internalRoutes.ts\<close>

definition VALID_FAULT_TYPES :: "(string \<times> fault_type) list" where
  "VALID_FAULT_TYPES = [(''KILL'', KILL), (''RESTART'', RESTART), (''DELAY_REPLICATION'', DELAY_REPLICATION),
     (''DROP_MESSAGES'', DROP_MESSAGES)]"

definition PINNABLE_POLICIES :: "(string \<times> EvictionPolicyType) list" where
  "PINNABLE_POLICIES = [(''LRU'', LRU), (''LFU'', LFU), (''TINY_LFU'', TINY_LFU)]"

definition node_export_route :: "'v CacheNodeServer \<Rightarrow> 'v CacheEntry list" where
  "node_export_route n = storage_entries (cn_storage n)"

definition validate_fault :: "fault_body option \<Rightarrow> (fault_body \<times> FaultInjectionCommand) result" where
  "validate_fault body =
     (case body of
        None \<Rightarrow> Inl (FlowCache (ValidationError
                  (''\"type\" must be one of: '' @ join_with '', '' (map fst VALID_FAULT_TYPES))))
      | Some b \<Rightarrow>
          (case Option.bind (fb_type b) (map_of VALID_FAULT_TYPES) of
             None \<Rightarrow> Inl (FlowCache (ValidationError
                       (''\"type\" must be one of: '' @ join_with '', '' (map fst VALID_FAULT_TYPES))))
           | Some t \<Rightarrow> Inr (b, \<lparr>fc_type = t, fc_durationMs = fb_durationMs b, fc_dropRate = fb_dropRate b\<rparr>)))"

text \<open>\<open>restored\<close> is what the snapshot store answers if the command is a RESTART.\<close>

definition node_fault_route :: "('v \<Rightarrow> unit + string option) \<Rightarrow> time \<Rightarrow> 'v SnapshotPayload option result \<Rightarrow>
    fault_body option \<Rightarrow> 'v CacheNodeServer \<Rightarrow> 'v node_body result \<times> 'v CacheNodeServer" where
  "node_fault_route js now restored body n =
     (case validate_fault body of
        Inl e \<Rightarrow> (Inl e, n)
      | Inr (b, command) \<Rightarrow>
          (let n1 = n\<lparr>cn_faultInjector := fi_apply command (cn_faultInjector n)\<rparr>
           in if fc_type command = RESTART
              then (case handleRestart js now now restored n1 of
                      (Inl e, n2) \<Rightarrow> (Inl e, n2)
                    | (Inr _, n2) \<Rightarrow> (Inr (FaultReply b), n2))
              else (Inr (FaultReply b), n1)))"

definition with_policy_engine :: "(AdaptiveEvictionEngine \<Rightarrow> AdaptiveEvictionEngine) \<Rightarrow> 'v CacheNodeServer \<Rightarrow> 'v CacheNodeServer" where
  "with_policy_engine f n = n\<lparr>cn_storage := (cn_storage n)\<lparr>se_hook := f (se_hook (cn_storage n))\<rparr>\<rparr>"

definition policy_reply :: "'v CacheNodeServer \<Rightarrow> 'v node_body" where
  "policy_reply n = PolicyReply (getCurrentPolicy (se_hook (cn_storage n))) (isAutoSwitchEnabled (se_hook (cn_storage n)))"

definition node_policy_route :: "time \<Rightarrow> string option \<Rightarrow> 'v CacheNodeServer \<Rightarrow> 'v node_body result \<times> 'v CacheNodeServer" where
  "node_policy_route now policy n =
     (if policy = Some ''ADAPTIVE'' then (let n' = with_policy_engine resumeAutoSwitch n in (Inr (policy_reply n'), n'))
      else case Option.bind policy (map_of PINNABLE_POLICIES) of
             None \<Rightarrow> (Inl (FlowCache (ValidationError
                        (''\"policy\" must be one of: '' @ join_with '', '' (map fst PINNABLE_POLICIES) @ '', ADAPTIVE''))), n)
           | Some p \<Rightarrow>
               (let n1 = with_policy_engine pauseAutoSwitch n
                in case forceSwitchNow (ns_maxMemoryBytes (cn_settings n1)) now p ''pinned via /internal/policy'' (cn_storage n1) of
                     Inl e \<Rightarrow> (Inl e, n1)
                   | Inr (_, s) \<Rightarrow> (let n2 = n1\<lparr>cn_storage := s\<rparr> in (Inr (policy_reply n2), n2))))"

subsection \<open>The middleware chain\<close>

definition killSwitch :: "'v CacheNodeServer \<Rightarrow> unit result" where
  "killSwitch n =
     (if isKilled (cn_faultInjector n) then Inl (FlowCache (NodeUnavailableError (ns_nodeId (cn_settings n)))) else Inr ())"

text \<open>The routes behind the kill switch, with the replication they leave behind.\<close>

fun public_route :: "('v \<Rightarrow> unit + string option) \<Rightarrow> (string \<Rightarrow> string option) \<Rightarrow> time \<Rightarrow> rat \<Rightarrow> 'v node_request \<Rightarrow>
    'v CacheNodeServer \<Rightarrow> 'v node_body result \<times> (int \<times> 'v deferred) option \<times> 'v CacheNodeServer" where
  "public_route js decode now random (ReqGet raw) n = (let (r, n') = node_get_route decode now raw n in (r, None, n'))"
| "public_route js decode now random (ReqPut body) n = node_put_route js now random body n"
| "public_route js decode now random (ReqDelete raw) n = node_delete_route decode random raw n"
| "public_route js decode now random ReqEviction n =
     (let (d, n') = node_eviction_route n in (Inr (EvictionReply d), None, n'))"
| "public_route js decode now random _ n = (Inr (MetricsReply (node_metrics_route now n)), None, n)"

fun handle_request :: "('v \<Rightarrow> unit + string option) \<Rightarrow> (string \<Rightarrow> string option) \<Rightarrow> time \<Rightarrow> rat \<Rightarrow>
    'v SnapshotPayload option result \<Rightarrow> 'v node_request \<Rightarrow> 'v CacheNodeServer \<Rightarrow>
    'v node_body http_response \<times> (int \<times> 'v deferred) option \<times> 'v CacheNodeServer" where
  "handle_request js decode now random restored ReqHealth n = (Ok200 (HealthReply (node_health_route now n)), None, n)"
| "handle_request js decode now random restored ReqExport n = (Ok200 (ExportReply (node_export_route n)), None, n)"
| "handle_request js decode now random restored (ReqFault body) n =
     (let (r, n') = node_fault_route js now restored body n in (respond r, None, n'))"
| "handle_request js decode now random restored (ReqPolicy policy) n =
     (let (r, n') = node_policy_route now policy n in (respond r, None, n'))"
| "handle_request js decode now random restored req n =
     (case killSwitch n of
        Inl e \<Rightarrow> (respond (Inl e), None, n)
      | Inr _ \<Rightarrow> (let (r, d, n') = public_route js decode now random req n in (respond r, d, n')))"

text \<open>The HTTP server in front of the application: a request reaches it from the \<open>listen\<close> of \<open>start\<close> to the
  \<open>close\<close> of \<open>stop\<close>; before and after, the connection is refused.\<close>

definition serve_request :: "('v \<Rightarrow> unit + string option) \<Rightarrow> (string \<Rightarrow> string option) \<Rightarrow> time \<Rightarrow> rat \<Rightarrow>
    'v SnapshotPayload option result \<Rightarrow> 'v node_request \<Rightarrow> 'v CacheNodeServer \<Rightarrow>
    ('v node_body http_response \<times> (int \<times> 'v deferred) option \<times> 'v CacheNodeServer) option" where
  "serve_request js decode now random restored req n =
     (if cn_listening n then Some (handle_request js decode now random restored req n) else None)"

text \<open>\<open>requestTimingMiddleware\<close>: when the response is finished its latency is recorded.\<close>

definition requestTiming :: "int \<Rightarrow> int \<Rightarrow> time \<Rightarrow> 'v CacheNodeServer \<Rightarrow> 'v CacheNodeServer" where
  "requestTiming startNs endNs now n =
     n\<lparr>cn_metricsCollector := recordRequest now (timer_elapsedMs endNs (timer_start startNs)) (cn_metricsCollector n)\<rparr>"

end
