(* ===== verification/CacheNodeProps.thy ===== *)
theory CacheNodeProps
  imports CacheNode
begin

text \<open>
  The node as a running system: every request, replication message, cleanup sweep, policy evaluation,
  snapshot and recovery as a step, in any order.  Each step reaches the storage only through the
  operations of the storage engine, so what \<open>NodeStorage\<close> shows of reachable storages holds of every
  reachable node.  On top of it: what the HTTP routes promise a client, what a replica does with a
  write, and what recovery restores.
\<close>

section \<open>The node's steps\<close>

inductive server_step :: "('v \<Rightarrow> unit + string option) \<Rightarrow> (string \<Rightarrow> string option) \<Rightarrow> 'v \<Rightarrow>
    ('b, 'st) ISnapshotStore \<Rightarrow> ('v, 'b) codec \<Rightarrow> 'v CacheNodeServer \<Rightarrow> 'v CacheNodeServer \<Rightarrow> bool"
  for js decode undef H c where
  request: "handle_request js decode now random restored req n = (reply, d, n') \<Longrightarrow> server_step js decode undef H c n n'"
| timing: "server_step js decode undef H c n (requestTiming startNs endNs now n)"
| continue: "continue_replication eventId now d n = (eff, n') \<Longrightarrow> server_step js decode undef H c n n'"
| message: "on_replication_message js undef now msg n = (eff, n') \<Longrightarrow> server_step js decode undef H c n n'"
| ack_timeout: "ackTimeout eventId (cn_replicationEngine n) = (eff :: 'v repl_effect list, re) \<Longrightarrow>
    server_step js decode undef H c n (n\<lparr>cn_replicationEngine := re\<rparr>)"
| sweep_begin: "runCleanupSweep_begin taskId now n = (eff :: ('v worker_payload, 'b worker_result) pool_effect list option, n') \<Longrightarrow>
    server_step js decode undef H c n n'"
| sweep_end: "server_step js decode undef H c n (runCleanupSweep_end expiredKeys n)"
| pool: "server_step js decode undef H c n (n\<lparr>cn_workerPool := pool\<rparr>)"
| snapshot: "node_takeSnapshot H c failure startedAt now i n st = (res, n', st') \<Longrightarrow> server_step js decode undef H c n n'"
| evaluate: "evaluateNow (ns_maxMemoryBytes (cn_settings n)) now (cn_storage n) = Inr (ev, s) \<Longrightarrow>
    server_step js decode undef H c n (n\<lparr>cn_storage := s\<rparr>)"
| start: "node_start js startedAt now restored subscribed n = (res, n') \<Longrightarrow> server_step js decode undef H c n n'"
| recover_begin: "server_step js decode undef H c n (recover_begin n)"
| restart_end: "handleRestart_end js startedAt now restored n = (res, n') \<Longrightarrow> server_step js decode undef H c n n'"

inductive server_reachable :: "('v \<Rightarrow> unit + string option) \<Rightarrow> (string \<Rightarrow> string option) \<Rightarrow> 'v \<Rightarrow>
    ('b, 'st) ISnapshotStore \<Rightarrow> ('v, 'b) codec \<Rightarrow> node_settings \<Rightarrow> time \<Rightarrow> 'v CacheNodeServer \<Rightarrow> bool"
  for js decode undef H c settings t0 where
  init: "new_CacheNodeServer settings t0 = Inr (eff :: ('v worker_payload, 'b worker_result) pool_effect list, n) \<Longrightarrow>
    server_reachable js decode undef H c settings t0 n"
| step: "server_reachable js decode undef H c settings t0 n \<Longrightarrow> server_step js decode undef H c n n' \<Longrightarrow>
    server_reachable js decode undef H c settings t0 n'"

section \<open>Every step acts on the storage through its operations\<close>

definition evolves :: "('v \<Rightarrow> unit + string option) \<Rightarrow> 'v CacheNodeServer \<Rightarrow> 'v CacheNodeServer \<Rightarrow> bool" where
  "evolves js n n' \<longleftrightarrow> cn_settings n' = cn_settings n \<and> cn_ring n' = cn_ring n \<and>
     re_nodeId (cn_replicationEngine n') = re_nodeId (cn_replicationEngine n) \<and>
     (\<exists>ops. cn_storage n' = fold (node_exec js (node_options (cn_settings n)) (ns_maxMemoryBytes (cn_settings n))) ops (cn_storage n))"

lemma evolves_trans: "evolves js n n1 \<Longrightarrow> evolves js n1 n2 \<Longrightarrow> evolves js n n2"
proof -
  assume a: "evolves js n n1" and b: "evolves js n1 n2"
  from a obtain o1 where "cn_storage n1 = fold (node_exec js (node_options (cn_settings n)) (ns_maxMemoryBytes (cn_settings n))) o1 (cn_storage n)"
    by (auto simp: evolves_def)
  moreover from a b obtain o2 where "cn_storage n2 = fold (node_exec js (node_options (cn_settings n)) (ns_maxMemoryBytes (cn_settings n))) o2 (cn_storage n1)"
    by (auto simp: evolves_def)
  ultimately have "cn_storage n2 = fold (node_exec js (node_options (cn_settings n)) (ns_maxMemoryBytes (cn_settings n))) (o1 @ o2) (cn_storage n)"
    by simp
  with a b show ?thesis unfolding evolves_def by metis
qed

lemma evolves_same [simp, intro]:
  "cn_settings n' = cn_settings n \<Longrightarrow> cn_ring n' = cn_ring n \<Longrightarrow> re_nodeId (cn_replicationEngine n') = re_nodeId (cn_replicationEngine n) \<Longrightarrow>
     cn_storage n' = cn_storage n \<Longrightarrow> evolves js n n'"
  unfolding evolves_def by (metis fold.simps(1) id_apply)

lemma evolves_op:
  "cn_settings n' = cn_settings n \<Longrightarrow> cn_ring n' = cn_ring n \<Longrightarrow> re_nodeId (cn_replicationEngine n') = re_nodeId (cn_replicationEngine n) \<Longrightarrow>
     cn_storage n' = node_exec js (node_options (cn_settings n)) (ns_maxMemoryBytes (cn_settings n)) op (cn_storage n) \<Longrightarrow> evolves js n n'"
  unfolding evolves_def by (intro conjI exI[of _ "[op]"]) simp_all

lemma evolves_set: "node_set js now k v ttl n = Inr (e, n') \<Longrightarrow> evolves js n n'"
  by (rule evolves_op[where op = "Storage (OpSet now k v ttl)"])
     (auto simp: node_set_def split: sum.splits prod.splits)

lemma evolves_delete: "evolves js n (snd (node_delete k n))"
  by (rule evolves_op[where op = "Storage (OpDelete k)"]) (simp_all add: node_delete_def case_prod_unfold Let_def)

lemma evolves_clear: "evolves js n (recover_begin n)"
  by (rule evolves_op[where op = "Storage OpClear"]) (simp_all add: recover_begin_def)

lemma evolves_sweep_end: "evolves js n (runCleanupSweep_end ks n)"
  unfolding runCleanupSweep_end_def
  by (induction ks arbitrary: n) (auto intro: evolves_trans[OF evolves_delete])

lemma evolves_remote_write: "applyRemoteWrite js now k v m n = Inr n' \<Longrightarrow> evolves js n n'"
  by (auto simp: applyRemoteWrite_def split: option.splits if_splits sum.splits intro: evolves_set)

lemma evolves_restored: "applyRestoredEntry js now e n = Inr n' \<Longrightarrow> evolves js n n'"
  by (auto simp: applyRestoredEntry_def split: sum.splits intro: evolves_set)

lemma evolves_entries: "evolves js n (snd (apply_entries js now es n))"
  by (induction es arbitrary: n) (auto split: sum.splits intro: evolves_trans[OF evolves_restored])

lemma evolves_recover_end: "evolves js n (snd (recover_end js t now restored n))"
  using evolves_entries[of js n now "pl_entries (the (projr restored))"]
  by (auto simp: recover_end_def Let_def split: sum.splits option.splits prod.splits)

lemma evolves_restart_end: "evolves js n (snd (handleRestart_end js t now restored n))"
  using evolves_recover_end[of js n t now restored]
  by (auto simp: handleRestart_end_def case_prod_unfold Let_def split: sum.splits intro: evolves_trans)

lemma evolves_start: "evolves js n (snd (node_start js t now restored subscribed n))"
proof -
  have "evolves js n (snd (recover js t now restored n))"
    unfolding recover_def by (rule evolves_trans[OF evolves_clear evolves_recover_end])
  then show ?thesis
    by (auto simp: node_start_def startBackgroundCleanup_def repl_start_def case_prod_unfold Let_def
        split: sum.splits if_splits intro: evolves_trans)
qed

lemma evolves_message: "evolves js n (snd (on_replication_message js undef now msg n))"
proof (cases msg)
  case (EventMessage event targets)
  have app: "evolves js n n'" if "apply_event (node_callbacks js undef) now event n = Inr n'" for n'
    using that by (auto simp: apply_event_def node_callbacks_def applyRemoteDelete_def split: repl_kind.splits option.splits
        intro: evolves_remote_write evolves_delete)
  have keep: "evolves js n (n'\<lparr>cn_replicationEngine := cn_replicationEngine n\<rparr>)" if "evolves js n n'" for n'
    using that by (simp add: evolves_def)
  show ?thesis
  proof (cases "apply_event (node_callbacks js undef) now event n")
    case (Inl e)
    then show ?thesis
      by (simp add: on_replication_message_def handleMessage_def handleReplicationEvent_def EventMessage)
  next
    case (Inr n')
    then show ?thesis using keep[OF app[OF Inr]]
      by (simp add: on_replication_message_def handleMessage_def handleReplicationEvent_def EventMessage)
  qed
next
  case (AckMessage ack)
  then show ?thesis
    by (auto simp: on_replication_message_def handleMessage_def handleAck_def Let_def split: option.splits)
qed

lemma evolves_fault: "evolves js n (snd (node_fault_route js now restored body n))"
proof -
  have "evolves js n (snd (handleRestart js now now restored (n\<lparr>cn_faultInjector := f\<rparr>)))" for f
    unfolding handleRestart_def
    by (rule evolves_trans[OF _ evolves_trans[OF evolves_clear evolves_restart_end]]) simp
  from this show ?thesis
    by (auto simp: node_fault_route_def Let_def split: sum.splits prod.splits) (metis snd_conv)+
qed

lemma evolves_policy: "evolves js n (snd (node_policy_route now policy n))"
proof -
  have pause: "evolves js n (with_policy_engine pauseAutoSwitch n)"
    by (rule evolves_op[where op = PauseAuto]) (simp_all add: with_policy_engine_def)
  have resume: "evolves js n (with_policy_engine resumeAutoSwitch n)"
    by (rule evolves_op[where op = ResumeAuto]) (simp_all add: with_policy_engine_def)
  have force: "evolves js n1 (n1\<lparr>cn_storage := s\<rparr>)"
    if "forceSwitchNow (ns_maxMemoryBytes (cn_settings n1)) now p r (cn_storage n1) = Inr (ev, s)" for p r ev s and n1 :: "'a CacheNodeServer"
    by (rule evolves_op[where op = "ForceSwitch now p r"]) (simp_all add: that apply_result_def)
  show ?thesis
    by (auto simp: node_policy_route_def Let_def resume split: option.splits sum.splits
        intro: pause evolves_trans[OF pause force])
qed

lemma evolves_public: "evolves js n (snd (snd (public_route js decode now random req n)))"
proof (cases req)
  case (ReqGet raw)
  have get: "evolves js n (n\<lparr>cn_storage := snd (storage_get adaptive_hook now key (cn_storage n))\<rparr>)" for key
    by (rule evolves_op[where op = "Storage (OpGet now key)"]) simp_all
  from get show ?thesis
    by (auto simp: ReqGet node_get_route_def case_prod_unfold Let_def split: sum.splits option.splits)
next
  case (ReqPut body)
  then show ?thesis
    by (auto simp: node_put_route_def split: sum.splits intro: evolves_set)
next
  case (ReqDelete raw)
  then show ?thesis
    by (auto simp: node_delete_route_def case_prod_unfold Let_def evolves_delete split: sum.splits)
next
  case ReqEviction
  have "evolves js n (n\<lparr>cn_storage := snd (getSignalsNow (ns_maxMemoryBytes (cn_settings n)) (cn_storage n))\<rparr>)"
    by (rule evolves_op[where op = Signals]) simp_all
  then show ?thesis by (simp add: ReqEviction node_eviction_route_def case_prod_unfold Let_def)
qed simp_all

lemma evolves_request: "evolves js n (snd (snd (handle_request js decode now random restored req n)))"
  by (cases req)
     (auto simp: case_prod_unfold Let_def evolves_fault evolves_policy split: sum.split
       simp del: public_route.simps intro: evolves_public)

lemma server_step_evolves: "server_step js decode undef H c n n' \<Longrightarrow> evolves js n n'"
proof (induction rule: server_step.induct)
  case (request now random restored req n reply d n')
  then show ?case using evolves_request[of js n decode now random restored req] by simp
next
  case (timing n startNs endNs now)
  show ?case by (simp add: requestTiming_def)
next
  case (continue eventId now d n eff n')
  then show ?case
    by (auto simp: continue_replication_def replicateWrite_def replicateDelete_def replicate_op_def registerAckWaiter_def Let_def
        split: deferred.splits if_splits)
next
  case (message now msg n eff n')
  then show ?case using evolves_message[of js n undef now msg] by simp
next
  case (ack_timeout eventId n eff re)
  then show ?case by (auto simp: ackTimeout_def split: option.splits)
next
  case (sweep_begin taskId now n eff n')
  then show ?case by (auto simp: runCleanupSweep_begin_def Let_def split: if_splits prod.splits)
next
  case (sweep_end n ks)
  show ?case by (rule evolves_sweep_end)
next
  case (pool n p)
  show ?case by simp
next
  case (snapshot failure startedAt now i n st res n' st')
  then show ?case by (auto simp: node_takeSnapshot_def Let_def split: prod.splits sum.splits)
next
  case (evaluate n now ev s)
  then show ?case by (intro evolves_op[where op = "Evaluate now"]) (simp_all add: apply_result_def)
next
  case (start startedAt now restored subscribed n res n')
  then show ?case using evolves_start[of js n startedAt now restored subscribed] by simp
next
  case (recover_begin n)
  show ?case by (rule evolves_clear)
next
  case (restart_end startedAt now restored n res n')
  then show ?case using evolves_restart_end[of js n startedAt now restored] by simp
qed

definition node_ok :: "('v \<Rightarrow> unit + string option) \<Rightarrow> node_settings \<Rightarrow> time \<Rightarrow> 'v CacheNodeServer \<Rightarrow> bool" where
  "node_ok js settings t0 n \<longleftrightarrow> cn_settings n = settings \<and> cn_ring n = node_ring settings t0 \<and>
     re_nodeId (cn_replicationEngine n) = ns_nodeId settings \<and>
     node_reachable js (node_options settings) (ns_maxMemoryBytes settings) (cn_storage n)"

lemma node_ok_evolves: "node_ok js settings t0 n \<Longrightarrow> evolves js n n' \<Longrightarrow> node_ok js settings t0 n'"
  unfolding node_ok_def evolves_def using reachable_fold by metis

lemma new_CacheNodeServer_fields:
  fixes n :: "'a CacheNodeServer" and eff :: "('a worker_payload, 'b worker_result) pool_effect list"
  assumes "new_CacheNodeServer settings t0 = Inr (eff, n)"
  shows "node_ok js settings t0 n" and "cn_faultInjector n = new_FaultInjector" and "se_store (cn_storage n) = []"
    and "cn_snapshotManager n = new_SnapshotManager (ns_nodeId settings) (ns_snapshotIntervalMs settings) (ns_snapshotCompress settings) None"
    and "\<not> re_started (cn_replicationEngine n)"
proof -
  from assms obtain h m where h: "new_AdaptiveEvictionEngine ADAPTIVE_DEFAULTS = Inr h"
    and m: "new_MetricsCollector (ns_nodeId settings) None None = Inr m"
    by (simp add: new_CacheNodeServer_def split: sum.splits)
  obtain e p where "new_WorkerPool (ns_workerPoolSize settings) None =
      (e :: ('a worker_payload, 'b worker_result) pool_effect list, p)" by fastforce
  with assms have n: "n = \<lparr>cn_settings = settings, cn_ring = node_ring settings t0, cn_storage = new_StorageEngine h,
      cn_metricsCollector = m, cn_workerPool = p,
      cn_snapshotManager = new_SnapshotManager (ns_nodeId settings) (ns_snapshotIntervalMs settings) (ns_snapshotCompress settings) None,
      cn_replicationEngine = new_ReplicationEngine (ns_nodeId settings) None,
      cn_faultInjector = new_FaultInjector, cn_cleanupTimer = False, cn_listening = False, cn_startedAt = t0\<rparr>"
    by (simp add: new_CacheNodeServer_def h m)
  have "cn_storage n = new_StorageEngine h" "cn_settings n = settings" "cn_ring n = node_ring settings t0"
    "re_nodeId (cn_replicationEngine n) = ns_nodeId settings" "cn_faultInjector n = new_FaultInjector"
    unfolding n by (simp_all add: new_ReplicationEngine_def)
  with node_reachable.init[OF h] show "node_ok js settings t0 n" "cn_faultInjector n = new_FaultInjector" "se_store (cn_storage n) = []"
    by (simp_all add: node_ok_def new_StorageEngine_def)
  show "cn_snapshotManager n = new_SnapshotManager (ns_nodeId settings) (ns_snapshotIntervalMs settings) (ns_snapshotCompress settings) None"
    "\<not> re_started (cn_replicationEngine n)"
    unfolding n by (simp_all add: new_ReplicationEngine_def)
qed

lemma server_reachable_ok: "server_reachable js decode undef H c settings t0 n \<Longrightarrow> node_ok js settings t0 n"
proof (induction rule: server_reachable.induct)
  case (init eff n)
  then show ?case by (rule new_CacheNodeServer_fields(1))
next
  case (step n n')
  show ?case by (rule node_ok_evolves[OF step.IH server_step_evolves[OF step.hyps(2)]])
qed

lemma new_CacheNodeServer_some:
  obtains eff n where "new_CacheNodeServer settings t0 = Inr (eff, n)"
proof -
  obtain h where "new_AdaptiveEvictionEngine ADAPTIVE_DEFAULTS = Inr h"
    using new_AdaptiveEvictionEngine_ok(1) by blast
  then show ?thesis using that
    by (auto simp: new_CacheNodeServer_def new_MetricsCollector_def new_LatencyHistogram_def new_RateCounter_def new_RingBuffer_def
        DEFAULT_CAPACITY_def case_prod_unfold Let_def)
qed

section \<open>What a write to a node's storage does\<close>

abbreviation stored :: "'v CacheNodeServer \<Rightarrow> CacheKey \<Rightarrow> 'v CacheEntry option" where
  "stored n \<equiv> js_get (se_store (cn_storage n))"

definition next_version :: "'v CacheNodeServer \<Rightarrow> CacheKey \<Rightarrow> nat" where
  "next_version n key = (case stored n key of None \<Rightarrow> 1 | Some e \<Rightarrow> cm_version (ce_metadata e) + 1)"

lemma node_set_spec:
  assumes ok: "node_ok js settings t0 n" and "key \<noteq> []" and fits: "approximateSizeBytes js v \<le> ns_maxMemoryBytes settings"
  obtains entry n' where "node_set js now key v ttl n = Inr (entry, n')" and "stored n' key = Some entry"
    and "ce_key entry = key" and "ce_value entry = v" and "cm_version (ce_metadata entry) = next_version n key"
    and "cm_expiresAt (ce_metadata entry) = map_option ((+) now) (case ttl of None \<Rightarrow> ns_defaultTtlMs settings | Some t \<Rightarrow> t)"
    and "node_ok js settings t0 n'" and "cn_faultInjector n' = cn_faultInjector n"
    and "cn_replicationEngine n' = cn_replicationEngine n"
proof -
  let ?o = "node_options settings"
  from ok have st: "cn_settings n = settings" and r: "node_reachable js ?o (ns_maxMemoryBytes settings) (cn_storage n)"
    by (simp_all add: node_ok_def)
  obtain entry s' where set: "storage_set adaptive_hook js ?o now key v ttl (cn_storage n) = Inr (entry, s')"
    using set_some[OF assms(2), of adaptive_hook js ?o now v ttl "cn_storage n"] by (elim exE) (rule that)
  then have ns: "node_set js now key v ttl n = Inr (entry, n\<lparr>cn_storage := s'\<rparr>)" by (simp add: node_set_def st)
  obtain s1 where "storage_insert adaptive_hook js ?o now key v ttl (cn_storage n) = (entry, s1)"
    using set by (blast elim: storage_set_Inr)
  note f = storage_insert_fields[OF this]
  have "stored (n\<lparr>cn_storage := s'\<rparr>) key = Some entry"
    using adaptive.set_retains_key[OF reachable_wf[OF r] set] fits by (simp add: node_options_def)
  moreover have "cm_expiresAt (ce_metadata entry) = map_option ((+) now) (case ttl of None \<Rightarrow> ns_defaultTtlMs settings | Some t \<Rightarrow> t)"
    using f(7) by (simp add: node_options_def split: option.splits)
  ultimately show ?thesis
    using that[OF ns] f(2,3,8) node_ok_evolves[OF ok evolves_set[OF ns]] by (simp add: next_version_def)
qed

lemma node_set_frame:
  "node_set js now key v ttl n = Inr (entry, n') \<Longrightarrow> k \<noteq> key \<Longrightarrow> stored n' k = None \<or> stored n' k = stored n k"
  by (auto simp: node_set_def split: sum.splits dest: adaptive.set_frame)

lemma isExpired_stamped:
  "cm_expiresAt (ce_metadata e) = map_option ((+) now) ttl \<Longrightarrow>
     isExpired now' e \<longleftrightarrow> (case ttl of None \<Rightarrow> False | Some d \<Rightarrow> now + d \<le> now')"
  by (simp add: isExpired_def split: option.split)

section \<open>The routes\<close>

lemma node_get_hit:
  assumes "decode raw = Some key" and "stored n key = Some e" and "\<not> isExpired now e"
  shows "\<exists>n'. node_get_route decode now raw n =
    (Inr (GetReply \<lparr>gb_key = key, gb_value = ce_value e,
        gb_metadata = (ce_metadata e)\<lparr>cm_lastAccessedAt := now, cm_frequency := cm_frequency (ce_metadata e) + 1\<rparr>,
        gb_nodeId = ns_nodeId (cn_settings n)\<rparr>), n') \<and> cn_faultInjector n' = cn_faultInjector n"
  using assms by (simp add: node_get_route_def decodeCacheKeyParam_def storage_get_def Let_def)

lemma validate_put_key: "validate_put body = Inr (key, v, ttl) \<Longrightarrow> key \<noteq> []"
  by (auto simp: validate_put_def Let_def split: option.splits if_splits sum.splits)

text \<open>What a PUT and a following GET on one node answer, as one lemma for this node and for the gateway.\<close>

lemma node_put_get:
  assumes ok: "node_ok js settings t0 n" and alive: "\<not> isKilled (cn_faultInjector n)"
    and val: "validate_put body = Inr (key, v, ttl)" and dec: "decode raw = Some key"
    and fits: "approximateSizeBytes js v \<le> ns_maxMemoryBytes settings"
    and early: "\<And>d. (case ttl of None \<Rightarrow> ns_defaultTtlMs settings | Some t \<Rightarrow> t) = Some d \<Longrightarrow> now' < now + d"
  shows "\<exists>d n1 m n2.
    handle_request js decode now random restored (ReqPut body) n =
      (Ok200 (PutReply \<lparr>pr_key = key, pr_version = next_version n key, pr_nodeId = ns_nodeId settings, pr_replicated = False\<rparr>), d, n1) \<and>
    handle_request js decode now' random' restored' (ReqGet raw) n1 =
      (Ok200 (GetReply \<lparr>gb_key = key, gb_value = v, gb_metadata = m, gb_nodeId = ns_nodeId settings\<rparr>), None, n2) \<and>
    cm_version m = next_version n key \<and> node_ok js settings t0 n1 \<and> \<not> isKilled (cn_faultInjector n1)"
proof -
  from ok have st: "cn_settings n = settings" by (simp add: node_ok_def)
  obtain entry n1 where set: "node_set js now key v ttl n = Inr (entry, n1)" and e: "stored n1 key = Some entry"
    "ce_value entry = v" "cm_version (ce_metadata entry) = next_version n key"
    and ex: "cm_expiresAt (ce_metadata entry) = map_option ((+) now) (case ttl of None \<Rightarrow> ns_defaultTtlMs settings | Some t \<Rightarrow> t)"
    and ok1: "node_ok js settings t0 n1" and fi: "cn_faultInjector n1 = cn_faultInjector n"
    using node_set_spec[OF ok validate_put_key[OF val] fits, of now ttl] by metis
  have live: "\<not> isExpired now' entry" unfolding isExpired_stamped[OF ex] using early by (auto split: option.split)
  from ok1 have st1: "cn_settings n1 = settings" by (simp add: node_ok_def)
  obtain n2 where "node_get_route decode now' raw n1 =
    (Inr (GetReply \<lparr>gb_key = key, gb_value = v,
        gb_metadata = (ce_metadata entry)\<lparr>cm_lastAccessedAt := now', cm_frequency := cm_frequency (ce_metadata entry) + 1\<rparr>,
        gb_nodeId = ns_nodeId settings\<rparr>), n2)"
    using node_get_hit[where decode = decode, OF dec e(1) live] e(2) st1 by auto
  then show ?thesis
    using set alive ok1 val st e(3) fi
    by (simp add: node_put_route_def killSwitch_def respond_def)
qed

section \<open>Properties of the routes\<close>

text \<open>C5. A client reads its own write on a node: in every state the node can reach, unless it is killed, a
  valid PUT whose value fits the memory limit answers 200 with the next version of the key, and a GET
  of the key before the time to live has passed answers 200 with that value and version.\<close>

theorem client_reads_its_write:
  assumes "server_reachable js decode undef H c settings t0 n" and "\<not> isKilled (cn_faultInjector n)"
    and "validate_put body = Inr (key, v, ttl)" and "decode raw = Some key"
    and "approximateSizeBytes js v \<le> ns_maxMemoryBytes settings"
    and "\<And>d. (case ttl of None \<Rightarrow> ns_defaultTtlMs settings | Some t \<Rightarrow> t) = Some d \<Longrightarrow> now' < now + d"
  shows "\<exists>d n1 m n2.
    handle_request js decode now random restored (ReqPut body) n =
      (Ok200 (PutReply \<lparr>pr_key = key, pr_version = next_version n key, pr_nodeId = ns_nodeId settings, pr_replicated = False\<rparr>), d, n1) \<and>
    handle_request js decode now' random' restored' (ReqGet raw) n1 =
      (Ok200 (GetReply \<lparr>gb_key = key, gb_value = v, gb_metadata = m, gb_nodeId = ns_nodeId settings\<rparr>), None, n2) \<and>
    cm_version m = next_version n key"
  using node_put_get[where decode = decode, OF server_reachable_ok[OF assms(1)] assms(2-5), of now' now random restored random' restored'] assms(6)
  by blast

definition demo_settings :: node_settings where
  "demo_settings = \<lparr>ns_nodeId = ''n1'', ns_virtualNodeCount = 4, ns_staticNodes = [], ns_maxMemoryBytes = 100, ns_defaultTtlMs = Some 50,
     ns_workerPoolSize = 2, ns_snapshotIntervalMs = 0, ns_snapshotCompress = False\<rparr>"

definition nat_json :: "nat \<Rightarrow> unit + string option" where
  "nat_json v = Inr (Some (show_nat v))"

definition demo_body :: "nat PutRequestBody option" where
  "demo_body = Some \<lparr>pb_key = Some ''k'', pb_value = Some 7, pb_ttlMs = TtlNumber 20\<rparr>"

lemma demo_server:
  obtains n where "server_reachable nat_json Some 0 FileSnapshotStore demo_codec demo_settings 0 n"
    and "\<not> isKilled (cn_faultInjector n)" and "se_store (cn_storage n) = []"
    and "cn_snapshotManager n = new_SnapshotManager ''n1'' 0 False None"
proof -
  obtain eff :: "(nat worker_payload, nat CacheEntry list worker_result) pool_effect list" and n where
    new: "new_CacheNodeServer demo_settings 0 = Inr (eff, n)" by (rule new_CacheNodeServer_some)
  from new_CacheNodeServer_fields(2-4)[OF new] show ?thesis
    by (intro that[OF server_reachable.init[OF new]]) (simp_all add: new_FaultInjector_def isKilled_def demo_settings_def)
qed

lemma demo_body_valid: "validate_put demo_body = Inr (''k'', 7, Some (Some 20))" "approximateSizeBytes nat_json 7 = 1"
  by (simp_all add: validate_put_def demo_body_def nat_json_def approximateSizeBytes_def utf8_byteLength_def show_nat.simps)

theorem client_reads_its_write_witness:
  "\<exists>n d n1 m n2. server_reachable nat_json Some 0 FileSnapshotStore demo_codec demo_settings 0 n \<and>
    handle_request nat_json Some 5 0 (Inr None) (ReqPut demo_body) n =
      (Ok200 (PutReply \<lparr>pr_key = ''k'', pr_version = 1, pr_nodeId = ''n1'', pr_replicated = False\<rparr>), d, n1) \<and>
    handle_request nat_json Some 9 0 (Inr None) (ReqGet ''k'') n1 =
      (Ok200 (GetReply \<lparr>gb_key = ''k'', gb_value = 7, gb_metadata = m, gb_nodeId = ''n1''\<rparr>), None, n2)"
proof -
  obtain n where r: "server_reachable nat_json Some 0 FileSnapshotStore demo_codec demo_settings 0 n"
    and k: "\<not> isKilled (cn_faultInjector n)" and e: "se_store (cn_storage n) = []" by (rule demo_server)
  have "next_version n ''k'' = 1" by (simp add: next_version_def e)
  with client_reads_its_write[OF r k demo_body_valid(1), of "''k''" 9 5 0 "Inr None" 0 "Inr None"] r
  show ?thesis by (fastforce simp: demo_body_valid demo_settings_def)
qed

definition public_request :: "'v node_request \<Rightarrow> bool" where
  "public_request req \<longleftrightarrow> (case req of ReqGet _ \<Rightarrow> True | ReqPut _ \<Rightarrow> True | ReqDelete _ \<Rightarrow> True | ReqMetrics \<Rightarrow> True
     | ReqEviction \<Rightarrow> True | _ \<Rightarrow> False)"

lemma apply_entries_faults [simp]: "cn_faultInjector (snd (apply_entries js now es n)) = cn_faultInjector n"
  by (induction es arbitrary: n) (auto simp: applyRestoredEntry_def node_set_def split: sum.splits prod.splits)

lemma recover_end_faults [simp]: "cn_faultInjector (snd (recover_end js t now restored n)) = cn_faultInjector n"
  by (auto simp: recover_end_def Let_def split: sum.split option.split prod.split)
    (metis apply_entries_faults snd_conv)+

text \<open>C10. The kill switch: a killed node answers every cache and metrics request with 503, untouched and
  without replicating anything, while its health check still answers 200 and says DEAD; a RESTART
  command over the same HTTP interface is served, ends the kill whatever the recovery found, and when
  it answers 200 every injected fault is cleared.\<close>

theorem killed_node:
  assumes "isKilled (cn_faultInjector n)" and "public_request req"
    and "b = \<lparr>fb_type = Some ''RESTART'', fb_durationMs = dur, fb_dropRate = rate\<rparr>"
  shows "\<exists>e h reply n'.
    handle_request js decode now random restored req n = (ErrorReply e, None, n) \<and> er_status e = 503 \<and> er_code e = ''NODE_UNAVAILABLE'' \<and>
    handle_request js decode now random restored ReqHealth n = (Ok200 (HealthReply h), None, n) \<and> hr_status h = DEAD \<and>
    handle_request js decode now random restored (ReqFault (Some b)) n = (reply, None, n') \<and> \<not> isKilled (cn_faultInjector n') \<and>
    (reply_status reply = 200 \<longrightarrow> reply = Ok200 (FaultReply b) \<and> cn_faultInjector n' = new_FaultInjector)"
proof -
  have refused: "handle_request js decode now random restored req n =
      (ErrorReply (toErrorResponse (FlowCache (NodeUnavailableError (ns_nodeId (cn_settings n))))), None, n)"
    using assms(1,2) by (cases req) (simp_all add: public_request_def killSwitch_def respond_def)
  have dead: "hr_status (node_health_route now n) = DEAD" using assms(1) by (simp add: node_health_route_def)
  let ?n1 = "recover_begin (n\<lparr>cn_faultInjector := (cn_faultInjector n)\<lparr>fs_killed := False\<rparr>\<rparr>)"
  obtain report n2 where rec: "recover_end js now now restored ?n1 = (report, n2)" by (cases "recover_end js now now restored ?n1")
  have alive: "\<not> isKilled (cn_faultInjector n2)"
    using recover_end_faults[of js now now restored ?n1] unfolding rec by (simp add: recover_begin_def isKilled_def)
  have route: "node_fault_route js now restored (Some b) n =
      (case assertHealthy report of Inl e \<Rightarrow> (Inl e, n2)
       | Inr _ \<Rightarrow> (Inr (FaultReply b), n2\<lparr>cn_faultInjector := fi_reset (cn_faultInjector n2)\<rparr>))"
    by (simp add: assms(3) node_fault_route_def validate_fault_def VALID_FAULT_TYPES_def fi_apply_def handleRestart_def
        handleRestart_end_def rec split: sum.split)
  show ?thesis
  proof (cases "assertHealthy report")
    case (Inl e)
    then have "er_status (toErrorResponse e) = 500" by (auto simp: assertHealthy_def split: if_splits)
    then show ?thesis using refused dead alive route Inl by (force simp: respond_def)
  next
    case (Inr u)
    then show ?thesis using refused dead route by (force simp: respond_def fi_reset_def new_FaultInjector_def isKilled_def)
  qed
qed

theorem killed_node_witness:
  "\<exists>n e. isKilled (cn_faultInjector n) \<and>
     handle_request nat_json Some 5 0 (Inr None) (ReqGet ''k'') (n :: nat CacheNodeServer) = (ErrorReply e, None, n) \<and> er_status e = 503"
proof -
  obtain n0 where "server_reachable nat_json Some 0 FileSnapshotStore demo_codec demo_settings 0 n0" by (rule demo_server)
  define n where "n = n0\<lparr>cn_faultInjector := fi_apply \<lparr>fc_type = KILL, fc_durationMs = None, fc_dropRate = None\<rparr> (cn_faultInjector n0)\<rparr>"
  have k: "isKilled (cn_faultInjector n)" by (simp add: n_def fi_apply_def isKilled_def)
  have "public_request (ReqGet ''k'' :: nat node_request)" by (simp add: public_request_def)
  from killed_node[OF k this refl, of nat_json Some 5 0 "Inr None" None None] k show ?thesis by blast
qed

end
