(* ===== verification/NodeData.thy ===== *)
theory NodeData
  imports CacheNodeProps
begin

text \<open>
  What happens to a node's data besides client requests: recovery from a snapshot, replicated writes
  and the background cleanup.  Recovery composed with the snapshot file store gives the round trip of
  a node's contents through a crash; the cleanup is exact when nothing runs between its two halves,
  and the last part shows what goes wrong when something does.
\<close>

section \<open>Stored entries keep their true size\<close>

definition entry_true :: "('v \<Rightarrow> unit + string option) \<Rightarrow> CacheKey \<times> 'v CacheEntry \<Rightarrow> bool" where
  "entry_true js p \<longleftrightarrow> fst p \<noteq> [] \<and> cm_sizeBytes (ce_metadata (snd p)) = approximateSizeBytes js (ce_value (snd p))"

definition entries_true :: "('v \<Rightarrow> unit + string option) \<Rightarrow> ('v, 'h) StorageEngine \<Rightarrow> bool" where
  "entries_true js s \<longleftrightarrow> (\<forall>p \<in> set (se_store s). entry_true js p)"

lemma entries_true_subset: "entries_true js s \<Longrightarrow> set (se_store s') \<subseteq> set (se_store s) \<Longrightarrow> entries_true js s'"
  by (auto simp: entries_true_def)

lemma entries_true_removed: "entries_true js s \<Longrightarrow> se_store s' = js_delete k (se_store s) \<Longrightarrow> entries_true js s'"
  by (rule entries_true_subset) (auto simp: set_js_delete)

lemma entries_true_set:
  assumes "entries_true js s" and "storage_ok s" and "storage_set H js opts now key v ttl s = Inr (entry, s')"
  shows "entries_true js s'"
proof -
  obtain s1 where key: "key \<noteq> []" and ins: "storage_insert H js opts now key v ttl s = (entry, s1)"
    and s': "s' = enforceCapacity H opts key s1" using assms(3) by (blast elim: storage_set_Inr)
  note f = storage_insert_fields[OF ins]
  have "entries_true js s1"
    using assms(1,2) key f(3,4) by (auto simp: entries_true_def entry_true_def f(1) storage_ok_def set_js_set)
  then show ?thesis unfolding s' enforceCapacity_def
    by (rule enforceCapacity_loop_rule) (auto intro: entries_true_removed)
qed

lemma entries_true_get:
  assumes "entries_true js s" and "storage_ok s"
  shows "entries_true js (snd (storage_get H now k s))"
proof (cases "js_get (se_store s) k")
  case None
  then show ?thesis using assms(1) by (simp add: storage_get_def recordMissOf_def entries_true_def emit_def)
next
  case (Some e)
  then have "entry_true js (k, e)" using assms(1) by (auto simp: entries_true_def dest: map_of_SomeD)
  with Some assms show ?thesis
    by (auto simp: storage_get_def recordMissOf_def emit_def Let_def entries_true_def entry_true_def storage_ok_def set_js_set
        set_js_delete)
qed

lemma entries_true_exec:
  assumes "entries_true js s" and "adaptive.wf s"
  shows "entries_true js (node_exec js opts mx op s)"
proof -
  note ok = adaptive.wf_ok[OF assms(2)]
  have hook: "se_store t = se_store s \<Longrightarrow> entries_true js t" for t :: "'a node_storage"
    using assms(1) by (simp add: entries_true_def)
  have engine: "with_engine s r = Inr (ev, t) \<Longrightarrow> se_store t = se_store s" for r ev and t :: "'a node_storage"
    by (auto simp: with_engine_def split: sum.splits prod.splits)
  show ?thesis
  proof (cases op)
    case (Storage sop)
    show ?thesis
    proof (cases sop)
      case (OpSet now k v ttl)
      then show ?thesis using assms(1) entries_true_set[OF assms(1) ok]
        by (auto simp: Storage split: sum.split)
    next
      case (OpGet now k)
      then show ?thesis using entries_true_get[OF assms(1) ok] by (simp add: Storage)
    next
      case (OpHas now k)
      then show ?thesis using assms(1)
        by (auto simp: Storage storage_has_def split: option.split intro: entries_true_removed)
    next
      case (OpDelete k)
      then show ?thesis using assms(1)
        by (auto simp: Storage storage_delete_def Let_def intro: entries_true_removed)
    next
      case OpClear
      then show ?thesis by (simp add: Storage storage_clear_def entries_true_def)
    next
      case (OpSweep now)
      then show ?thesis using sweepExpired_store(1)[OF ok, of adaptive_hook now]
        by (intro entries_true_subset[OF assms(1)]) (auto simp: Storage)
    qed
  qed (use engine hook in \<open>auto simp: apply_result_def evaluateNow_def forceSwitchNow_def getSignalsNow_def
        case_prod_unfold Let_def split: sum.split\<close>)
qed

lemma reachable_true: "node_reachable js opts mx s \<Longrightarrow> entries_true js s"
proof (induction rule: node_reachable.induct)
  case (init ao h)
  show ?case by (simp add: entries_true_def new_StorageEngine_def)
next
  case (step s op)
  show ?case by (rule entries_true_exec[OF step.IH reachable_wf[OF step.hyps]])
qed

section \<open>Recovery\<close>

text \<open>What an entry of a snapshot becomes when it is applied at time \<open>now\<close> to a store without its key.\<close>

definition restored_entry :: "('v \<Rightarrow> unit + string option) \<Rightarrow> node_settings \<Rightarrow> time \<Rightarrow> 'v CacheEntry \<Rightarrow> 'v CacheEntry" where
  "restored_entry js settings now e =
     \<lparr>ce_key = ce_key e, ce_value = ce_value e,
      ce_metadata = newMetadata now
        (case cm_expiresAt (ce_metadata e) of Some t \<Rightarrow> Some (max t now) | None \<Rightarrow> map_option ((+) now) (ns_defaultTtlMs settings))
        (approximateSizeBytes js (ce_value e)) (None :: 'v CacheEntry option)\<rparr>"

lemma apply_fresh:
  assumes ok: "node_ok js settings t0 n" and "ce_key e \<noteq> []" and new: "ce_key e \<notin> fst ` set (se_store (cn_storage n))"
    and fits: "se_totalSizeBytes (cn_storage n) + int (approximateSizeBytes js (ce_value e)) \<le> int (ns_maxMemoryBytes settings)"
  shows "\<exists>n'. applyRestoredEntry js now e n = Inr n' \<and> node_ok js settings t0 n' \<and>
    se_store (cn_storage n') = se_store (cn_storage n) @ [(ce_key e, restored_entry js settings now e)] \<and>
    se_totalSizeBytes (cn_storage n') = se_totalSizeBytes (cn_storage n) + int (approximateSizeBytes js (ce_value e))"
proof -
  let ?s = "cn_storage n" and ?o = "node_options settings" and ?ttl = "remaining_ttl now (ce_metadata e)"
  from ok have st: "cn_settings n = settings" by (simp add: node_ok_def)
  obtain entry s1 where ins: "storage_insert adaptive_hook js ?o now (ce_key e) (ce_value e) ?ttl ?s = (entry, s1)"
    by fastforce
  have none: "js_get (se_store ?s) (ce_key e) = None" using new by (simp add: map_of_eq_None_iff)
  have "now + max 0 (t - now) = max t now" for t by (simp add: max_def)
  then have entry: "entry = restored_entry js settings now e"
    using ins none
    by (auto simp: storage_insert_def Let_def restored_entry_def node_options_def remaining_ttl_def split: option.splits)
  note f = storage_insert_fields[OF ins]
  have store: "se_store s1 = se_store ?s @ [(ce_key e, restored_entry js settings now e)]"
    by (simp add: f(1) entry js_set_new[OF new])
  have total: "se_totalSizeBytes s1 = se_totalSizeBytes ?s + int (approximateSizeBytes js (ce_value e))"
    using f(4,6) none by simp
  have "\<not> overCapacity ?o s1"
    using fits by (auto simp: overCapacity_def node_options_def total nat_le_iff)
  then have set: "node_set js now (ce_key e) (ce_value e) ?ttl n = Inr (entry, n\<lparr>cn_storage := s1\<rparr>)"
    using assms(2) by (simp add: node_set_def st storage_set_def ins enforceCapacity_def enforceCapacity_loop_idle)
  with node_ok_evolves[OF ok evolves_set[OF set]] store total show ?thesis by (simp add: applyRestoredEntry_def)
qed

lemma apply_entries_all:
  assumes "node_ok js settings t0 n" and "distinct (map ce_key es)" and "[] \<notin> ce_key ` set es"
    and "ce_key ` set es \<inter> fst ` set (se_store (cn_storage n)) = {}"
    and "se_totalSizeBytes (cn_storage n) + (\<Sum>e\<leftarrow>es. int (approximateSizeBytes js (ce_value e))) \<le> int (ns_maxMemoryBytes settings)"
  shows "\<exists>n'. apply_entries js now es n = (Inr (), n') \<and> node_ok js settings t0 n' \<and>
    se_store (cn_storage n') = se_store (cn_storage n) @ map (\<lambda>e. (ce_key e, restored_entry js settings now e)) es"
  using assms
proof (induction es arbitrary: n)
  case Nil
  then show ?case by simp
next
  case (Cons e es)
  have pos: "0 \<le> (\<Sum>e\<leftarrow>es. int (approximateSizeBytes js (ce_value e)))" by (rule sum_list_nonneg) auto
  obtain n1 where n1: "applyRestoredEntry js now e n = Inr n1" "node_ok js settings t0 n1"
    "se_store (cn_storage n1) = se_store (cn_storage n) @ [(ce_key e, restored_entry js settings now e)]"
    "se_totalSizeBytes (cn_storage n1) = se_totalSizeBytes (cn_storage n) + int (approximateSizeBytes js (ce_value e))"
    using apply_fresh[OF Cons.prems(1), of e now] Cons.prems(3-5) pos by auto
  have "ce_key ` set es \<inter> fst ` set (se_store (cn_storage n1)) = {}" using Cons.prems(2,4) n1(3) by auto
  with Cons.IH[OF n1(2)] Cons.prems n1 show ?case by auto
qed

lemma recover_all:
  assumes ok: "node_ok js settings t0 n" and "distinct (map ce_key es)" and "[] \<notin> ce_key ` set es"
    and "(\<Sum>e\<leftarrow>es. approximateSizeBytes js (ce_value e)) \<le> ns_maxMemoryBytes settings"
  shows "\<exists>report n'. recover js startedAt now (Inr (Some \<lparr>pl_metadata = md, pl_entries = es\<rparr>)) n = (report, n') \<and>
    assertHealthy report = Inr () \<and> rr_snapshotRestored report = Some (md_snapshotId md) \<and>
    rr_entriesRestoredFromSnapshot report = length es \<and> node_ok js settings t0 n' \<and>
    se_store (cn_storage n') = map (\<lambda>e. (ce_key e, restored_entry js settings now e)) es"
proof -
  have "node_ok js settings t0 (recover_begin n)" by (rule node_ok_evolves[OF ok evolves_clear])
  moreover have "int (\<Sum>e\<leftarrow>es. approximateSizeBytes js (ce_value e)) = (\<Sum>e\<leftarrow>es. int (approximateSizeBytes js (ce_value e)))"
    by (induction es) simp_all
  ultimately obtain n' where "apply_entries js now es (recover_begin n) = (Inr (), n')" "node_ok js settings t0 n'"
    "se_store (cn_storage n') = map (\<lambda>e. (ce_key e, restored_entry js settings now e)) es"
    using apply_entries_all[of js settings t0 "recover_begin n" es now] assms(2-4)
    by (auto simp: recover_begin_def storage_clear_def)
  then show ?thesis by (simp add: recover_def recover_end_def assertHealthy_def)
qed

lemma restoreLatest_manager: "restoreLatest H c m st = Inr x \<Longrightarrow> restoreLatest H c m' st = Inr x"
  by (auto simp: restoreLatest_def restoreById_def Let_def split: sum.splits option.splits if_splits)

lemma pool_serialize_inline: "pool_serialize c None = serialize_inline c"
  by (intro ext) (simp add: pool_serialize_def serialize_inline_def snapshotSerializeHandler_def Let_def)

lemma stored_keys:
  assumes "storage_ok s"
  shows "distinct (map ce_key (storage_entries s))" and "map ce_key (storage_entries s) = js_keys (se_store s)"
  using assms storage_entries_keys[OF assms] by (simp_all add: storage_ok_def)

lemma stored_bytes:
  assumes "storage_ok s" and "entries_true js s"
  shows "int (\<Sum>e\<leftarrow>storage_entries s. approximateSizeBytes js (ce_value e)) = storage_sizeBytes s"
proof -
  have "(\<Sum>p\<leftarrow>ps. entry_size p) = int (\<Sum>e\<leftarrow>map snd ps. approximateSizeBytes js (ce_value e))"
    if "\<forall>p \<in> set ps. entry_true js p" for ps
    using that by (induction ps) (auto simp: entry_true_def)
  with assms show ?thesis by (simp add: storage_ok_def storage_entries_def storage_sizeBytes_def entries_true_def)
qed

lemma map_of_restored:
  assumes "\<forall>p \<in> set ps. ce_key (snd p) = fst p"
  shows "map_of (map (\<lambda>e. (ce_key e, f e)) (map snd ps)) k = map_option f (map_of ps k)"
  using assms by (induction ps) auto

text \<open>A snapshot of one node, taken through the worker pool and recovered by another of the same settings.\<close>

lemma snapshot_recovers:
  assumes ok: "node_ok js settings t0 n" and ok2: "node_ok js settings t1 fresh"
    and fits: "storage_sizeBytes (cn_storage n) \<le> int (ns_maxMemoryBytes settings)"
    and disk: "codec_ok c" "file_ok d" "VALID_SNAPSHOT_ID i"
    and m: "\<not> sm_snapshotInProgress m" "0 < sm_maxRetained m"
    and newest: "\<And>j s. file_snaps d j = Some s \<Longrightarrow> j \<noteq> i \<Longrightarrow> md_createdAt (sp_metadata s) < startedAt"
  shows "\<exists>md d' report n'.
    takeSnapshot FileSnapshotStore (pool_serialize c None) (co_byteLength c) startedAt now i (storage_entries (cn_storage n)) m d = (Inr md, m, d') \<and>
    recover js t2 t3 (restoreLatest FileSnapshotStore c m' d') fresh = (report, n') \<and>
    assertHealthy report = Inr () \<and> rr_snapshotRestored report = Some i \<and> node_ok js settings t1 n' \<and>
    js_keys (se_store (cn_storage n')) = js_keys (se_store (cn_storage n)) \<and>
    (\<forall>k. stored n' k = map_option (restored_entry js settings t3) (stored n k))"
proof -
  let ?es = "storage_entries (cn_storage n)"
  from ok have r: "node_reachable js (node_options settings) (ns_maxMemoryBytes settings) (cn_storage n)" by (simp add: node_ok_def)
  note sok = reachable_ok[OF r] and tr = reachable_true[OF r]
  obtain md d' where take: "takeSnapshot FileSnapshotStore (serialize_inline c) (co_byteLength c) startedAt now i ?es m d = (Inr md, m, d')"
    and rest: "restoreLatest FileSnapshotStore c m d' = Inr (Some \<lparr>pl_metadata = md, pl_entries = ?es\<rparr>)" and md: "md_snapshotId md = i"
    using files.take_then_restore[OF disk(2,3,1) m, of startedAt now ?es] newest by blast
  have "[] \<notin> ce_key ` set ?es"
    using stored_keys(2)[OF sok] tr unfolding entries_true_def entry_true_def by (metis imageE image_set)
  moreover have "(\<Sum>e\<leftarrow>?es. approximateSizeBytes js (ce_value e)) \<le> ns_maxMemoryBytes settings"
    using stored_bytes[OF sok tr] fits by linarith
  ultimately obtain report n' where rec: "recover js t2 t3 (Inr (Some \<lparr>pl_metadata = md, pl_entries = ?es\<rparr>)) fresh = (report, n')"
    "assertHealthy report = Inr ()" "rr_snapshotRestored report = Some (md_snapshotId md)" "node_ok js settings t1 n'"
    "se_store (cn_storage n') = map (\<lambda>e. (ce_key e, restored_entry js settings t3 e)) ?es"
    using recover_all[OF ok2 stored_keys(1)[OF sok], where startedAt = t2 and now = t3 and md = md] by blast
  have "stored n' k = map_option (restored_entry js settings t3) (stored n k)" for k
    unfolding rec(5) storage_entries_def by (rule map_of_restored) (use sok in \<open>simp add: storage_ok_def\<close>)
  moreover have "js_keys (se_store (cn_storage n')) = js_keys (se_store (cn_storage n))"
    using stored_keys(2)[OF sok] by (simp add: rec(5) comp_def)
  ultimately show ?thesis using take rec md restoreLatest_manager[OF rest, of m']
    by (intro exI[of _ md] exI[of _ d'] exI[of _ report] exI[of _ n']) (simp add: pool_serialize_inline)
qed

text \<open>C3. A node's contents survive a crash: whatever state the node reached, a snapshot of it written
  through the worker pool to the snapshot directory and recovered by any node of the same settings
  (the restarted process) verifies, and the recovered store has the same keys in the same order, each
  with its value, at version 1 and with its expiry time, entries without one getting the default time
  to live.  The store must be within its memory limit and the clock past the snapshots on disk.\<close>

theorem crash_recovery:
  assumes "server_reachable js decode undef H c settings t0 n" and "server_reachable js decode undef H c settings t1 fresh"
    and "storage_sizeBytes (cn_storage n) \<le> int (ns_maxMemoryBytes settings)"
    and "codec_ok c" and "file_ok d" and "VALID_SNAPSHOT_ID i"
    and "\<not> sm_snapshotInProgress (cn_snapshotManager n)" and "0 < sm_maxRetained (cn_snapshotManager n)"
    and "\<And>j s. file_snaps d j = Some s \<Longrightarrow> j \<noteq> i \<Longrightarrow> md_createdAt (sp_metadata s) < startedAt"
  shows "\<exists>md n1 d' report n'.
    node_takeSnapshot FileSnapshotStore c None startedAt now i n d = (Inr md, n1, d') \<and>
    recover js t2 t3 (restoreLatest FileSnapshotStore c (cn_snapshotManager fresh) d') fresh = (report, n') \<and>
    assertHealthy report = Inr () \<and> rr_snapshotRestored report = Some i \<and>
    js_keys (se_store (cn_storage n')) = js_keys (se_store (cn_storage n)) \<and>
    (\<forall>k. stored n' k = map_option (restored_entry js settings t3) (stored n k))"
proof -
  from snapshot_recovers[OF server_reachable_ok[OF assms(1)] server_reachable_ok[OF assms(2)] assms(3-9),
      where now = now and ?t2.0 = t2 and ?t3.0 = t3 and m' = "cn_snapshotManager fresh"]
  show ?thesis by (fastforce simp: node_takeSnapshot_def)
qed

definition demo_entry :: "nat CacheEntry" where
  "demo_entry = \<lparr>ce_key = ''k'', ce_value = 7, ce_metadata = newMetadata 5 (Some 25) 1 (None :: nat CacheEntry option)\<rparr>"

lemma demo_write:
  assumes r: "server_reachable nat_json Some 0 FileSnapshotStore demo_codec demo_settings 0 n0"
    and k: "\<not> isKilled (cn_faultInjector n0)" and e: "se_store (cn_storage n0) = []"
  obtains n where "server_reachable nat_json Some 0 FileSnapshotStore demo_codec demo_settings 0 n"
    and "se_store (cn_storage n) = [(''k'', restored_entry nat_json demo_settings 5 demo_entry)]"
    and "storage_sizeBytes (cn_storage n) = 1" and "\<not> isKilled (cn_faultInjector n)"
    and "cn_snapshotManager n = cn_snapshotManager n0" and "cn_listening n = cn_listening n0"
proof -
  note ok = server_reachable_ok[OF r]
  then have "se_totalSizeBytes (cn_storage n0) = 0"
    using reachable_ok e by (fastforce simp: node_ok_def storage_ok_def)
  then obtain n1 where n1: "applyRestoredEntry nat_json 5 demo_entry n0 = Inr n1"
    "se_store (cn_storage n1) = [(''k'', restored_entry nat_json demo_settings 5 demo_entry)]" "se_totalSizeBytes (cn_storage n1) = 1"
    using apply_fresh[OF ok, of demo_entry 5] demo_body_valid(2) e by (auto simp: demo_entry_def demo_settings_def)
  then obtain en where set: "node_set nat_json 5 ''k'' 7 (Some (Some 20)) n0 = Inr (en, n1)"
    by (auto simp: applyRestoredEntry_def demo_entry_def remaining_ttl_def newMetadata_def split: sum.splits)
  then have frame: "cn_faultInjector n1 = cn_faultInjector n0" "cn_snapshotManager n1 = cn_snapshotManager n0" "cn_listening n1 = cn_listening n0"
    by (auto simp: node_set_def split: sum.splits)
  obtain reply d where "handle_request nat_json Some 5 0 (Inr None) (ReqPut demo_body) n0 = (reply, d, n1)"
    using set k demo_body_valid(1) by (simp add: node_put_route_def killSwitch_def)
  from server_reachable.step[OF r server_step.request[OF this]] n1 frame k show ?thesis
    by (intro that[of n1]) (simp_all add: storage_sizeBytes_def)
qed

lemma demo_written:
  obtains n where "server_reachable nat_json Some 0 FileSnapshotStore demo_codec demo_settings 0 n"
    and "se_store (cn_storage n) = [(''k'', restored_entry nat_json demo_settings 5 demo_entry)]"
    and "storage_sizeBytes (cn_storage n) = 1" and "\<not> isKilled (cn_faultInjector n)"
    and "cn_snapshotManager n = new_SnapshotManager ''n1'' 0 False None"
proof -
  obtain n0 where "server_reachable nat_json Some 0 FileSnapshotStore demo_codec demo_settings 0 n0"
    "\<not> isKilled (cn_faultInjector n0)" "se_store (cn_storage n0) = []"
    and m: "cn_snapshotManager n0 = new_SnapshotManager ''n1'' 0 False None" by (rule demo_server)
  from demo_write[OF this(1-3)] show ?thesis by (metis that m)
qed

theorem crash_recovery_witness:
  "\<exists>n fresh md n1 d' report n'.
    server_reachable nat_json Some 0 FileSnapshotStore demo_codec demo_settings 0 n \<and> se_store (cn_storage fresh) = [] \<and>
    node_takeSnapshot FileSnapshotStore demo_codec None 6 6 ''snap_1'' n [] = (Inr md, n1, d') \<and>
    recover nat_json 8 8 (restoreLatest FileSnapshotStore demo_codec (cn_snapshotManager fresh) d') fresh = (report, n') \<and>
    assertHealthy report = Inr () \<and> map_option ce_value (stored n' ''k'') = Some 7"
proof -
  obtain n where n: "server_reachable nat_json Some 0 FileSnapshotStore demo_codec demo_settings 0 n"
    "se_store (cn_storage n) = [(''k'', restored_entry nat_json demo_settings 5 demo_entry)]" "storage_sizeBytes (cn_storage n) = 1"
    "cn_snapshotManager n = new_SnapshotManager ''n1'' 0 False None" by (rule demo_written)
  obtain fresh where f: "server_reachable nat_json Some 0 FileSnapshotStore demo_codec demo_settings 0 fresh" "se_store (cn_storage fresh) = []"
    by (rule demo_server)
  have "storage_sizeBytes (cn_storage n) \<le> int (ns_maxMemoryBytes demo_settings)" by (simp add: n(3) demo_settings_def)
  from crash_recovery[OF n(1) f(1) this demo_codec_ok empty_directory_ok(1) demo_id_valid, where startedAt = 6 and now = 6 and ?t2.0 = 8 and ?t3.0 = 8]
  obtain md n1 d' report n' where "node_takeSnapshot FileSnapshotStore demo_codec None 6 6 ''snap_1'' n [] = (Inr md, n1, d')"
    "recover nat_json 8 8 (restoreLatest FileSnapshotStore demo_codec (cn_snapshotManager fresh) d') fresh = (report, n')"
    "assertHealthy report = Inr ()" "\<forall>k. stored n' k = map_option (restored_entry nat_json demo_settings 8) (stored n k)"
    by (auto simp: n(4) new_SnapshotManager_def empty_directory_ok)
  moreover from this(4) have "map_option ce_value (stored n' ''k'') = Some 7"
    by (simp add: n(2) restored_entry_def demo_entry_def)
  ultimately show ?thesis using n(1) f(2) by blast
qed

section \<open>Replicated writes\<close>

definition received_expiry :: "node_settings \<Rightarrow> time \<Rightarrow> CacheMetadata \<Rightarrow> time option" where
  "received_expiry settings now m =
     (case cm_expiresAt m of Some t \<Rightarrow> Some (max t now) | None \<Rightarrow> map_option ((+) now) (ns_defaultTtlMs settings))"

lemma remaining_ttl_expiry:
  "map_option ((+) now) (case remaining_ttl now m of None \<Rightarrow> ns_defaultTtlMs settings | Some t \<Rightarrow> t) = received_expiry settings now m"
  by (auto simp: remaining_ttl_def received_expiry_def max_def split: option.split)

lemma remote_write_applies:
  assumes ok: "node_ok js settings t0 n" and "key \<noteq> []" and "approximateSizeBytes js v \<le> ns_maxMemoryBytes settings"
    and newer: "\<And>e. storage_peek now key (cn_storage n) = Some e \<Longrightarrow> cm_version (ce_metadata e) < cm_version m"
  obtains entry n' where "applyRemoteWrite js now key v m n = Inr n'" and "stored n' key = Some entry" and "ce_value entry = v"
    and "cm_version (ce_metadata entry) = next_version n key" and "cm_expiresAt (ce_metadata entry) = received_expiry settings now m"
    and "node_ok js settings t0 n'" and "cn_faultInjector n' = cn_faultInjector n"
    and "cn_replicationEngine n' = cn_replicationEngine n"
proof -
  obtain entry n' where set: "node_set js now key v (remaining_ttl now m) n = Inr (entry, n')"
    and e: "stored n' key = Some entry" "ce_value entry = v" "cm_version (ce_metadata entry) = next_version n key"
    "cm_expiresAt (ce_metadata entry) = received_expiry settings now m"
    and n': "node_ok js settings t0 n'" "cn_faultInjector n' = cn_faultInjector n" "cn_replicationEngine n' = cn_replicationEngine n"
    using node_set_spec[OF ok assms(2,3), of now "remaining_ttl now m"] unfolding remaining_ttl_expiry by metis
  have "applyRemoteWrite js now key v m n = Inr n'"
    using newer set by (auto simp: applyRemoteWrite_def not_le split: option.split)
  from that[OF this e n'] show ?thesis .
qed

text \<open>C27. A stale replicated write can replace a newer one.  The comment at \<open>applyRemoteWrite\<close> promises that
  an out-of-order write cannot clobber a newer value, but an applied write is stored under the
  replica's own next version, not under the writer's: on a replica without the key, version \<open>w1\<close>
  followed by any older version \<open>w2 \<ge> 2\<close> of the same writer ends with the value of \<open>w2\<close>.\<close>

theorem stale_write_wins:
  assumes "server_reachable js decode undef H c settings t0 n" and "stored n key = None" and "key \<noteq> []"
    and "approximateSizeBytes js v1 \<le> ns_maxMemoryBytes settings" and "approximateSizeBytes js v2 \<le> ns_maxMemoryBytes settings"
    and "2 \<le> cm_version m2" and "cm_version m2 < cm_version m1"
  shows "\<exists>n1 n2 e. applyRemoteWrite js now key v1 m1 n = Inr n1 \<and> applyRemoteWrite js now' key v2 m2 n1 = Inr n2 \<and>
    stored n2 key = Some e \<and> ce_value e = v2 \<and> cm_version (ce_metadata e) = 2"
proof -
  note ok = server_reachable_ok[OF assms(1)]
  have newer1: "storage_peek now key (cn_storage n) = Some e \<Longrightarrow> cm_version (ce_metadata e) < cm_version m1" for e
    using assms(2) by (simp add: storage_peek_def)
  obtain e1 n1 where n1: "applyRemoteWrite js now key v1 m1 n = Inr n1" "stored n1 key = Some e1"
    "cm_version (ce_metadata e1) = next_version n key" "node_ok js settings t0 n1"
    by (rule remote_write_applies[OF ok assms(3,4) newer1])
  have v1: "cm_version (ce_metadata e1) = 1" using n1(3) assms(2) by (simp add: next_version_def)
  have newer2: "storage_peek now' key (cn_storage n1) = Some e \<Longrightarrow> cm_version (ce_metadata e) < cm_version m2" for e
    using n1(2) v1 assms(6) by (simp add: storage_peek_def split: if_splits)
  obtain e2 n2 where n2: "applyRemoteWrite js now' key v2 m2 n1 = Inr n2" "stored n2 key = Some e2" "ce_value e2 = v2"
    "cm_version (ce_metadata e2) = next_version n1 key"
    by (rule remote_write_applies[OF n1(4) assms(3,5) newer2])
  have "next_version n1 key = 2" using n1(2) v1 by (simp add: next_version_def)
  with n1(1) n2 show ?thesis by metis
qed

definition version_of :: "nat \<Rightarrow> CacheMetadata" where
  "version_of w = (newMetadata 0 None 1 (None :: nat CacheEntry option))\<lparr>cm_version := w\<rparr>"

theorem stale_write_wins_witness:
  "\<exists>n n1 n2 e. applyRemoteWrite nat_json 1 ''k'' 7 (version_of 3) n = Inr n1 \<and>
     applyRemoteWrite nat_json 2 ''k'' 7 (version_of 2) n1 = Inr n2 \<and> stored n2 ''k'' = Some e \<and> ce_value e = 7 \<and>
     cm_version (ce_metadata e) = 2"
proof -
  obtain n where n: "server_reachable nat_json Some 0 FileSnapshotStore demo_codec demo_settings 0 n" "se_store (cn_storage n) = []"
    by (rule demo_server)
  from stale_write_wins[OF n(1), of "''k''" 7 7 "version_of 2" "version_of 3" 1 2] n(2) show ?thesis
    by (auto simp: demo_body_valid demo_settings_def version_of_def)
qed

section \<open>The background cleanup\<close>

lemma node_delete_store: "se_store (cn_storage (snd (node_delete k n))) = js_delete k (se_store (cn_storage n))"
  by (auto simp: node_delete_def storage_delete_def Let_def js_has_def delete_id map_of_eq_None_iff)

lemma sweep_end_store:
  "se_store (cn_storage (runCleanupSweep_end ks n)) = filter (\<lambda>p. fst p \<notin> set ks) (se_store (cn_storage n))"
  unfolding runCleanupSweep_end_def
  by (induction ks arbitrary: n) (auto simp: node_delete_store AList.delete_eq intro: filter_cong)

lemma sweep_end_frame [simp]:
  "cn_faultInjector (runCleanupSweep_end ks n) = cn_faultInjector n" "cn_settings (runCleanupSweep_end ks n) = cn_settings n"
  unfolding runCleanupSweep_end_def by (induction ks arbitrary: n) (auto simp: node_delete_def case_prod_unfold Let_def)

lemma cleanup_keys:
  assumes "storage_ok s"
  shows "set (cleanupExpiredHandler (storage_entries s) t) = fst ` {p \<in> set (se_store s). isExpired t (snd p)}"
proof -
  have "set (cleanupExpiredHandler (storage_entries s) t) = ce_key ` snd ` {p \<in> set (se_store s). isExpired t (snd p)}"
    unfolding cleanupExpiredHandler_def storage_entries_def isExpired_def by auto
  also have "\<dots> = fst ` {p \<in> set (se_store s). isExpired t (snd p)}"
    unfolding image_image by (rule image_cong) (use assms in \<open>auto simp: storage_ok_def\<close>)
  finally show ?thesis .
qed

text \<open>C26. The cleanup finds exactly the expired entries, but does not look again: if nothing runs between
  the capture of the entries and the deletions, exactly the entries expired at the capture are gone
  and the rest is in place; but if a client rewrites one of the reported keys in between, its PUT is
  answered 200 and the sweep then deletes the new value, which the next GET reports as not found.\<close>

theorem cleanup_exact_but_unchecked:
  fixes n :: "'v CacheNodeServer"
  assumes "server_reachable js decode undef H c settings t0 n" and "\<not> isKilled (cn_faultInjector n)"
    and "stored n key = Some old" and "isExpired t old"
    and "validate_put body = Inr (key, v, ttl)" and "decode raw = Some key"
    and "approximateSizeBytes js v \<le> ns_maxMemoryBytes settings"
  defines "expiredKeys \<equiv> cleanupExpiredHandler (storage_entries (cn_storage n)) t"
  shows "se_store (cn_storage (runCleanupSweep_end expiredKeys n)) = filter (\<lambda>p. \<not> isExpired t (snd p)) (se_store (cn_storage n)) \<and>
    (\<exists>reply d n1. handle_request js decode now random restored (ReqPut body) n = (reply, d, n1) \<and> reply_status reply = 200 \<and>
       map_option ce_value (stored n1 key) = Some v \<and>
       reply_status (fst (handle_request js decode now' random' restored' (ReqGet raw) (runCleanupSweep_end expiredKeys n1))) = 404)"
proof -
  note ok = server_reachable_ok[OF assms(1)]
  then have sok: "storage_ok (cn_storage n)" and st: "cn_settings n = settings" using reachable_ok by (auto simp: node_ok_def)
  note keys = cleanup_keys[OF sok, of t, folded expiredKeys_def]
  have "fst p \<notin> set expiredKeys \<longleftrightarrow> \<not> isExpired t (snd p)" if "p \<in> set (se_store (cn_storage n))" for p
    using that sok by (auto simp: keys storage_ok_def distinct_map inj_on_def)
  then have exact: "se_store (cn_storage (runCleanupSweep_end expiredKeys n)) = filter (\<lambda>p. \<not> isExpired t (snd p)) (se_store (cn_storage n))"
    unfolding sweep_end_store by (rule filter_cong[OF refl])
  have key: "key \<in> set expiredKeys" using assms(3,4) by (force simp: keys dest: map_of_SomeD)
  obtain entry n1 where n1: "node_set js now key v ttl n = Inr (entry, n1)" "stored n1 key = Some entry" "ce_value entry = v"
    "cn_faultInjector n1 = cn_faultInjector n"
    using node_set_spec[OF ok validate_put_key[OF assms(5)] assms(7), of now ttl] by metis
  have "stored (runCleanupSweep_end expiredKeys n1) key = None"
    using key by (auto simp: sweep_end_store map_of_eq_None_iff)
  then have "reply_status (fst (handle_request js decode now' random' restored' (ReqGet raw) (runCleanupSweep_end expiredKeys n1))) = 404"
    using assms(2,6) n1(4) by (simp add: killSwitch_def node_get_route_def decodeCacheKeyParam_def storage_get_def respond_def)
  moreover obtain reply d where "handle_request js decode now random restored (ReqPut body) n = (reply, d, n1)" "reply_status reply = 200"
    using n1(1) assms(2,5) by (simp add: node_put_route_def killSwitch_def respond_def)
  ultimately show ?thesis using exact n1(2,3) by auto
qed

theorem cleanup_exact_but_unchecked_witness:
  "\<exists>n reply d n1. server_reachable nat_json Some 0 FileSnapshotStore demo_codec demo_settings 0 n \<and>
    cleanupExpiredHandler (storage_entries (cn_storage n)) 30 = [''k''] \<and>
    handle_request nat_json Some 31 0 (Inr None) (ReqPut demo_body) n = (reply, d, n1) \<and> reply_status reply = 200 \<and>
    reply_status (fst (handle_request nat_json Some 32 0 (Inr None) (ReqGet ''k'') (runCleanupSweep_end [''k''] n1))) = 404"
proof -
  obtain n where n: "server_reachable nat_json Some 0 FileSnapshotStore demo_codec demo_settings 0 n"
    "se_store (cn_storage n) = [(''k'', restored_entry nat_json demo_settings 5 demo_entry)]" "\<not> isKilled (cn_faultInjector n)"
    by (rule demo_written)
  have s: "stored n ''k'' = Some (restored_entry nat_json demo_settings 5 demo_entry)" by (simp add: n(2))
  have x: "isExpired 30 (restored_entry nat_json demo_settings 5 demo_entry)"
    by (simp add: isExpired_def restored_entry_def demo_entry_def newMetadata_def)
  have k: "cleanupExpiredHandler (storage_entries (cn_storage n)) 30 = [''k'']"
    by (simp add: cleanupExpiredHandler_def storage_entries_def n(2) restored_entry_def demo_entry_def newMetadata_def)
  have fits: "approximateSizeBytes nat_json 7 \<le> ns_maxMemoryBytes demo_settings" by (simp add: demo_body_valid demo_settings_def)
  from cleanup_exact_but_unchecked[OF n(1,3) s x demo_body_valid(1) refl fits, of 31 0 "Inr None" 32 0 "Inr None"] n(1) k
  show ?thesis by auto
qed

end
