(* ===== verification/Uri.thy ===== *)
theory Uri
  imports Shared
begin

text \<open>
  \<open>encodeURIComponent\<close> and \<open>decodeURIComponent\<close> of the language, as the HTTP clients and
  \<open>decodeCacheKeyParam\<close> use them: percent-encoded UTF-8.  Decoding checks the hexadecimal digits and the
  UTF-8 form (no overlong form, no surrogate, nothing above the last code point); a failure is the
  \<open>URIError\<close>, here \<open>None\<close>.  As everywhere, strings hold character codes below 256, so a decoded character
  above them is outside the model.
\<close>

section \<open>Encoding\<close>

definition hex_digit :: "nat \<Rightarrow> char" where
  "hex_digit n = char_of (if n < 10 then 48 + n else 55 + n)"

definition percent_byte :: "nat \<Rightarrow> string" where
  "percent_byte b = [CHR ''%'', hex_digit (b div 16), hex_digit (b mod 16)]"

text \<open>The characters that stay as they are: letters, digits and \<open>- _ . ! ~ * ' ( )\<close>.\<close>

definition uri_unreserved :: "char \<Rightarrow> bool" where
  "uri_unreserved c \<longleftrightarrow>
     (let n = of_char c :: nat
      in 48 \<le> n \<and> n \<le> 57 \<or> 65 \<le> n \<and> n \<le> 90 \<or> 97 \<le> n \<and> n \<le> 122 \<or> n \<in> {33, 39, 40, 41, 42, 45, 46, 95, 126})"

definition utf8_bytes :: "char \<Rightarrow> nat list" where
  "utf8_bytes c = (let n = of_char c in if n < 128 then [n] else [192 + n div 64, 128 + n mod 64])"

definition encode_char :: "char \<Rightarrow> string" where
  "encode_char c = (if uri_unreserved c then [c] else concat (map percent_byte (utf8_bytes c)))"

definition encodeURIComponent :: "string \<Rightarrow> string" where
  "encodeURIComponent s = concat (map encode_char s)"

section \<open>Decoding\<close>

definition hex_value :: "char \<Rightarrow> nat option" where
  "hex_value c =
     (let n = of_char c
      in if 48 \<le> n \<and> n \<le> 57 then Some (n - 48)
         else if 65 \<le> n \<and> n \<le> 70 then Some (n - 55)
         else if 97 \<le> n \<and> n \<le> 102 then Some (n - 87)
         else None)"

fun take_byte :: "string \<Rightarrow> (nat \<times> string) option" where
  "take_byte (p # h # l # rest) =
     (if p \<noteq> CHR ''%'' then None
      else case (hex_value h, hex_value l) of (Some a, Some b) \<Rightarrow> Some (16 * a + b, rest) | _ \<Rightarrow> None)"
| "take_byte _ = None"

text \<open>\<open>n\<close> continuation bytes after a leading byte.\<close>

fun take_continuation :: "nat \<Rightarrow> nat \<Rightarrow> string \<Rightarrow> (nat \<times> string) option" where
  "take_continuation 0 acc s = Some (acc, s)"
| "take_continuation (Suc n) acc s =
     (case take_byte s of
        None \<Rightarrow> None
      | Some (b, rest) \<Rightarrow> if b div 64 = 2 then take_continuation n (64 * acc + b mod 64) rest else None)"

definition valid_point :: "nat \<Rightarrow> nat \<Rightarrow> bool" where
  "valid_point n p \<longleftrightarrow>
     (if n = 1 then 128 \<le> p
      else if n = 2 then 2048 \<le> p \<and> \<not> (55296 \<le> p \<and> p \<le> 57343)
      else 65536 \<le> p \<and> p \<le> 1114111)"

definition take_sequence :: "nat \<Rightarrow> nat \<Rightarrow> string \<Rightarrow> (nat \<times> string) option" where
  "take_sequence n lead s =
     (case take_continuation n lead s of
        None \<Rightarrow> None
      | Some (p, rest) \<Rightarrow> if valid_point n p then Some (p, rest) else None)"

definition take_point :: "string \<Rightarrow> (nat \<times> string) option" where
  "take_point s =
     (case take_byte s of
        None \<Rightarrow> None
      | Some (b, rest) \<Rightarrow>
          if b < 128 then Some (b, rest)
          else if b < 192 then None
          else if b < 224 then take_sequence 1 (b - 192) rest
          else if b < 240 then take_sequence 2 (b - 224) rest
          else if b < 248 then take_sequence 3 (b - 240) rest
          else None)"

lemma take_byte_shorter: "take_byte s = Some (b, rest) \<Longrightarrow> length rest + 3 = length s"
  by (cases s rule: take_byte.cases) (auto split: if_splits option.splits)

lemma take_continuation_shorter: "take_continuation n acc s = Some (p, rest) \<Longrightarrow> length rest \<le> length s"
  by (induction n acc s rule: take_continuation.induct) (fastforce split: option.splits if_splits dest: take_byte_shorter)+

lemma take_point_shorter:
  assumes "take_point s = Some (p, rest)"
  shows "length rest + 3 \<le> length s"
proof -
  obtain b r where b: "take_byte s = Some (b, r)" using assms by (auto simp: take_point_def split: option.splits)
  moreover have "length rest \<le> length r"
    using assms b by (auto simp: take_point_def take_sequence_def split: option.splits if_splits dest: take_continuation_shorter take_byte_shorter)
  ultimately show ?thesis using take_byte_shorter[OF b] by simp
qed

function decode_points :: "string \<Rightarrow> nat list option" where
  "decode_points [] = Some []"
| "decode_points (c # cs) =
     (if c \<noteq> CHR ''%'' then map_option ((#) (of_char c)) (decode_points cs)
      else case take_point (c # cs) of
             None \<Rightarrow> None
           | Some (p, rest) \<Rightarrow> map_option ((#) p) (decode_points rest))"
  by pat_completeness auto
termination
  by (relation "measure length") (auto dest: take_point_shorter)

definition char_point :: "nat \<Rightarrow> char option" where
  "char_point p = (if p < 256 then Some (char_of p) else None)"

definition decodeURIComponent :: "string \<Rightarrow> string option" where
  "decodeURIComponent s = Option.bind (decode_points s) (\<lambda>ps. those (map char_point ps))"

section \<open>Decoding undoes encoding\<close>

lemma hex_value_digit: "n < 16 \<Longrightarrow> hex_value (hex_digit n) = Some n"
  by (simp add: hex_value_def hex_digit_def Let_def)

lemma take_percent_byte: "b < 256 \<Longrightarrow> take_byte (percent_byte b @ rest) = Some (b, rest)"
  by (simp add: percent_byte_def hex_value_digit div_less_iff_less_mult mult_div_mod_eq)

lemma take_point_char:
  fixes c :: char
  shows "take_point (concat (map percent_byte (utf8_bytes c)) @ rest) = Some (of_char c, rest)"
proof (cases "of_char c < (128 :: nat)")
  case True
  then show ?thesis by (simp add: utf8_bytes_def take_point_def take_percent_byte)
next
  case False
  let ?n = "of_char c :: nat"
  have n: "?n < 256" by (metis mod_less_divisor of_char_mod_256 zero_less_numeral)
  with False have lead: "192 + ?n div 64 < 224" "\<not> 192 + ?n div 64 < 192" "192 + ?n div 64 < 256" by linarith+
  have low: "(128 + m) div 64 = 2 \<and> (128 + m) mod 64 = m \<and> 128 + m < 256" if "m < 64" for m :: nat
    using that div_mult_self4[of 64 2 m] mod_mult_self4[of 64 2 m] by simp
  from low[of "?n mod 64"] have cont: "(128 + ?n mod 64) div 64 = 2" "(128 + ?n mod 64) mod 64 = ?n mod 64" "128 + ?n mod 64 < 256" by simp_all
  show ?thesis using False
    by (simp add: utf8_bytes_def Let_def take_point_def take_sequence_def take_percent_byte lead cont valid_point_def mult_div_mod_eq)
qed

lemma unreserved_no_percent: "uri_unreserved c \<Longrightarrow> c \<noteq> CHR ''%''"
  by (auto simp: uri_unreserved_def)

lemma decode_points_char: "decode_points (encode_char c @ s) = map_option ((#) (of_char c)) (decode_points s)"
proof (cases "uri_unreserved c")
  case True
  then show ?thesis by (simp add: encode_char_def unreserved_no_percent)
next
  case False
  let ?s = "concat (map percent_byte (utf8_bytes c)) @ s"
  obtain t where t: "?s = CHR ''%'' # t" by (cases "of_char c < (128 :: nat)") (simp_all add: utf8_bytes_def Let_def percent_byte_def)
  with take_point_char[of c s] have "decode_points ?s = map_option ((#) (of_char c)) (decode_points s)" by simp
  with False show ?thesis by (simp add: encode_char_def)
qed

lemma decode_points_encode: "decode_points (encodeURIComponent s) = Some (map of_char s)"
  by (induction s) (simp_all add: encodeURIComponent_def decode_points_char)

lemma those_char_points: "those (map (char_point \<circ> of_char) s) = Some s"
  by (induction s) (simp_all add: char_point_def)

theorem decode_encode: "decodeURIComponent (encodeURIComponent s) = Some s"
  by (simp add: decodeURIComponent_def decode_points_encode those_char_points)

section \<open>Decoding twice\<close>

text \<open>A string decodes to itself exactly if it contains no percent sign: every escape makes it shorter.\<close>

lemma decode_points_plain: "CHR ''%'' \<notin> set s \<Longrightarrow> decode_points s = Some (map of_char s)"
  by (induction s) auto

lemma decode_points_length: "decode_points s = Some ps \<Longrightarrow> length ps \<le> length s \<and> (CHR ''%'' \<in> set s \<longrightarrow> length ps < length s)"
proof (induction s arbitrary: ps rule: decode_points.induct)
  case (2 c cs)
  show ?case
  proof (cases "c = CHR ''%''")
    case True
    with 2(3) obtain p rest qs where p: "take_point (c # cs) = Some (p, rest)" "decode_points rest = Some qs" "ps = p # qs"
      by (auto split: option.splits)
    from 2(2)[OF _ p(1) refl p(2)] True take_point_shorter[OF p(1)] p(3) show ?thesis by simp
  next
    case False
    with 2(3) obtain qs where "decode_points cs = Some qs" "ps = of_char c # qs" by auto
    with 2(1)[of qs] False show ?thesis by simp
  qed
qed simp

lemma those_length: "those xs = Some ys \<Longrightarrow> length ys = length xs"
  by (induction xs arbitrary: ys) (auto split: option.splits)

theorem decode_fixed: "decodeURIComponent s = Some s \<longleftrightarrow> CHR ''%'' \<notin> set s"
proof
  assume "decodeURIComponent s = Some s"
  then obtain ps where "decode_points s = Some ps" "length ps = length s"
    by (auto simp: decodeURIComponent_def bind_eq_Some_conv dest: those_length)
  with decode_points_length[of s ps] show "CHR ''%'' \<notin> set s" by auto
next
  assume "CHR ''%'' \<notin> set s"
  then show "decodeURIComponent s = Some s" by (simp add: decodeURIComponent_def decode_points_plain those_char_points)
qed

end
