(* ===== verification/Cluster.thy ===== *)
theory Cluster
  imports NodeData Gateway Uri
begin

text \<open>
  The composition of the components: the gateway in front of real nodes, the gateway's ring beside
  the nodes' rings, and a write on its way from a primary to its replica and back.  Here \<open>fetch\<close>,
  a parameter of the gateway's definitions, is instantiated by the request handler of the node it
  addresses.  Express, which finds the key in the path of a request, is a parameter: it is documented to
  pass the parameters of a route decoded by \<open>decodeURIComponent\<close>.
\<close>

section \<open>The gateway in front of the nodes\<close>

type_synonym 'v nodes = "string \<Rightarrow> 'v CacheNodeServer"

text \<open>\<open>req_param\<close> maps the segment of a path to what Express puts into \<open>req.params\<close>.\<close>

definition decodes_params :: "(string \<Rightarrow> string) \<Rightarrow> bool" where
  "decodes_params req_param \<longleftrightarrow> (\<forall>segment key. decodeURIComponent segment = Some key \<longrightarrow> req_param segment = key)"

fun node_request_of :: "(string \<Rightarrow> string) \<Rightarrow> 'v http_request \<Rightarrow> 'v node_request" where
  "node_request_of req_param (GetKey key) = ReqGet (req_param (encodeURIComponent key))"
| "node_request_of req_param (PutBody body) = ReqPut (Some body)"
| "node_request_of req_param (DeleteKey key) = ReqDelete (req_param (encodeURIComponent key))"
| "node_request_of req_param GetMetrics = ReqMetrics"
| "node_request_of req_param GetHealth = ReqHealth"

text \<open>The body of an unsuccessful response is never read by the client.\<close>

definition cluster_fetch :: "('v \<Rightarrow> unit + string option) \<Rightarrow> (string \<Rightarrow> string) \<Rightarrow> time \<Rightarrow> rat \<Rightarrow>
    ('v, 'v node_body, 'v nodes) fetch_fun" where
  "cluster_fetch js req_param now random req node w =
     (let (reply, d, n') = handle_request js decodeURIComponent now random (Inr None) (node_request_of req_param req) (w (ni_nodeId node))
      in (Response (reply_status reply) (case reply of Ok200 b \<Rightarrow> Inr b | ErrorReply _ \<Rightarrow> Inl ()), w(ni_nodeId node := n')))"

lemma client_killed:
  assumes "isKilled (cn_faultInjector (w (ni_nodeId node)))"
  shows "client_put (cluster_fetch js req_param now random) body node w = (Inl (FlowCache (NodeUnavailableError (ni_nodeId node))), w)"
    and "client_get (cluster_fetch js req_param now random) key node w = (Inl (FlowCache (NodeUnavailableError (ni_nodeId node))), w)"
  using assms by (simp_all add: client_put_def client_get_def client_call_def cluster_fetch_def killSwitch_def respond_def response_ok_def)

lemma client_served:
  "handle_request js decodeURIComponent now random (Inr None) (ReqPut (Some body)) (w (ni_nodeId node)) = (Ok200 b, d, n') \<Longrightarrow>
     client_put (cluster_fetch js req_param now random) body node w = (Inr b, w(ni_nodeId node := n'))"
  "handle_request js decodeURIComponent now random (Inr None) (ReqGet (req_param (encodeURIComponent key))) (w (ni_nodeId node)) = (Ok200 b, d, n') \<Longrightarrow>
     client_get (cluster_fetch js req_param now random) key node w = (Inr b, w(ni_nodeId node := n'))"
  by (simp_all add: client_put_def client_get_def client_call_def cluster_fetch_def response_ok_def json_of_def
      del: handle_request.simps)

lemma try_candidates_first:
  assumes "\<And>p. p \<in> set pre \<Longrightarrow> \<exists>e. action p w = (Inl e, w) \<and> \<not> is_key_not_found e" and "action node w = (Inr v, w')"
  shows "try_candidates action err (pre @ node # post) w = (Inr v, w')"
  using assms by (induction pre arbitrary: err) fastforce+

lemma forward_first:
  assumes "failover_candidates r k key = pre @ node # post"
    and "\<And>p. p \<in> set pre \<Longrightarrow> \<exists>e. action p w = (Inl e, w) \<and> \<not> is_key_not_found e" and "action node w = (Inr v, w')"
  shows "forwardWithFailover r k key action w = (Inr v, w')"
proof -
  have "try_candidates action (FlowCache NoHealthyNodesError) (pre @ node # post) w = (Inr v, w')"
    by (rule try_candidates_first) (use assms(2,3) in auto)
  then show ?thesis by (simp add: forwardWithFailover_def assms(1))
qed

text \<open>The routes decode the parameter that Express has decoded already.  What they get is the key if it has
  no percent sign, and never the key if it has one.\<close>

lemma param_decoded: "decodes_params req_param \<Longrightarrow> req_param (encodeURIComponent key) = key"
  by (simp add: decodes_params_def decode_encode)

lemma param_decoded_again:
  assumes "decodes_params req_param" and "CHR ''%'' \<notin> set key"
  shows "decodeURIComponent (req_param (encodeURIComponent key)) = Some key"
  using assms by (simp add: param_decoded decode_fixed)

lemma percent_keys_unreachable:
  assumes "decodes_params req_param" and "CHR ''%'' \<in> set key"
  shows "decodeCacheKeyParam decodeURIComponent (req_param (encodeURIComponent key)) \<noteq> Inr key"
  using assms decode_fixed[of key] by (auto simp: param_decoded decodeCacheKeyParam_def split: option.splits)

text \<open>A key with a lone percent sign is rejected, and one that looks like an escape reads another key.\<close>

lemma percent_keys_examples:
  assumes "decodes_params req_param"
  shows "gateway_get fetch decodeURIComponent r (req_param (encodeURIComponent ''100%'')) w =
      (ErrorReply (toErrorResponse (FlowCache (ValidationError (''Malformed key in URL: '' @ quoted ''100%'')))), w)"
    and "gateway_get fetch decodeURIComponent r (req_param (encodeURIComponent ''a%20b'')) w =
      gateway_get fetch decodeURIComponent r (req_param (encodeURIComponent ''a b'')) w"
proof -
  have d: "decodeURIComponent ''100%'' = None" "decodeURIComponent ''a%20b'' = Some ''a b''" "decodeURIComponent ''a b'' = Some ''a b''"
    by code_simp+
  show "gateway_get fetch decodeURIComponent r (req_param (encodeURIComponent ''100%'')) w =
      (ErrorReply (toErrorResponse (FlowCache (ValidationError (''Malformed key in URL: '' @ quoted ''100%'')))), w)"
    by (simp add: param_decoded[OF assms] gateway_get_def decodeCacheKeyParam_def d respond_def)
  show "gateway_get fetch decodeURIComponent r (req_param (encodeURIComponent ''a%20b'')) w =
      gateway_get fetch decodeURIComponent r (req_param (encodeURIComponent ''a b'')) w"
    by (simp add: param_decoded[OF assms] gateway_get_def decodeCacheKeyParam_def d)
qed

text \<open>C2. A client reads its own write through the gateway, killed nodes or not: if among the candidates of
  the key the ones before \<open>node\<close> are killed and \<open>node\<close> is not, a valid PUT through the gateway of a value that fits
  the node's memory limit is answered 200 by that node with the next version, and a GET through the gateway before the time to live has passed answers
  200 with the written value and that version from the same node.  The key has no percent sign: with one, the routes would
  decode it once more than the client encoded it.\<close>

theorem gateway_reads_its_write:
  fixes w :: "'v nodes"
  assumes "failover_candidates r FAILOVER_CANDIDATE_COUNT key = pre @ node # post"
    and "\<And>p. p \<in> set pre \<Longrightarrow> isKilled (cn_faultInjector (w (ni_nodeId p)))"
    and "server_reachable js decodeURIComponent undef H c settings t0 (w (ni_nodeId node))"
    and "\<not> isKilled (cn_faultInjector (w (ni_nodeId node)))"
    and "validate_put (Some body) = Inr (key, v, ttl)" and "approximateSizeBytes js v \<le> ns_maxMemoryBytes settings"
    and "\<And>d. (case ttl of None \<Rightarrow> ns_defaultTtlMs settings | Some t \<Rightarrow> t) = Some d \<Longrightarrow> now' < now + d"
    and "decodes_params req_param" and "CHR ''%'' \<notin> set key"
  shows "\<exists>w1 w2 m.
    gateway_put (cluster_fetch js req_param now random) r (Some body) w =
      (Ok200 (PutReply \<lparr>pr_key = key, pr_version = next_version (w (ni_nodeId node)) key, pr_nodeId = ns_nodeId settings,
         pr_replicated = False\<rparr>), w1) \<and>
    gateway_get (cluster_fetch js req_param now' random') decodeURIComponent r (req_param (encodeURIComponent key)) w1 =
      (Ok200 (GetReply \<lparr>gb_key = key, gb_value = v, gb_metadata = m, gb_nodeId = ns_nodeId settings\<rparr>), w2) \<and>
    cm_version m = next_version (w (ni_nodeId node)) key"
proof -
  let ?n = "w (ni_nodeId node)"
  note dec = param_decoded_again[OF assms(8,9)]
  obtain d n1 m n2 where put: "handle_request js decodeURIComponent now random (Inr None) (ReqPut (Some body)) ?n =
      (Ok200 (PutReply \<lparr>pr_key = key, pr_version = next_version ?n key, pr_nodeId = ns_nodeId settings, pr_replicated = False\<rparr>), d, n1)"
    and get: "handle_request js decodeURIComponent now' random' (Inr None) (ReqGet (req_param (encodeURIComponent key))) n1 =
      (Ok200 (GetReply \<lparr>gb_key = key, gb_value = v, gb_metadata = m, gb_nodeId = ns_nodeId settings\<rparr>), None, n2)"
    and ver: "cm_version m = next_version ?n key"
    using node_put_get[where decode = decodeURIComponent, OF server_reachable_ok[OF assms(3)] assms(4,5) dec assms(6), of now' now random "Inr None" random' "Inr None"]
      assms(7) by blast
  let ?w1 = "w(ni_nodeId node := n1)"
  have pre: "ni_nodeId p \<noteq> ni_nodeId node" if "p \<in> set pre" for p using assms(2)[OF that] assms(4) by metis
  have "forwardWithFailover r FAILOVER_CANDIDATE_COUNT key (client_put (cluster_fetch js req_param now random) body) w =
      (Inr (PutReply \<lparr>pr_key = key, pr_version = next_version ?n key, pr_nodeId = ns_nodeId settings, pr_replicated = False\<rparr>), ?w1)"
    using client_served(1)[where w = w and node = node, OF put]
    by (intro forward_first[OF assms(1)]) (simp_all add: client_killed assms(2))
  moreover have "forwardWithFailover r FAILOVER_CANDIDATE_COUNT key (client_get (cluster_fetch js req_param now' random') key) ?w1 =
      (Inr (GetReply \<lparr>gb_key = key, gb_value = v, gb_metadata = m, gb_nodeId = ns_nodeId settings\<rparr>), ?w1(ni_nodeId node := n2))"
    using client_served(2)[where w = ?w1 and node = node and req_param = req_param and key = key and js = js
        and now = now' and random = random'] get pre
    by (intro forward_first[OF assms(1)]) (simp_all add: client_killed assms(2) del: handle_request.simps)
  moreover have "pb_key body = Some key" "length key \<noteq> 0" "pb_value body \<noteq> None"
    using assms(5) by (auto simp: validate_put_def Let_def split: option.splits if_splits sum.splits)
  ultimately show ?thesis using ver dec
    by (simp add: gateway_put_def gateway_get_def decodeCacheKeyParam_def respond_def)
qed

section \<open>The gateway's ring and the nodes' rings\<close>

text \<open>Two rings that differ at most in the nodes' status, heartbeat and address.\<close>

definition twin_rings :: "ConsistentHashRing \<Rightarrow> ConsistentHashRing \<Rightarrow> bool" where
  "twin_rings r q \<longleftrightarrow> ring_baseVirtualNodeCount r = ring_baseVirtualNodeCount q \<and> ring_points r = ring_points q \<and>
     js_keys (ring_nodes r) = js_keys (ring_nodes q)"

lemma twin_rings_add:
  assumes "twin_rings r q" and "ni_nodeId a = ni_nodeId b" and "ni_weight a = ni_weight b"
  shows "twin_rings (snd (addNode a r)) (snd (addNode b q))"
proof -
  have has: "js_has (ring_nodes r) i = js_has (ring_nodes q) i" for i
    using assms(1) by (simp add: js_has_iff twin_rings_def flip: set_map)
  have pts: "virtual_points base a = virtual_points base b" for base
    using assms(2,3) by (simp add: virtual_points_def virtualNodeCountFor_def)
  have del: "js_keys (js_delete i (ring_nodes r)) = js_keys (js_delete i (ring_nodes q))" for i
  proof -
    have "js_keys (js_delete i m) = filter (\<lambda>k. k \<noteq> i) (js_keys m)" for m :: "(string, NodeInfo) js_map"
      by (induction m) auto
    then show ?thesis using assms(1) by (simp add: twin_rings_def)
  qed
  have upd: "js_keys m = js_keys m' \<Longrightarrow> js_keys (js_set i x m) = js_keys (js_set i y m')" for m m' :: "(string, NodeInfo) js_map" and i x y
    by (simp only: AList.update_keys)
  show ?thesis
    using assms(1,2) del upd by (simp add: addNode_def Let_def has pts removeNode_def twin_rings_def)
qed

lemma twin_rings_build:
  "twin_rings r q \<Longrightarrow>
    twin_rings (fold (\<lambda>node r. snd (addNode (node_of_static s1 t1 node) r)) nodes r)
               (fold (\<lambda>node r. snd (addNode (node_of_static s2 t2 node) r)) nodes q)"
proof (induction nodes arbitrary: r q)
  case Nil
  then show ?case by simp
next
  case (Cons node nodes)
  have "twin_rings (snd (addNode (node_of_static s1 t1 node) r)) (snd (addNode (node_of_static s2 t2 node) q))"
    by (rule twin_rings_add[OF Cons.prems]) (simp_all add: node_of_static_def)
  from Cons.IH[OF this] show ?case by simp
qed

lemma pollOne_points [simp]: "ring_points (gw_ring (pollOne opts now node health g)) = ring_points (gw_ring g)"
  by (simp add: pollOne_def Let_def split: sum.split)

lemma polls_points:
  "ring_points (gw_ring (fold (\<lambda>(opts, now, node, health) g. pollOne opts now node health g) polls g)) = ring_points (gw_ring g)"
  by (induction polls arbitrary: g) auto

lemma node_ring_ok: "ring_ok (node_ring settings t)"
proof -
  have "ring_ok (fold (\<lambda>node r. snd (addNode (node_of_static s t node) r)) nodes r)" if "ring_ok r" for s nodes r
    using that by (induction nodes arbitrary: r) (auto intro: ring_ok_add)
  then show ?thesis unfolding node_ring_def using ring_ok_new by blast
qed

text \<open>C9. The gateway and the nodes agree on placement: with the same node list and virtual node count,
  whatever the health polls have found, every node computes the same owners of a key as the gateway,
  and the nodes a primary replicates to are the first of the candidate ids the gateway takes from its ring,
  before it leaves out the nodes it has marked DEAD, so failover goes to where the replicas are.\<close>

theorem gateway_and_nodes_agree:
  assumes "server_reachable js decode undef H c settings t0 n"
    and g_def: "g = fold (\<lambda>(opts, now, node, health) g. pollOne opts now node health g) polls
      (new_GatewayServer (ns_virtualNodeCount settings) t1 (ns_staticNodes settings))"
  shows "getNodesForKey key k (gw_ring g) = getNodesForKey key k (cn_ring n) \<and> getNode key (gw_ring g) = getNode key (cn_ring n) \<and>
    getReplicaNodeIds n key = take REPLICATION_FACTOR (getNodesForKey key FAILOVER_CANDIDATE_COUNT (gw_ring g))"
proof -
  have ring: "cn_ring n = node_ring settings t0" using server_reachable_ok[OF assms(1)] by (simp add: node_ok_def)
  let ?q = "new_ConsistentHashRing (Some (ns_virtualNodeCount settings))"
  have "twin_rings ?q ?q" by (simp add: twin_rings_def)
  from twin_rings_build[OF this, of JOINING t1 "ns_staticNodes settings" HEALTHY t0]
  have pts: "ring_points (gw_ring g) = ring_points (cn_ring n)"
    by (simp add: g_def polls_points ring node_ring_def new_GatewayServer_def twin_rings_def)
  have "getNode key (gw_ring g) = getNode key (cn_ring n)" by (simp only: getNode_def successorIndex_def pts)
  moreover have "getReplicaNodeIds n key = take REPLICATION_FACTOR (getNodesForKey key FAILOVER_CANDIDATE_COUNT (cn_ring n))"
    unfolding getReplicaNodeIds_def ring getNodesForKey_preference[OF node_ring_ok]
    by (simp add: REPLICATION_FACTOR_def FAILOVER_CANDIDATE_COUNT_def)
  ultimately show ?thesis using getNodesForKey_points[OF pts] by simp
qed

section \<open>A write on its way to the replica\<close>

text \<open>C4. A write reaches its replica and the replica's acknowledgement settles the primary's promise: a
  PUT accepted by the primary (its replication not dropped) is published to the key's other node; the
  replica, unless it holds an entry of the same or a later version, stores the value, acknowledges
  success; the acknowledgement, read by the primary, resolves its promise with exactly that replica
  and leaves nothing pending for the event.\<close>

theorem write_reaches_replica:
  fixes a b :: "'v CacheNodeServer"
  assumes "server_reachable js decode undef H c sa ta a" and "server_reachable js decode undef H c sb tb b"
    and "\<not> isKilled (cn_faultInjector a)"
    and "validate_put body = Inr (key, v, ttl)"
    and "approximateSizeBytes js v \<le> ns_maxMemoryBytes sa" and "approximateSizeBytes js v \<le> ns_maxMemoryBytes sb"
    and "\<not> shouldDropReplicationMessage random (cn_faultInjector a)"
    and "filter (\<lambda>i. i \<noteq> ns_nodeId sa) (getReplicaNodeIds a key) = [ns_nodeId sb]" and "ns_nodeId sa \<noteq> ns_nodeId sb"
    and "\<And>e. storage_peek t2 key (cn_storage b) = Some e \<Longrightarrow> cm_version (ce_metadata e) < next_version a key"
  shows "\<exists>reply delay dw a1 a2 msg ack b' eff1 eff2 a3.
    handle_request js decode now random restored (ReqPut body) a = (reply, Some (delay, dw), a1) \<and> reply_status reply = 200 \<and>
    continue_replication eventId t1 dw a1 = (Some [Publish msg key], a2) \<and>
    on_replication_message js undef t2 msg b = ([eff1, Publish (AckMessage ack) key], b') \<and> rk_success ack \<and>
    map_option ce_value (stored b' key) = Some v \<and>
    on_replication_message js undef t3 (AckMessage ack) a2 = ([eff2, Resolve eventId [ns_nodeId sb]], a3) \<and>
    js_get (re_pendingAcks (cn_replicationEngine a3)) eventId = None"
proof -
  note oka = server_reachable_ok[OF assms(1)] and okb = server_reachable_ok[OF assms(2)] and key = validate_put_key[OF assms(4)]
  obtain entry a1 where set: "node_set js now key v ttl a = Inr (entry, a1)" and e: "ce_value entry = v"
    "cm_version (ce_metadata entry) = next_version a key"
    and a1: "node_ok js sa ta a1" "cn_faultInjector a1 = cn_faultInjector a" "cn_replicationEngine a1 = cn_replicationEngine a"
    using node_set_spec[OF oka key assms(5), of now ttl] by metis
  let ?dw = "DeferWrite key v (ce_metadata entry)" and ?B = "ns_nodeId sb"
  have put: "\<exists>reply delay. handle_request js decode now random restored (ReqPut body) a = (reply, Some (delay, ?dw), a1) \<and> reply_status reply = 200"
    using set assms(3,4,7) a1(2) e(1) by (simp add: node_put_route_def killSwitch_def respond_def replicateWriteWithFaults_def)
  let ?ev = "\<lparr>rev_eventId = eventId, rev_sourceNodeId = ns_nodeId sa, rev_key = key, rev_op = PUT, rev_value = Some v,
      rev_metadata = Some (ce_metadata entry), rev_timestamp = t1\<rparr>"
  let ?re = "registerAckWaiter eventId [?B] (cn_replicationEngine a1)"
  have ids: "re_nodeId (cn_replicationEngine a1) = ns_nodeId sa" "re_nodeId (cn_replicationEngine b) = ?B" "cn_ring a1 = cn_ring a"
    using a1(1) oka okb by (simp_all add: node_ok_def)
  have pub: "continue_replication eventId t1 ?dw a1 = (Some [Publish (EventMessage ?ev [?B]) key], a1\<lparr>cn_replicationEngine := ?re\<rparr>)"
    using assms(8) ids by (simp add: continue_replication_def replicateWrite_def replicate_op_def getReplicaNodeIds_def Let_def)
  have newer: "storage_peek t2 key (cn_storage b) = Some x \<Longrightarrow> cm_version (ce_metadata x) < cm_version (ce_metadata entry)" for x
    using assms(10) e(2) by simp
  obtain eb b1 where b1: "applyRemoteWrite js t2 key v (ce_metadata entry) b = Inr b1" "stored b1 key = Some eb" "ce_value eb = v"
    "cn_replicationEngine b1 = cn_replicationEngine b"
    by (rule remote_write_applies[OF okb key assms(6) newer])
  let ?ack = "\<lparr>rk_eventId = eventId, rk_replicaNodeId = ?B, rk_success = True, rk_appliedAt = t2, rk_error = None\<rparr>"
  have del: "on_replication_message js undef t2 (EventMessage ?ev [?B]) b =
      ([EmitApplied ?ev ?ack, Publish (AckMessage ?ack) key], b1\<lparr>cn_replicationEngine := cn_replicationEngine b\<rparr>)"
    using b1(1) assms(9) ids(2)
    by (simp add: on_replication_message_def handleMessage_def handleReplicationEvent_def apply_event_def node_callbacks_def)
  have "on_replication_message js undef t3 (AckMessage ?ack) (a1\<lparr>cn_replicationEngine := ?re\<rparr>) =
      ([EmitAck ?ack, Resolve eventId [?B]], a1\<lparr>cn_replicationEngine := ?re\<lparr>re_pendingAcks := js_delete eventId
        (js_set eventId \<lparr>aw_eventId = eventId, aw_targetNodeIds = [?B], aw_ackedBy = [?B]\<rparr> (re_pendingAcks ?re))\<rparr>\<rparr>)"
    by (simp add: on_replication_message_def handleMessage_def handleAck_def registerAckWaiter_def Let_def set_add_def js_map_simps)
  with put pub del b1(2,3) show ?thesis by (fastforce simp: js_map_simps)
qed

section \<open>Witnesses on a cluster of two nodes\<close>

definition pair_settings :: "string \<Rightarrow> node_settings" where
  "pair_settings i = \<lparr>ns_nodeId = i, ns_virtualNodeCount = 1,
     ns_staticNodes = map (\<lambda>n. \<lparr>sn_nodeId = n, sn_host = n, sn_port = 4001, sn_weight = 1\<rparr>) [''n1'', ''n2''], ns_maxMemoryBytes = 100,
     ns_defaultTtlMs = Some 50, ns_workerPoolSize = 2, ns_snapshotIntervalMs = 0, ns_snapshotCompress = False\<rparr>"

lemma pair_server:
  obtains n where "server_reachable nat_json decode 0 FileSnapshotStore demo_codec (pair_settings i) 0 n"
    and "cn_faultInjector n = new_FaultInjector" and "se_store (cn_storage n) = []" and "cn_ring n = node_ring (pair_settings i) 0"
proof -
  obtain eff :: "(nat worker_payload, nat CacheEntry list worker_result) pool_effect list" and n where
    new: "new_CacheNodeServer (pair_settings i) 0 = Inr (eff, n)" by (rule new_CacheNodeServer_some)
  have "cn_ring n = node_ring (pair_settings i) 0"
    using new_CacheNodeServer_fields(1)[OF new] by (simp add: node_ok_def)
  then show ?thesis by (rule that[OF server_reachable.init[OF new] new_CacheNodeServer_fields(2,3)[OF new]])
qed

lemma pair_ring: "node_ring (pair_settings i) 0 = demo_ring"
  by (simp add: node_ring_def pair_settings_def demo_ring_def node_of_static_def demo_node_def)

lemma pair_replicas: "getNodesForKey ''k'' REPLICATION_FACTOR (node_ring (pair_settings i) 0) = [''n1'', ''n2'']"
  by (simp add: pair_ring REPLICATION_FACTOR_def numeral_2_eq_2 demo_owners)

text \<open>Express's parameter on well-formed and on malformed segments.\<close>

definition demo_param :: "string \<Rightarrow> string" where
  "demo_param segment = (case decodeURIComponent segment of Some key \<Rightarrow> key | None \<Rightarrow> segment)"

lemma demo_param_decodes: "decodes_params demo_param"
  by (simp add: decodes_params_def demo_param_def)

theorem gateway_reads_its_write_witness:
  "\<exists>w w1 w2 m. isKilled (cn_faultInjector (w ''n1'')) \<and>
    gateway_put (cluster_fetch nat_json demo_param 5 0) demo_ring demo_body w =
      (Ok200 (PutReply \<lparr>pr_key = ''k'', pr_version = 1, pr_nodeId = ''n2'', pr_replicated = False\<rparr>), w1) \<and>
    gateway_get (cluster_fetch nat_json demo_param 9 0) decodeURIComponent demo_ring (demo_param (encodeURIComponent ''k'')) w1 =
      (Ok200 (GetReply \<lparr>gb_key = ''k'', gb_value = 7, gb_metadata = m, gb_nodeId = ''n2''\<rparr>), w2)"
proof -
  obtain n where n: "server_reachable nat_json decodeURIComponent 0 FileSnapshotStore demo_codec (pair_settings ''n2'') 0 n"
    "cn_faultInjector n = new_FaultInjector" "se_store (cn_storage n) = []" by (rule pair_server)
  define w where "w = (\<lambda>i. if i = ''n1'' then n\<lparr>cn_faultInjector := (cn_faultInjector n)\<lparr>fs_killed := True\<rparr>\<rparr> else n)"
  have w: "w ''n2'' = n" "isKilled (cn_faultInjector (w ''n1''))" "\<not> isKilled (cn_faultInjector n)"
    by (simp_all add: w_def isKilled_def n(2) new_FaultInjector_def)
  have v: "next_version n ''k'' = 1" by (simp add: next_version_def n(3))
  have c: "failover_candidates demo_ring FAILOVER_CANDIDATE_COUNT ''k'' = [demo_node ''n1''] @ demo_node ''n2'' # []"
    by (simp add: demo_failover)
  have "server_reachable nat_json decodeURIComponent 0 FileSnapshotStore demo_codec (pair_settings ''n2'') 0 (w (ni_nodeId (demo_node ''n2'')))"
    using n(1) w(1) by simp
  from gateway_reads_its_write[where w = w and now' = 9 and now = 5 and req_param = demo_param and random = 0 and random' = 0,
      OF c _ this _ demo_body_valid(1)[unfolded demo_body_def]] w v
  show ?thesis unfolding demo_body_def by (fastforce simp: demo_body_valid pair_settings_def demo_param_decodes)
qed

theorem gateway_and_nodes_agree_witness:
  "\<exists>n. server_reachable nat_json Some 0 FileSnapshotStore demo_codec (pair_settings ''n1'') 0 n \<and>
    getReplicaNodeIds n ''k'' = take REPLICATION_FACTOR (getNodesForKey ''k'' FAILOVER_CANDIDATE_COUNT
      (gw_ring (new_GatewayServer 1 9 (ns_staticNodes (pair_settings ''n1'')))))"
proof -
  obtain n where n: "server_reachable nat_json Some 0 FileSnapshotStore demo_codec (pair_settings ''n1'') 0 n" by (rule pair_server)
  from gateway_and_nodes_agree[OF n refl, of "''k''" 1 "[]" 9] n show ?thesis by (auto simp: pair_settings_def)
qed

theorem write_reaches_replica_witness:
  "\<exists>a b reply delay dw a1 a2 msg ack b' eff1.
    handle_request nat_json Some 5 0 (Inr None) (ReqPut demo_body) a = (reply, Some (delay, dw), a1) \<and>
    continue_replication ''evt_1'' 6 dw a1 = (Some [Publish msg ''k''], a2) \<and>
    on_replication_message nat_json 0 7 msg b = ([eff1, Publish (AckMessage ack) ''k''], b') \<and>
    map_option ce_value (stored b' ''k'') = Some 7"
proof -
  obtain a where a: "server_reachable nat_json Some 0 FileSnapshotStore demo_codec (pair_settings ''n1'') 0 a"
    "cn_faultInjector a = new_FaultInjector" "cn_ring a = node_ring (pair_settings ''n1'') 0" by (rule pair_server)
  obtain b where b: "server_reachable nat_json Some 0 FileSnapshotStore demo_codec (pair_settings ''n2'') 0 b"
    "se_store (cn_storage b) = []" by (rule pair_server)
  have alive: "\<not> isKilled (cn_faultInjector a)" "\<not> shouldDropReplicationMessage 0 (cn_faultInjector a)"
    by (simp_all add: a(2) new_FaultInjector_def isKilled_def shouldDropReplicationMessage_def)
  have fits: "approximateSizeBytes nat_json 7 \<le> ns_maxMemoryBytes (pair_settings i)" for i by (simp add: demo_body_valid pair_settings_def)
  have target: "filter (\<lambda>i. i \<noteq> ns_nodeId (pair_settings ''n1'')) (getReplicaNodeIds a ''k'') = [ns_nodeId (pair_settings ''n2'')]"
    using pair_replicas by (simp add: getReplicaNodeIds_def a(3)) (simp add: pair_settings_def)
  have ids: "ns_nodeId (pair_settings ''n1'') \<noteq> ns_nodeId (pair_settings ''n2'')" by (simp add: pair_settings_def)
  have fresh: "storage_peek 7 ''k'' (cn_storage b) = Some e \<Longrightarrow> cm_version (ce_metadata e) < next_version a ''k''" for e
    by (simp add: storage_peek_def b(2))
  from write_reaches_replica[where now = 5 and restored = "Inr None" and eventId = "''evt_1''" and ?t1.0 = 6 and ?t2.0 = 7 and ?t3.0 = 8,
      OF a(1) b(1) alive(1) demo_body_valid(1) fits fits alive(2) target ids fresh]
  show ?thesis by blast
qed

end
