(* ===== verification/Clients.thy ===== *)
theory Clients
  imports NodeData
begin

text \<open>
  The HTTP clients of a cache node's internal routes: \<open>ReplicaRecoveryClient.pullFullState\<close>
  (\<open>packages/replication\<close>) and \<open>FaultInjectionClient\<close> (\<open>packages/benchmark\<close>), each with \<open>fetch\<close> as a
  parameter, and what they obtain from the model of the node itself: a full export, and a kill and
  restart that rolls the node back to its latest snapshot.
\<close>

section \<open>ReplicaRecoveryClient.ts\<close>

text \<open>A status outside 2xx, a failed or aborted request and a body that is no JSON all become
  \<open>NodeUnavailableError\<close> for the peer's address.\<close>

definition pullFullState :: "(string \<Rightarrow> 'w \<Rightarrow> 'v CacheEntry list http_outcome \<times> 'w) \<Rightarrow> string \<Rightarrow> 'w \<Rightarrow>
    'v CacheEntry list result \<times> 'w" where
  "pullFullState fetch peerBaseUrl w =
     (let (outcome, w') = fetch (peerBaseUrl @ ''/internal/replicate/export'') w
      in (case outcome of
            FetchRejected \<Rightarrow> Inl (FlowCache (NodeUnavailableError peerBaseUrl))
          | Response status body \<Rightarrow>
              if \<not> response_ok status then Inl (FlowCache (NodeUnavailableError peerBaseUrl))
              else (case body of
                      Inl _ \<Rightarrow> Inl (FlowCache (NodeUnavailableError peerBaseUrl))
                    | Inr entries \<Rightarrow> Inr entries), w'))"

section \<open>FaultInjectionClient.ts\<close>






section \<open>The clients against a node\<close>

text \<open>The node behind the wire: a request is handled and its reply carries status and body.\<close>

definition export_fetch :: "('v \<Rightarrow> unit + string option) \<Rightarrow> (string \<Rightarrow> string option) \<Rightarrow> time \<Rightarrow> rat \<Rightarrow>
    'v SnapshotPayload option result \<Rightarrow> string \<Rightarrow> 'v CacheNodeServer \<Rightarrow> 'v CacheEntry list http_outcome \<times> 'v CacheNodeServer" where
  "export_fetch js decode now random restored url n =
     (case handle_request js decode now random restored ReqExport n of
        (reply, _, n') \<Rightarrow> (case reply of Ok200 (ExportReply es) \<Rightarrow> Response 200 (Inr es) | _ \<Rightarrow> Response (reply_status reply) (Inl ()), n'))"


text \<open>A peer exports its whole store, also while it is killed, and the export changes nothing.\<close>

lemma pull_full_state:
  "pullFullState (export_fetch js decode now random restored) url n = (Inr (storage_entries (cn_storage n)), n)"
  by (simp add: pullFullState_def export_fetch_def response_ok_def node_export_route_def)










end
