(* ===== verification/SnapshotCrash.thy ===== *)
theory SnapshotCrash
  imports Snapshot
begin

text \<open>
  Crashes while \<open>takeSnapshot\<close> runs on the file store.  The store is run with a journal of the file
  system calls it makes, so the order of the calls is the one of the manager's and the store's own code.
  A crash can leave any of the calls of the batch under way not started, finished or, for a \<open>writeFile\<close>,
  torn: the file is emptied before its content is written.
\<close>

section \<open>The journal\<close>

type_synonym 'b journal = "'b directory \<times> 'b fs_call list list"

definition journaled :: "'b fs_call list list \<Rightarrow> 'b directory result \<Rightarrow> 'b journal \<Rightarrow> 'b journal result" where
  "journaled calls res j = (case res of Inl e \<Rightarrow> Inl e | Inr d \<Rightarrow> Inr (d, snd j @ calls))"

definition JournaledStore :: "('b, 'b journal) ISnapshotStore" where
  "JournaledStore =
     \<lparr>ss_write = (\<lambda>i buffer metadata j. journaled (write_calls i buffer metadata) (file_write i buffer metadata (fst j)) j),
      ss_read = (\<lambda>i j. file_read i (fst j)),
      ss_writeLatestPointer = (\<lambda>metadata j. (file_writeLatestPointer metadata (fst j), snd j @ pointer_calls metadata)),
      ss_readLatestPointer = (\<lambda>j. file_readLatestPointer (fst j)),
      ss_list = (\<lambda>j. file_list (fst j)),
      ss_delete = (\<lambda>i j. journaled (delete_calls i) (file_delete i (fst j)) j)\<rparr>"

section \<open>Crashes\<close>

fun call_states :: "'b fs_call \<Rightarrow> 'b directory \<Rightarrow> 'b directory list" where
  "call_states (WriteFile name content) d = [d, js_set name (OtherText []) d, js_set name content d]"
| "call_states (Unlink name) d = [d, js_delete name d]"

fun batch_states :: "'b fs_call list \<Rightarrow> 'b directory \<Rightarrow> 'b directory list" where
  "batch_states [] d = [d]"
| "batch_states (call # calls) d = concat (map (batch_states calls) (call_states call d))"

fun crash_states :: "'b fs_call list list \<Rightarrow> 'b directory \<Rightarrow> 'b directory list" where
  "crash_states [] d = [d]"
| "crash_states (batch # batches) d = batch_states batch d @ crash_states batches (run_calls [batch] d)"

lemma crash_states_append:
  "set (crash_states (xs @ ys) d) \<subseteq> set (crash_states xs d) \<union> set (crash_states ys (run_calls xs d))"
proof (induction xs arbitrary: d)
  case (Cons x xs)
  have "run_calls (x # xs) d = run_calls xs (run_calls [x] d)" by (simp add: run_calls_def)
  with Cons[of "run_calls [x] d"] show ?case by auto
qed auto

text \<open>A file no call names is untouched in every such state.\<close>

fun call_name :: "'b fs_call \<Rightarrow> string" where
  "call_name (WriteFile name _) = name"
| "call_name (Unlink name) = name"

definition names :: "'b fs_call list list \<Rightarrow> string set" where
  "names batches = call_name ` set (concat batches)"

lemma names_simps [simp]:
  "names [] = {}" "names (b # bs) = call_name ` set b \<union> names bs" "names (xs @ ys) = names xs \<union> names ys"
  "names (write_calls i p m) = {dataPath i, metaPath i}" "names (pointer_calls m) = {LATEST_POINTER_FILE}"
  "names (delete_calls i) = {dataPath i, metaPath i}"
  by (auto simp: names_def write_calls_def pointer_calls_def delete_calls_def)

lemma names_deletes:
  "names (concat (map (delete_calls \<circ> md_snapshotId) ms)) = (\<Union>y \<in> set ms. {dataPath (md_snapshotId y), metaPath (md_snapshotId y)})"
  by (induction ms) auto

lemma batch_states_frame: "x \<in> set (batch_states b d) \<Longrightarrow> name \<notin> call_name ` set b \<Longrightarrow> js_get x name = js_get d name"
proof (induction b arbitrary: d)
  case (Cons call b)
  then obtain d' where d': "d' \<in> set (call_states call d)" "x \<in> set (batch_states b d')" by auto
  have "js_get d' name = js_get d name" using d'(1) Cons.prems(2) by (cases call) (auto simp: js_map_simps)
  with Cons.IH[OF d'(2)] Cons.prems(2) show ?case by simp
qed simp

lemma run_calls_frame: "name \<notin> names bs \<Longrightarrow> js_get (run_calls bs d) name = js_get d name"
proof -
  have "name \<notin> call_name ` set cs \<Longrightarrow> js_get (fold run_call cs d) name = js_get d name" for cs
  proof (induction cs arbitrary: d)
    case (Cons c cs)
    then show ?case by (cases c) (auto simp: js_map_simps)
  qed simp
  then show "name \<notin> names bs \<Longrightarrow> ?thesis" by (simp add: names_def run_calls_def)
qed

lemma crash_states_frame: "x \<in> set (crash_states bs d) \<Longrightarrow> name \<notin> names bs \<Longrightarrow> js_get x name = js_get d name"
proof (induction bs arbitrary: d)
  case (Cons b bs)
  then consider "x \<in> set (batch_states b d)" | "x \<in> set (crash_states bs (run_calls [b] d))" by auto
  then show ?case
  proof cases
    case 1
    with Cons.prems(2) show ?thesis by (intro batch_states_frame) auto
  next
    case 2
    with Cons.IH[OF 2] Cons.prems(2) run_calls_frame[of name "[b]" d] show ?thesis by auto
  qed
qed simp

section \<open>The journal is what the store does\<close>

lemma journal_delete_all:
  assumes "\<And>m. m \<in> set ms \<Longrightarrow> VALID_SNAPSHOT_ID (md_snapshotId m)"
  defines "calls \<equiv> concat (map (delete_calls \<circ> md_snapshotId) ms)"
  shows "delete_all FileSnapshotStore ms d = (Inr (), run_calls calls d)"
    and "delete_all JournaledStore ms (d, made) = (Inr (), run_calls calls d, made @ calls)"
  unfolding calls_def using assms(1)
proof (induction ms arbitrary: d made)
  case (Cons m ms)
  {
    case 1
    with Cons.IH(1) show ?case by (simp add: FileSnapshotStore_def file_delete_def assertValidSnapshotId_def)
  next
    case 2
    with Cons.IH(2) show ?case by (simp add: JournaledStore_def journaled_def file_delete_def assertValidSnapshotId_def)
  }
qed (simp_all add: JournaledStore_def FileSnapshotStore_def)

lemma journal_prune:
  fixes m :: SnapshotManager
  assumes "file_ok d" and "file_list d = Inr ms"
  defines "calls \<equiv> concat (map (delete_calls \<circ> md_snapshotId) (drop (sm_maxRetained m) ms))"
  shows "pruneOldSnapshots FileSnapshotStore m d = (Inr (), run_calls calls d)"
    and "pruneOldSnapshots JournaledStore m (d, made) = (Inr (), run_calls calls d, made @ calls)"
proof -
  have v: "VALID_SNAPSHOT_ID (md_snapshotId x)" if x: "x \<in> set (drop (sm_maxRetained m) ms)" for x
  proof -
    have "x \<in> {sp_metadata s |i s. file_snaps d i = Some s}" using in_set_dropD[OF x] files.store_list[OF assms(1)] assms(2)
      by (auto simp: FileSnapshotStore_def)
    then show ?thesis using files.store_ids[OF assms(1)] by blast
  qed
  have l: "ss_list FileSnapshotStore d = Inr ms" "ss_list JournaledStore (d, made) = Inr ms"
    using assms(2) by (simp_all add: FileSnapshotStore_def JournaledStore_def)
  show "pruneOldSnapshots FileSnapshotStore m d = (Inr (), run_calls calls d)"
    using journal_delete_all(1)[of "drop (sm_maxRetained m) ms" d] v by (simp add: pruneOldSnapshots_def l calls_def)
  show "pruneOldSnapshots JournaledStore m (d, made) = (Inr (), run_calls calls d, made @ calls)"
    using journal_delete_all(2)[of "drop (sm_maxRetained m) ms" d made] v by (simp add: pruneOldSnapshots_def l calls_def)
qed

text \<open>The calls of a whole snapshot: data, metadata, pointer, and then one batch per pruned snapshot.\<close>

definition snapshot_calls :: "SnapshotManager \<Rightarrow> SnapshotMetadata \<Rightarrow> 'b \<Rightarrow> SnapshotMetadata list \<Rightarrow> 'b fs_call list list" where
  "snapshot_calls m md payload ms =
     write_calls (md_snapshotId md) payload md @ pointer_calls md @
     concat (map (delete_calls \<circ> md_snapshotId) (drop (sm_maxRetained m) ms))"

lemma journal_store:
  assumes "file_ok d" and "VALID_SNAPSHOT_ID (md_snapshotId md)"
    and "file_list (run_calls (write_calls (md_snapshotId md) payload md @ pointer_calls md) d) = Inr ms"
  shows "takeSnapshot_store FileSnapshotStore m md payload d = (Inr (), run_calls (snapshot_calls m md payload ms) d)"
    and "takeSnapshot_store JournaledStore m md payload (d, []) =
      (Inr (), run_calls (snapshot_calls m md payload ms) d, snapshot_calls m md payload ms)"
proof -
  let ?calls = "write_calls (md_snapshotId md) payload md @ pointer_calls md" and ?i = "md_snapshotId md"
  have ok: "file_ok (run_calls ?calls d)" using file_ok_pointer[OF file_ok_write[OF assms(1,2)] assms(2)] by simp
  have f: "ss_write FileSnapshotStore ?i payload md d = Inr (run_calls (write_calls ?i payload md) d)"
    "ss_writeLatestPointer FileSnapshotStore md (run_calls (write_calls ?i payload md) d) = run_calls ?calls d"
    using assms(2) by (simp_all add: FileSnapshotStore_def file_write_def file_writeLatestPointer_def assertValidSnapshotId_def)
  have j: "ss_write JournaledStore ?i payload md (d, []) = Inr (run_calls (write_calls ?i payload md) d, write_calls ?i payload md)"
    "ss_writeLatestPointer JournaledStore md (run_calls (write_calls ?i payload md) d, write_calls ?i payload md) = (run_calls ?calls d, ?calls)"
    using assms(2) by (simp_all add: JournaledStore_def journaled_def file_write_def file_writeLatestPointer_def assertValidSnapshotId_def)
  note prune = journal_prune(1)[OF ok assms(3), of m] journal_prune(2)[OF ok assms(3), of m ?calls]
  show "takeSnapshot_store FileSnapshotStore m md payload d = (Inr (), run_calls (snapshot_calls m md payload ms) d)"
    unfolding takeSnapshot_store_def f sum.case prune snapshot_calls_def by simp
  show "takeSnapshot_store JournaledStore m md payload (d, []) =
      (Inr (), run_calls (snapshot_calls m md payload ms) d, snapshot_calls m md payload ms)"
    unfolding takeSnapshot_store_def j sum.case prune snapshot_calls_def by simp
qed

section \<open>What a crash leaves\<close>

text \<open>\<open>restoreLatest\<close> reads three files: the pointer and the two files of the snapshot it names.\<close>

lemma restoreLatest_files:
  assumes "js_get x LATEST_POINTER_FILE = js_get y LATEST_POINTER_FILE"
    and "\<And>p. js_get y LATEST_POINTER_FILE = Some (MetaFile p) \<Longrightarrow>
      js_get x (dataPath (md_snapshotId p)) = js_get y (dataPath (md_snapshotId p)) \<and>
      js_get x (metaPath (md_snapshotId p)) = js_get y (metaPath (md_snapshotId p))"
  shows "restoreLatest FileSnapshotStore c m x = restoreLatest FileSnapshotStore c m y"
proof (cases "js_get y LATEST_POINTER_FILE")
  case None
  with assms(1) show ?thesis by (simp add: restoreLatest_def FileSnapshotStore_def file_readLatestPointer_def)
next
  case (Some f)
  show ?thesis
  proof (cases f)
    case (MetaFile p)
    with assms(2)[of p] Some have "js_get x (dataPath (md_snapshotId p)) = js_get y (dataPath (md_snapshotId p))"
      "js_get x (metaPath (md_snapshotId p)) = js_get y (metaPath (md_snapshotId p))" by simp_all
    then have "file_read (md_snapshotId p) x = file_read (md_snapshotId p) y" unfolding file_read_def by (simp split: sum.split)
    with assms(1) Some MetaFile show ?thesis
      by (simp add: restoreLatest_def restoreById_def FileSnapshotStore_def file_readLatestPointer_def parse_meta_def)
  qed (use assms(1) Some in \<open>simp_all add: restoreLatest_def FileSnapshotStore_def file_readLatestPointer_def parse_meta_def\<close>)
qed

lemma restore_complete:
  assumes "codec_ok c" and "VALID_SNAPSHOT_ID (md_snapshotId md)" and "serialize_inline c entries (md_compressed md) = Inr (payload, md_checksum md)"
    and "js_get x LATEST_POINTER_FILE = Some (MetaFile md)" and "js_get x (dataPath (md_snapshotId md)) = Some (DataFile payload)"
    and "js_get x (metaPath (md_snapshotId md)) = Some (MetaFile md)"
  shows "restoreLatest FileSnapshotStore c m x = Inr (Some \<lparr>pl_metadata = md, pl_entries = entries\<rparr>)"
  using assms by (auto simp: restoreLatest_def restoreById_def FileSnapshotStore_def file_readLatestPointer_def file_read_def parse_meta_def
      assertValidSnapshotId_def serialize_inline_def codec_ok_def Let_def)

definition torn_pointer :: "'b directory \<Rightarrow> bool" where
  "torn_pointer d \<longleftrightarrow> js_get d LATEST_POINTER_FILE = Some (OtherText [])"

lemma torn_pointer_unreadable: "torn_pointer d \<Longrightarrow> restoreLatest FileSnapshotStore c m d = Inl (PlainError ''Unexpected token in JSON'')"
  by (simp add: torn_pointer_def restoreLatest_def FileSnapshotStore_def file_readLatestPointer_def parse_meta_def)

lemma crash_of_calls:
  assumes c: "codec_ok c" and v: "VALID_SNAPSHOT_ID (md_snapshotId md)"
    and ser: "serialize_inline c entries (md_compressed md) = Inr (payload, md_checksum md)"
    and fresh: "\<And>p. js_get d LATEST_POINTER_FILE = Some (MetaFile p) \<Longrightarrow> md_snapshotId p \<noteq> md_snapshotId md"
    and kept: "md_snapshotId md \<notin> md_snapshotId ` set (drop (sm_maxRetained m) ms)"
    and x: "x \<in> set (crash_states (snapshot_calls m md payload ms) d)"
  shows "restoreLatest FileSnapshotStore c m x = restoreLatest FileSnapshotStore c m d \<or>
    restoreLatest FileSnapshotStore c m x = Inr (Some \<lparr>pl_metadata = md, pl_entries = entries\<rparr>) \<or> torn_pointer x"
proof -
  let ?i = "md_snapshotId md" and ?dels = "concat (map (delete_calls \<circ> md_snapshotId) (drop (sm_maxRetained m) ms)) :: 'b fs_call list list"
  let ?d1 = "run_calls (write_calls ?i payload md) d"
  let ?d2 = "run_calls (pointer_calls md) ?d1"
  have old: "restoreLatest FileSnapshotStore c m y = restoreLatest FileSnapshotStore c m d"
    if "\<And>name. name \<notin> {dataPath ?i, metaPath ?i} \<Longrightarrow> js_get y name = js_get d name" for y
    using that fresh by (intro restoreLatest_files) auto
  have d1: "restoreLatest FileSnapshotStore c m ?d1 = restoreLatest FileSnapshotStore c m d"
    by (rule old) (simp add: js_map_simps)
  from x crash_states_append[of "write_calls ?i payload md" "pointer_calls md @ ?dels" d]
    crash_states_append[of "pointer_calls md" ?dels ?d1]
  consider "x \<in> set (crash_states (write_calls ?i payload md) d)" | "x \<in> set (crash_states (pointer_calls md) ?d1)"
    | "x \<in> set (crash_states ?dels ?d2)" unfolding snapshot_calls_def by blast
  then show ?thesis
  proof cases
    case 1
    then have "restoreLatest FileSnapshotStore c m x = restoreLatest FileSnapshotStore c m d"
      by (intro old crash_states_frame[OF 1]) simp
    then show ?thesis by blast
  next
    case 2
    then have "x = ?d1 \<or> torn_pointer x \<or> x = ?d2"
      by (auto simp: pointer_calls_def run_calls_def torn_pointer_def js_map_simps)
    moreover have "restoreLatest FileSnapshotStore c m ?d2 = Inr (Some \<lparr>pl_metadata = md, pl_entries = entries\<rparr>)"
      by (rule restore_complete[OF c v ser]) (simp_all add: js_map_simps)
    ultimately show ?thesis using d1 by auto
  next
    case 3
    have "name \<notin> names ?dels" if "name \<in> {LATEST_POINTER_FILE, dataPath ?i, metaPath ?i}" for name
    proof -
      from that kept show ?thesis unfolding names_deletes by auto
    qed
    from crash_states_frame[OF 3 this] show ?thesis
      using restore_complete[OF c v ser, of x m] by (simp add: js_map_simps)
  qed
qed

text \<open>C33. A crash while a snapshot is taken.  \<open>takeSnapshot\<close> on the file store succeeds and makes the journaled
  file system calls; wherever among or inside these calls the process stops, \<open>restoreLatest\<close> on what is left
  gives what it gave before or the new snapshot with exactly the captured entries, with one exception: a
  crash inside the writing of \<open>latest.json\<close>, which is overwritten in place, leaves a pointer that does not
  parse, and then \<open>restoreLatest\<close> fails although complete snapshots are stored.\<close>

theorem snapshot_crash_safe:
  assumes "codec_ok c" and "file_ok d" and "VALID_SNAPSHOT_ID i" and "\<not> sm_snapshotInProgress m" and "0 < sm_maxRetained m"
    and "\<And>p. file_latest d = Some p \<Longrightarrow> md_snapshotId p \<noteq> i"
    and "\<And>j s. file_snaps d j = Some s \<Longrightarrow> j \<noteq> i \<Longrightarrow> md_createdAt (sp_metadata s) < startedAt"
  shows "\<exists>md d' calls.
    takeSnapshot FileSnapshotStore (serialize_inline c) (co_byteLength c) startedAt now i entries m d = (Inr md, m, d') \<and>
    takeSnapshot JournaledStore (serialize_inline c) (co_byteLength c) startedAt now i entries m (d, []) = (Inr md, m, d', calls) \<and>
    d' = run_calls calls d \<and>
    (\<forall>x \<in> set (crash_states calls d).
       restoreLatest FileSnapshotStore c m x = restoreLatest FileSnapshotStore c m d \<or>
       restoreLatest FileSnapshotStore c m x = Inr (Some \<lparr>pl_metadata = md, pl_entries = entries\<rparr>) \<or>
       torn_pointer x \<and> (\<exists>e. restoreLatest FileSnapshotStore c m x = Inl e))"
proof -
  define payload where "payload = (if sm_compress m then co_gzip c (co_stringify c entries) else co_stringify c entries)"
  define md where "md = snapshot_metadata (co_byteLength c) startedAt now i entries payload (co_sha256 c payload) m"
  have md: "md_snapshotId md = i" "md_createdAt md = startedAt" "md_checksum md = co_sha256 c payload" "md_compressed md = sm_compress m"
    by (simp_all add: md_def snapshot_metadata_def)
  have ser: "serialize_inline c entries (sm_compress m) = Inr (payload, co_sha256 c payload)" by (simp add: serialize_inline_def payload_def Let_def)
  let ?d = "run_calls (write_calls i payload md @ pointer_calls md) d"
  have ok: "file_ok ?d" using file_ok_pointer[OF file_ok_write[OF assms(2)], of md md] assms(3) md(1) by simp
  have snaps: "file_snaps ?d = (file_snaps d)(i := Some \<lparr>sp_metadata = md, sp_buffer = payload\<rparr>)"
    using assms(3) by (simp add: fun_eq_iff file_snaps_def js_map_simps)
  obtain ms where ms: "file_list ?d = Inr ms" using files.store_list[OF ok] by (auto simp: FileSnapshotStore_def)
  have kept: "i \<notin> md_snapshotId ` set (drop (sm_maxRetained m) ms)"
    by (rule files.pruning_keeps_newest[OF ok, of _ "\<lparr>sp_metadata = md, sp_buffer = payload\<rparr>"])
      (use assms(5,7) ms md(2) in \<open>auto simp: snaps[simplified] FileSnapshotStore_def split: if_splits\<close>)
  let ?calls = "snapshot_calls m md payload ms"
  note store = journal_store[OF assms(2), of md payload ms m, unfolded md(1), OF assms(3) ms]
  have "takeSnapshot FileSnapshotStore (serialize_inline c) (co_byteLength c) startedAt now i entries m d = (Inr md, m, run_calls ?calls d)"
    "takeSnapshot JournaledStore (serialize_inline c) (co_byteLength c) startedAt now i entries m (d, []) = (Inr md, m, run_calls ?calls d, ?calls)"
    using assms(4) ser store by (simp_all add: takeSnapshot_def takeSnapshot_begin_def Let_def md_def[symmetric])
  moreover have "restoreLatest FileSnapshotStore c m x = restoreLatest FileSnapshotStore c m d \<or>
       restoreLatest FileSnapshotStore c m x = Inr (Some \<lparr>pl_metadata = md, pl_entries = entries\<rparr>) \<or> torn_pointer x"
    if x: "x \<in> set (crash_states ?calls d)" for x
    using assms(3,6) ser kept by (intro crash_of_calls[OF assms(1) _ _ _ _ x]) (auto simp: md file_latest_def)
  ultimately show ?thesis using torn_pointer_unreadable by blast
qed

text \<open>A second snapshot, of which one is retained: the first is pruned.\<close>

definition demo_directory :: "nat CacheEntry list directory" where
  "demo_directory = run_calls (write_calls ''snap_1'' [] demo_metadata @ pointer_calls demo_metadata) []"

lemma demo_metadata_fields:
  "md_snapshotId demo_metadata = ''snap_1''" "md_createdAt demo_metadata = 5" "md_checksum demo_metadata = []" "md_compressed demo_metadata"
  by (simp_all add: demo_metadata_def snapshot_metadata_def demo_manager_def new_SnapshotManager_def)

lemma demo_directory_ok: "file_ok demo_directory"
  using file_ok_pointer[OF file_ok_write[OF empty_directory_ok(1)], of demo_metadata demo_metadata] demo_id_valid
  by (simp add: demo_directory_def demo_metadata_fields)

lemma demo_directory_restores: "restoreLatest FileSnapshotStore demo_codec demo_manager demo_directory = Inr (Some \<lparr>pl_metadata = demo_metadata, pl_entries = []\<rparr>)"
  by (rule restore_complete[OF demo_codec_ok])
    (simp_all add: demo_metadata_fields demo_id_valid serialize_inline_def demo_codec_def demo_directory_def js_map_simps)

theorem snapshot_crash_safe_witness:
  "\<exists>md d' calls. takeSnapshot JournaledStore (serialize_inline demo_codec) (co_byteLength demo_codec) 9 9 ''snap_2'' [] demo_manager
      (demo_directory, []) = (Inr md, demo_manager, d', calls) \<and>
    (\<forall>x \<in> set (crash_states calls demo_directory).
       restoreLatest FileSnapshotStore demo_codec demo_manager x = Inr (Some \<lparr>pl_metadata = demo_metadata, pl_entries = []\<rparr>) \<or>
       restoreLatest FileSnapshotStore demo_codec demo_manager x = Inr (Some \<lparr>pl_metadata = md, pl_entries = []\<rparr>) \<or> torn_pointer x)"
proof -
  have m: "\<not> sm_snapshotInProgress demo_manager" "0 < sm_maxRetained demo_manager"
    by (simp_all add: demo_manager_def new_SnapshotManager_def)
  have v: "VALID_SNAPSHOT_ID ''snap_2''" by (simp add: VALID_SNAPSHOT_ID_def id_char_def)
  have old: "file_latest demo_directory = Some p \<Longrightarrow> p = demo_metadata" "file_snaps demo_directory j = Some s \<Longrightarrow> sp_metadata s = demo_metadata" for p j s
    by (auto simp: file_latest_def file_snaps_def demo_directory_def js_map_simps split: if_splits option.splits file_content.splits)
  from snapshot_crash_safe[OF demo_codec_ok demo_directory_ok v m, of 9 9 "[]", unfolded demo_directory_restores] show ?thesis
    using old by (fastforce simp: demo_metadata_fields)
qed

end
