(* ===== verification/EventBus.thy ===== *)
theory EventBus
  imports Shared
begin

text \<open>
  The Kafka event bus (\<open>packages/replication/src/KafkaEventBus.ts\<close>): the connection flags, the handler
  table and the dispatch of a consumed message.  The kafkajs client is a parameter: a function from the
  call made on it to its outcome, on a world \<open>'w\<close>.  \<open>JSON.stringify\<close> and \<open>JSON.parse\<close> are parameters
  too.  The theorems show which handlers a message reaches and in which order, which calls a
  subscription makes, and that a failed subscription can be retried.
\<close>

datatype kafka_call =
    ProducerConnect
  | ProducerSend string "string option" "string option"
  | ConsumerConnect string
  | ConsumerSubscribe string
  | ConsumerRun
  | ProducerDisconnect
  | ConsumerDisconnect

type_synonym 'w kafka = "kafka_call \<Rightarrow> 'w \<Rightarrow> unit result \<times> 'w"

text \<open>A handler acts on the receiver's state and may throw.\<close>

type_synonym ('m, 's) TopicMessageHandler = "'m \<Rightarrow> 's \<Rightarrow> unit result \<times> 's"

record ('m, 's) KafkaEventBus =
  eb_consumerGroup :: string
  eb_consumer :: bool
  eb_handlers :: "(string, ('m, 's) TopicMessageHandler list) js_map"
  eb_producerConnected :: bool
  eb_consumerRunning :: bool

definition new_KafkaEventBus :: "string \<Rightarrow> ('m, 's) KafkaEventBus" where
  "new_KafkaEventBus consumerGroup =
     \<lparr>eb_consumerGroup = consumerGroup, eb_consumer = False, eb_handlers = [], eb_producerConnected = False,
      eb_consumerRunning = False\<rparr>"

definition bus_connect :: "'w kafka \<Rightarrow> ('m, 's) KafkaEventBus \<Rightarrow> 'w \<Rightarrow> unit result \<times> ('m, 's) KafkaEventBus \<times> 'w" where
  "bus_connect kafka b w =
     (if eb_producerConnected b then (Inr (), b, w)
      else case kafka ProducerConnect w of
             (Inl e, w') \<Rightarrow> (Inl e, b, w')
           | (Inr _, w') \<Rightarrow> (Inr (), b\<lparr>eb_producerConnected := True\<rparr>, w'))"

text \<open>\<open>JSON.stringify\<close> may throw (a cycle) or give \<open>undefined\<close>, which is sent as a message without a value.\<close>

definition bus_publish :: "'w kafka \<Rightarrow> ('m \<Rightarrow> unit + string option) \<Rightarrow> string \<Rightarrow> 'm \<Rightarrow> string option \<Rightarrow>
    ('m, 's) KafkaEventBus \<Rightarrow> 'w \<Rightarrow> unit result \<times> ('m, 's) KafkaEventBus \<times> 'w" where
  "bus_publish kafka stringify topic message key b w =
     (case bus_connect kafka b w of
        (Inl e, b1, w1) \<Rightarrow> (Inl e, b1, w1)
      | (Inr _, b1, w1) \<Rightarrow>
          (case stringify message of
             Inl _ \<Rightarrow> (Inl (PlainError ''Converting circular structure to JSON''), b1, w1)
           | Inr text \<Rightarrow> (case kafka (ProducerSend topic key text) w1 of (r, w2) \<Rightarrow> (r, b1, w2))))"

definition bus_on :: "string \<Rightarrow> ('m, 's) TopicMessageHandler \<Rightarrow> ('m, 's) KafkaEventBus \<Rightarrow> ('m, 's) KafkaEventBus" where
  "bus_on topic handler b =
     (let existing = (case js_get (eb_handlers b) topic of None \<Rightarrow> [] | Some hs \<Rightarrow> hs)
      in b\<lparr>eb_handlers := js_set topic (existing @ [handler]) (eb_handlers b)\<rparr>)"

text \<open>\<open>Promise.all\<close> over the subscriptions: every call is made, the first failure is the outcome.\<close>

fun subscribe_topics :: "'w kafka \<Rightarrow> string list \<Rightarrow> 'w \<Rightarrow> unit result \<times> 'w" where
  "subscribe_topics kafka [] w = (Inr (), w)"
| "subscribe_topics kafka (topic # topics) w =
     (case kafka (ConsumerSubscribe topic) w of
        (r, w1) \<Rightarrow> (case subscribe_topics kafka topics w1 of (rs, w2) \<Rightarrow> (case r of Inl e \<Rightarrow> (Inl e, w2) | Inr _ \<Rightarrow> (rs, w2))))"

definition subscribeAll :: "'w kafka \<Rightarrow> ('m, 's) KafkaEventBus \<Rightarrow> 'w \<Rightarrow> unit result \<times> ('m, 's) KafkaEventBus \<times> 'w" where
  "subscribeAll kafka b w =
     (if eb_consumerRunning b \<or> length (eb_handlers b) = 0 then (Inr (), b, w)
      else let b1 = b\<lparr>eb_consumer := True\<rparr>
           in case kafka (ConsumerConnect (eb_consumerGroup b)) w of
                (Inl e, w1) \<Rightarrow> (Inl e, b1, w1)
              | (Inr _, w1) \<Rightarrow>
                  (case subscribe_topics kafka (js_keys (eb_handlers b1)) w1 of
                     (Inl e, w2) \<Rightarrow> (Inl e, b1, w2)
                   | (Inr _, w2) \<Rightarrow>
                       (case kafka ConsumerRun w2 of
                          (Inl e, w3) \<Rightarrow> (Inl e, b1, w3)
                        | (Inr _, w3) \<Rightarrow> (Inr (), b1\<lparr>eb_consumerRunning := True\<rparr>, w3))))"

fun run_handlers :: "('m, 's) TopicMessageHandler list \<Rightarrow> 'm \<Rightarrow> 's \<Rightarrow> unit result \<times> 's" where
  "run_handlers [] parsed s = (Inr (), s)"
| "run_handlers (handler # handlers) parsed s =
     (case handler parsed s of (Inl e, s') \<Rightarrow> (Inl e, s') | (Inr _, s') \<Rightarrow> run_handlers handlers parsed s')"

text \<open>The \<open>eachMessage\<close> callback on a message of a topic; its value may be \<open>null\<close>.\<close>

definition eachMessage :: "(string \<Rightarrow> 'm option) \<Rightarrow> ('m, 's) KafkaEventBus \<Rightarrow> string \<Rightarrow> string option \<Rightarrow> 's \<Rightarrow> unit result \<times> 's" where
  "eachMessage parse b topic value s =
     (case js_get (eb_handlers b) topic of
        None \<Rightarrow> (Inr (), s)
      | Some topicHandlers \<Rightarrow>
          (case value of
             None \<Rightarrow> (Inr (), s)
           | Some text \<Rightarrow>
               (case parse text of
                  None \<Rightarrow> (Inr (), s)
                | Some parsed \<Rightarrow> run_handlers topicHandlers parsed s)))"

text \<open>\<open>disconnect\<close> waits for both clients and ignores their failures.\<close>

definition bus_disconnect :: "'w kafka \<Rightarrow> ('m, 's) KafkaEventBus \<Rightarrow> 'w \<Rightarrow> ('m, 's) KafkaEventBus \<times> 'w" where
  "bus_disconnect kafka b w =
     (let w1 = (if eb_producerConnected b then snd (kafka ProducerDisconnect w) else w);
          w2 = (if eb_consumer b then snd (kafka ConsumerDisconnect w1) else w1)
      in (b\<lparr>eb_producerConnected := False, eb_consumerRunning := False\<rparr>, w2))"

section \<open>Dispatch\<close>

definition register :: "(string \<times> ('m, 's) TopicMessageHandler) list \<Rightarrow> ('m, 's) KafkaEventBus \<Rightarrow> ('m, 's) KafkaEventBus" where
  "register regs b = fold (\<lambda>(topic, handler). bus_on topic handler) regs b"

definition handlers_for :: "string \<Rightarrow> (string \<times> ('m, 's) TopicMessageHandler) list \<Rightarrow> ('m, 's) TopicMessageHandler list" where
  "handlers_for topic regs = map snd (filter (\<lambda>r. fst r = topic) regs)"

lemma register_handlers:
  "js_get (eb_handlers (register regs (new_KafkaEventBus g))) topic =
     (if handlers_for topic regs = [] then None else Some (handlers_for topic regs))"
proof (induction regs rule: rev_induct)
  case Nil
  show ?case by (simp add: register_def new_KafkaEventBus_def handlers_for_def)
next
  case (snoc r regs)
  then show ?case
    by (cases r) (auto simp: register_def bus_on_def handlers_for_def Let_def js_map_simps split: option.splits if_splits)
qed

lemma register_flags:
  "eb_consumerRunning (register regs b) = eb_consumerRunning b"
  "eb_consumerGroup (register regs b) = eb_consumerGroup b"
  "eb_consumer (register regs b) = eb_consumer b"
  by (induction regs rule: rev_induct) (auto simp: register_def bus_on_def Let_def split: prod.splits)

lemma register_topics:
  "set (js_keys (eb_handlers (register regs (new_KafkaEventBus g)))) = set (map fst regs) \<and>
   distinct (js_keys (eb_handlers (register regs (new_KafkaEventBus g))))"
proof (induction regs rule: rev_induct)
  case Nil
  show ?case by (simp add: register_def new_KafkaEventBus_def)
next
  case (snoc r regs)
  then show ?case by (cases r) (auto simp: register_def bus_on_def Let_def AList.update_keys dom_update)
qed

lemma run_handlers_append:
  "run_handlers (hs @ gs) m s = (case run_handlers hs m s of (Inl e, s') \<Rightarrow> (Inl e, s') | (Inr _, s') \<Rightarrow> run_handlers gs m s')"
  by (induction hs arbitrary: s) (auto split: prod.splits sum.splits)

lemma run_handlers_snoc:
  "run_handlers (hs @ [h]) m s = (case run_handlers hs m s of (Inl e, s') \<Rightarrow> (Inl e, s') | (Inr _, s') \<Rightarrow> h m s')"
proof -
  obtain r s' where r: "run_handlers hs m s = (r, s')" by force
  have "run_handlers [h] m s' = h m s'" by (auto split: prod.splits sum.splits)
  with r show ?thesis by (cases r) (simp_all add: run_handlers_append del: run_handlers.simps)
qed

lemma eachMessage_registered:
  "eachMessage parse (register regs (new_KafkaEventBus g)) topic value s =
     (case Option.bind value parse of None \<Rightarrow> (Inr (), s) | Some m \<Rightarrow> run_handlers (handlers_for topic regs) m s)"
  by (auto simp: eachMessage_def register_handlers split: option.splits)

text \<open>A broker that accepts every call and records it.\<close>

definition recorder :: "kafka_call list kafka" where
  "recorder call calls = (Inr (), calls @ [call])"

lemma subscribe_topics_recorder:
  "subscribe_topics recorder topics calls = (Inr (), calls @ map ConsumerSubscribe topics)"
  by (induction topics arbitrary: calls) (simp_all add: recorder_def)

text \<open>Publishing reaches the handlers: a message whose text parses back to it is sent once to its
  topic with its partition key, after at most one connection of the producer; and on every bus the
  delivered text runs exactly the handlers registered for that topic, in registration order, a handler
  that throws stopping the later ones, while a text that does not parse and an empty message leave the
  receiver untouched.\<close>

theorem publish_reaches_handlers:
  assumes "stringify m = Inr (Some json)" and "parse json = Some m" and "parse malformed = None"
  shows "bus_publish recorder stringify topic m key b [] =
      (Inr (), b\<lparr>eb_producerConnected := True\<rparr>,
       (if eb_producerConnected b then [] else [ProducerConnect]) @ [ProducerSend topic key (Some json)]) \<and>
    eachMessage parse (register regs (new_KafkaEventBus g)) topic (Some json) s = run_handlers (handlers_for topic regs) m s \<and>
    eachMessage parse (register (regs @ [(topic, h)]) (new_KafkaEventBus g)) topic (Some json) s =
      (case run_handlers (handlers_for topic regs) m s of (Inl e, s') \<Rightarrow> (Inl e, s') | (Inr _, s') \<Rightarrow> h m s') \<and>
    eachMessage parse (register regs (new_KafkaEventBus g)) topic (Some malformed) s = (Inr (), s) \<and>
    eachMessage parse (register regs (new_KafkaEventBus g)) topic None s = (Inr (), s)"
proof -
  have "handlers_for topic (regs @ [(topic, h)]) = handlers_for topic regs @ [h]" by (simp add: handlers_for_def)
  then show ?thesis using assms
    by (simp add: bus_publish_def bus_connect_def recorder_def eachMessage_registered run_handlers_snoc)
qed

theorem publish_reaches_handlers_witness:
  "eachMessage (\<lambda>t. if t = ''1'' then Some (1 :: nat) else None)
     (register ([(''t'', \<lambda>m s. (Inr (), s @ [m])), (''u'', \<lambda>m s. (Inr (), []))] @ [(''t'', \<lambda>m s. (Inr (), s @ [m + 1]))])
        (new_KafkaEventBus ''g'')) ''t'' (Some ''1'') [0] = (Inr (), [0, 1, 2])"
proof -
  let ?regs = "[(''t'', \<lambda>m s. (Inr (), s @ [m])), (''u'', \<lambda>m s. (Inr (), []))] :: (string \<times> (nat, nat list) TopicMessageHandler) list"
  show ?thesis
    using publish_reaches_handlers[where stringify = "\<lambda>m. Inr (Some ''1'')" and m = "1 :: nat" and json = "''1''" and
        parse = "\<lambda>t. if t = ''1'' then Some (1 :: nat) else None" and malformed = "''x''" and topic = "''t''" and regs = ?regs and
        h = "\<lambda>m s. (Inr (), s @ [m + 1])" and s = "[0]" and g = "''g''" and b = "new_KafkaEventBus ''g'' :: (nat, nat list) KafkaEventBus"]
    by (simp add: handlers_for_def)
qed

text \<open>A subscription that failed anywhere left the handlers and the running flag alone, so the next call
  subscribes every topic again; once running, further calls do nothing.\<close>

lemma subscribeAll_failure:
  assumes "subscribeAll kafka b w = (Inl e, b', w')"
  shows "b' = b\<lparr>eb_consumer := True\<rparr> \<and> \<not> eb_consumerRunning b \<and> eb_handlers b \<noteq> []"
  using assms by (auto simp: subscribeAll_def Let_def split: if_splits prod.splits sum.splits)

lemma subscribeAll_recorder:
  assumes "\<not> eb_consumerRunning b" "eb_handlers b \<noteq> []"
  shows "subscribeAll recorder b calls = (Inr (), b\<lparr>eb_consumer := True, eb_consumerRunning := True\<rparr>,
    calls @ [ConsumerConnect (eb_consumerGroup b)] @ map ConsumerSubscribe (js_keys (eb_handlers b)) @ [ConsumerRun])"
  using assms by (simp add: subscribeAll_def Let_def subscribe_topics_recorder recorder_def)

text \<open>A subscription covers exactly the registered topics and survives failures: when the first attempt
  fails anywhere, a later attempt connects the consumer, subscribes every registered topic once and
  starts the loop; after that a further call makes no call at all until the bus is disconnected.\<close>

theorem subscription_retried:
  assumes "subscribeAll kafka (register regs (new_KafkaEventBus g)) w = (Inl e, b', w')"
  shows "\<exists>topics b''. set topics = set (map fst regs) \<and> distinct topics \<and>
      subscribeAll recorder b' [] = (Inr (), b'', [ConsumerConnect g] @ map ConsumerSubscribe topics @ [ConsumerRun]) \<and>
      subscribeAll kafka2 b'' v = (Inr (), b'', v) \<and>
      \<not> eb_consumerRunning (fst (bus_disconnect kafka2 b'' v)) \<and>
      eb_handlers (fst (bus_disconnect kafka2 b'' v)) = eb_handlers b'"
proof -
  let ?b = "register regs (new_KafkaEventBus g)"
  note f = subscribeAll_failure[OF assms]
  have "subscribeAll recorder b' [] = (Inr (), b'\<lparr>eb_consumer := True, eb_consumerRunning := True\<rparr>,
    [] @ [ConsumerConnect (eb_consumerGroup b')] @ map ConsumerSubscribe (js_keys (eb_handlers b')) @ [ConsumerRun])"
    by (rule subscribeAll_recorder) (use f in simp_all)
  moreover have "eb_consumerGroup b' = g" using f by (simp add: register_flags new_KafkaEventBus_def)
  moreover have "eb_handlers b' = eb_handlers ?b" using f by simp
  ultimately show ?thesis using register_topics[of regs g]
    by (intro exI[of _ "js_keys (eb_handlers ?b)"] exI[of _ "b'\<lparr>eb_consumer := True, eb_consumerRunning := True\<rparr>"])
      (simp add: subscribeAll_def bus_disconnect_def Let_def)
qed

text \<open>A broker that refuses the second topic.\<close>

definition refusing :: "nat kafka" where
  "refusing call w = (if call = ConsumerSubscribe ''b'' then Inl (PlainError ''refused'') else Inr (), w + 1)"

theorem subscription_retried_witness:
  "\<exists>topics b'' b'. subscribeAll refusing (register [(''a'', \<lambda>m s. (Inr (), s)), (''b'', \<lambda>m s. (Inr (), s + 1)),
       (''a'', \<lambda>m s. (Inr (), s + m))] (new_KafkaEventBus ''g'')) 0 = (Inl (PlainError ''refused''), b', 3) \<and>
     set topics = {''a'', ''b''} \<and> distinct topics \<and>
     subscribeAll recorder (b' :: (nat, nat) KafkaEventBus) [] =
       (Inr (), b'', [ConsumerConnect ''g''] @ map ConsumerSubscribe topics @ [ConsumerRun])"
proof -
  let ?regs = "[(''a'', \<lambda>m s. (Inr (), s)), (''b'', \<lambda>m s. (Inr (), s + 1)), (''a'', \<lambda>m s. (Inr (), s + m))]
    :: (string \<times> (nat, nat) TopicMessageHandler) list"
  let ?b = "register ?regs (new_KafkaEventBus ''g'')"
  have s: "subscribeAll refusing ?b 0 = (Inl (PlainError ''refused''), ?b\<lparr>eb_consumer := True\<rparr>, 3)"
    by (simp add: subscribeAll_def refusing_def register_def bus_on_def new_KafkaEventBus_def Let_def)
  show ?thesis using subscription_retried[OF s, of refusing 0] s by auto
qed

end
