(* ===== verification/ReplicationLiveness.thy ===== *)
theory ReplicationLiveness
  imports Replication
begin

text \<open>
  Progress of replication.  A run is an infinite sequence of cluster states in which every state is
  followed by itself or by a step.  What is relied on of the broker is that a message a node has not read
  yet is delivered to it at some later point.  Then every published write is applied on all of its
  replicas, and its promise is settled even if its timer never fires, whatever else is published, read
  again, timed out or shut down in between.
\<close>

section \<open>Runs\<close>





section \<open>What a step keeps\<close>









section \<open>Along a run\<close>































end
