(* ===== verification/PoolLiveness.thy ===== *)
theory PoolLiveness
  imports WorkerPool
begin

text \<open>
  Progress of the worker pool.  A run is an infinite sequence of states in which every state is followed
  by itself or by a step of the pool.  It is fair when no task runs forever: its worker answers, throws,
  exits with an error, or its timer replaces the worker.  On fair runs every promise is settled, although
  the queue is served one task at a time by a fixed number of workers and new tasks may keep arriving.
\<close>

section \<open>Runs\<close>

definition pool_trace :: "nat \<Rightarrow> nat option \<Rightarrow> (nat \<Rightarrow> ('p, 'r) pool_run) \<Rightarrow> bool" where
  "pool_trace sz t run \<longleftrightarrow> run 0 = new_run sz t \<and> (\<forall>n. run (Suc n) = run n \<or> pool_step (run n) (run (Suc n)))"

definition no_task_runs_forever :: "(nat \<Rightarrow> ('p, 'r) pool_run) \<Rightarrow> bool" where
  "no_task_runs_forever run \<longleftrightarrow>
     (\<forall>n u. u \<in> running (pr_pool (run n)) \<longrightarrow> (\<exists>m \<ge> n. u \<notin> running (pr_pool (run m))))"

section \<open>What one step can start\<close>

text \<open>What runs after a handler ran before, or the handler dispatched it.\<close>

definition starts_only :: "'p WorkerPool \<Rightarrow> ('p, 'r) pool_effect list \<Rightarrow> 'p WorkerPool \<Rightarrow> bool" where
  "starts_only s e s' \<longleftrightarrow> running s' \<subseteq> running s \<union> set (dispatched e)"

lemma starts_onlyI: "running s' \<subseteq> running s \<Longrightarrow> starts_only s e s'"
  by (auto simp: starts_only_def)

lemma starts_only_via:
  "starts_only s1 e2 s2 \<Longrightarrow> running s1 \<subseteq> running s \<Longrightarrow> set (dispatched e2) \<subseteq> set (dispatched e) \<Longrightarrow> starts_only s e s2"
  by (auto simp: starts_only_def)

lemma running_cong [simp]:
  "running (s\<lparr>wp_queue := q\<rparr>) = running s" "running (s\<lparr>wp_pendingByTaskId := m\<rparr>) = running s"
  "running (s\<lparr>wp_nextWorkerId := i\<rparr>) = running s"
  by (simp_all add: running_def)

lemma running_workers: "set ws \<subseteq> set (wp_workers s) \<union> {w. mw_currentTaskId w = None} \<Longrightarrow> running (s\<lparr>wp_workers := ws\<rparr>) \<subseteq> running s"
  by (force simp: running_def set_map_filter_current)

lemma running_free: "running (update_worker i (\<lambda>w. w\<lparr>mw_busy := False, mw_currentTaskId := None\<rparr>) s) \<subseteq> running s"
  unfolding update_worker_def by (rule running_workers) auto

lemma dispatch_starts: "dispatch i p s = (e, s') \<Longrightarrow> starts_only s e s'"
  by (force simp: starts_only_def dispatch_fields running_def set_map_filter_current split: if_splits)

lemma drain_starts: "drainQueueTo i s = (e, s') \<Longrightarrow> starts_only s e s'"
  by (auto simp: drainQueueTo_def intro: starts_onlyI split: option.splits list.splits if_splits
      dest!: dispatch_starts intro: starts_only_via)

lemma replace_starts:
  fixes e :: "('p, 'r) pool_effect list"
  assumes "replaceWorker i s = (e, s')"
  shows "starts_only s e s'"
proof (cases "wp_disposed s")
  case True
  with assms show ?thesis by (auto simp: replaceWorker_def intro!: starts_onlyI dest: subsetD[OF running_workers, rotated])
next
  case False
  let ?s2 = "s\<lparr>wp_nextWorkerId := wp_nextWorkerId s + 1, wp_workers := filter (\<lambda>w. mw_id w \<noteq> i) (wp_workers s) @
    [\<lparr>mw_id = wp_nextWorkerId s, mw_busy = False, mw_currentTaskId = None\<rparr>]\<rparr>"
  from assms False obtain e2 :: "('p, 'r) pool_effect list" where "drainQueueTo (wp_nextWorkerId s) ?s2 = (e2, s')" "dispatched e = dispatched e2"
    by (auto simp: replaceWorker_def spawnWorker_def Let_def split: prod.splits)
  moreover have "running ?s2 \<subseteq> running s" by (force simp: running_def set_map_filter_current)
  ultimately show ?thesis by (auto dest: drain_starts intro: starts_only_via)
qed

lemma message_starts: "handleWorkerMessage i m s = (e, s') \<Longrightarrow> starts_only s e s'"
  by (auto simp: handleWorkerMessage_def Let_def split: option.splits prod.splits
      dest!: drain_starts elim!: starts_only_via dest: subsetD[OF running_free])

lemma reject_current_running: "reject_current w msg s = (e, s') \<Longrightarrow> running s' = running s"
  by (auto simp: reject_current_def split: option.splits)

lemma crash_starts:
  "reject_current w msg s = (e1, s1) \<Longrightarrow> replaceWorker i s1 = (e2, s2) \<Longrightarrow> starts_only s (ev # e1 @ e2) s2"
  using reject_current_running[of w msg s e1 s1] replace_starts[of i s1 e2 s2] by (auto elim!: starts_only_via)

lemma timeout_starts: "handleTimeout p s = (e, s') \<Longrightarrow> starts_only s e s'"
  by (auto simp: handleTimeout_def Let_def split: if_splits option.splits prod.splits
      dest!: replace_starts simp: starts_only_def)

lemma submit_starts: "submitTask t ty pl tm s = (e, s') \<Longrightarrow> starts_only s e s'"
  by (auto simp: submitTask_def Let_def split: if_splits option.splits prod.splits
      dest!: dispatch_starts simp: starts_only_def)

text \<open>A step extends the log and the submissions, and starts only what it dispatches.\<close>

definition extends :: "('p, 'r) pool_run \<Rightarrow> ('p, 'r) pool_run \<Rightarrow> bool" where
  "extends r r' \<longleftrightarrow> (\<exists>e us. pr_effects r' = pr_effects r @ e \<and> pr_submitted r' = pr_submitted r @ us \<and>
     starts_only (pr_pool r) e (pr_pool r'))"

lemma extends_advance: "starts_only (pr_pool r) (fst res) (snd res) \<Longrightarrow> extends r (advance res r)"
  by (auto simp: extends_def)

lemma pool_step_extends: "pool_step r r' \<Longrightarrow> extends r r'"
proof (induction rule: pool_step.induct)
  case (submit r taskId ty pl tm)
  show ?case using submit_starts[of taskId ty pl tm "pr_pool r", OF prod.collapse[symmetric]]
    by (auto simp: extends_def)
next
  case (worker_error w r err)
  show ?case by (rule extends_advance) (auto simp: handleWorkerError_def split: prod.split intro: crash_starts)
next
  case (worker_exit w r code)
  show ?case
    by (rule extends_advance) (auto simp: handleWorkerExit_def Let_def split: prod.split intro: crash_starts starts_onlyI)
next
  case (dispose_end r)
  show ?case by (rule extends_advance) (auto simp: pool_dispose_end_def intro!: starts_onlyI running_workers)
next
  case (dispose r)
  show ?case by (rule extends_advance) (auto simp: pool_dispose_def running_def intro!: starts_onlyI)
qed (rule extends_advance, rule submit_starts message_starts timeout_starts, simp)+

lemma extends_refl: "extends r r"
  by (auto simp: extends_def intro: starts_onlyI)

lemma extends_trans: "extends r1 r2 \<Longrightarrow> extends r2 r3 \<Longrightarrow> extends r1 r3"
  unfolding extends_def starts_only_def by fastforce

section \<open>Fair runs\<close>

lemma trace_reachable:
  assumes "pool_trace sz t run"
  shows "pool_reachable sz t (run n)"
proof (induction n)
  case 0
  from assms show ?case by (simp add: pool_trace_def pool_init)
next
  case (Suc n)
  with assms show ?case unfolding pool_trace_def by (metis pool_next)
qed

lemma trace_extends:
  assumes "pool_trace sz t run" and "i \<le> j"
  shows "extends (run i) (run j)"
  using assms(2)
proof (induction rule: dec_induct)
  case (step j)
  have "extends (run j) (run (Suc j))" using assms(1) extends_refl pool_step_extends unfolding pool_trace_def by metis
  with step.IH show ?case by (rule extends_trans)
qed (rule extends_refl)

text \<open>A task that was dispatched, or a disposed pool: once the task no longer runs, its promise is settled.\<close>

lemma settled_when_stopped:
  assumes ok: "pool_ok r" and u: "u \<in> set (pr_submitted r)" and stopped: "u \<notin> running (pr_pool r)"
    and D: "wp_disposed (pr_pool r) \<or> u \<in> set (dispatched (pr_effects r))"
  shows "u \<in> set (settled (pr_effects r))"
proof -
  note c = pool_coreD[OF ok[unfolded pool_ok_def]]
  have "u \<notin> set (queued (pr_pool r))"
  proof (cases "wp_disposed (pr_pool r)")
    case True
    with c(12) show ?thesis by (simp add: queued_def)
  next
    case False
    with D c(2) c(9)[OF False, symmetric] show ?thesis by auto
  qed
  with c(5,7) stopped u show ?thesis by blast
qed

text \<open>While tasks wait, every worker runs one.\<close>

lemma all_workers_run:
  assumes "pool_ok r" and "\<not> wp_disposed (pr_pool r)" and "queued (pr_pool r) \<noteq> []"
  shows "card (running (pr_pool r)) = wp_size (pr_pool r)"
proof -
  note c = pool_coreD[OF assms(1)[unfolded pool_ok_def]]
  let ?ws = "wp_workers (pr_pool r)"
  have "\<forall>w \<in> set ?ws. mw_currentTaskId w \<noteq> None"
    using c(1) c(11)[OF assms(2)] assms(3) by (auto simp: queued_def workers_ok_def worker_ok_def)
  then have "filter (\<lambda>w. mw_currentTaskId w \<noteq> None) ?ws = ?ws" by (simp add: filter_id_conv)
  then have "length (List.map_filter mw_currentTaskId ?ws) = length ?ws" by (simp add: List.map_filter_def comp_def)
  moreover have "distinct (List.map_filter mw_currentTaskId ?ws)" using c(1) by (simp add: workers_ok_def)
  ultimately show ?thesis using c(8)[OF assms(2)] by (simp add: running_def distinct_card)
qed

text \<open>From any state of a fair run in which a task waits, a further task is dispatched later on, unless the
  pool is disposed.\<close>

lemma dispatch_progress:
  assumes tr: "pool_trace sz t run" and fair: "no_task_runs_forever run"
    and i: "\<not> wp_disposed (pr_pool (run i))" "queued (pr_pool (run i)) \<noteq> []"
  shows "\<exists>j \<ge> i. wp_disposed (pr_pool (run j)) \<or>
    length (dispatched (pr_effects (run i))) < length (dispatched (pr_effects (run j)))"
proof -
  note ok = pool_reachable_ok[OF trace_reachable[OF tr]] and size = pool_reachable_size[OF trace_reachable[OF tr]]
  have full: "card (running (pr_pool (run i))) = max 1 sz" using all_workers_run[OF ok i] size by simp
  then obtain u where u: "u \<in> running (pr_pool (run i))" by (metis card.empty ex_in_conv max_def not_one_le_zero order_refl)
  with fair obtain j where j: "j \<ge> i" "u \<notin> running (pr_pool (run j))" unfolding no_task_runs_forever_def by blast
  from trace_extends[OF tr j(1)] obtain e us where e: "pr_effects (run j) = pr_effects (run i) @ e"
    "pr_submitted (run j) = pr_submitted (run i) @ us" "running (pr_pool (run j)) \<subseteq> running (pr_pool (run i)) \<union> set (dispatched e)"
    by (auto simp: extends_def starts_only_def)
  have "dispatched e \<noteq> []" if nd: "\<not> wp_disposed (pr_pool (run j))"
  proof
    assume none: "dispatched e = []"
    have D: "dispatched (pr_effects (run k)) @ queued (pr_pool (run k)) = pr_submitted (run k)" if "\<not> wp_disposed (pr_pool (run k))" for k
      using pool_coreD(9)[OF ok[unfolded pool_ok_def] that] .
    have "queued (pr_pool (run j)) = queued (pr_pool (run i)) @ us" using D[OF nd] D[OF i(1)] e(1,2) none by (simp flip: append_assoc) (metis append_assoc same_append_eq)
    then have "card (running (pr_pool (run j))) = max 1 sz" using all_workers_run[OF ok nd] i(2) size by simp
    moreover have "running (pr_pool (run j)) \<subset> running (pr_pool (run i))" using e(3) none u j(2) by auto
    moreover have "finite (running (pr_pool (run i)))" by (simp add: running_def)
    ultimately show False using full psubset_card_mono[of "running (pr_pool (run i))" "running (pr_pool (run j))"] by simp
  qed
  then show ?thesis using j(1) e(1) by (intro exI[of _ j]) auto
qed

lemma eventually_dispatched:
  assumes tr: "pool_trace sz t run" and fair: "no_task_runs_forever run"
    and k: "k < length (pr_submitted (run i))"
  shows "\<exists>j \<ge> i. wp_disposed (pr_pool (run j)) \<or> k < length (dispatched (pr_effects (run j)))"
  using k
proof (induction "Suc k - length (dispatched (pr_effects (run i)))" arbitrary: i rule: less_induct)
  case less
  note ok = pool_reachable_ok[OF trace_reachable[OF tr, of i]]
  show ?case
  proof (cases "wp_disposed (pr_pool (run i)) \<or> k < length (dispatched (pr_effects (run i)))")
    case False
    then have "queued (pr_pool (run i)) \<noteq> []"
      using pool_coreD(9)[OF ok[unfolded pool_ok_def]] less.prems by (metis append_Nil2)
    from dispatch_progress[OF tr fair _ this] False obtain j where j: "j \<ge> i"
      "wp_disposed (pr_pool (run j)) \<or> length (dispatched (pr_effects (run i))) < length (dispatched (pr_effects (run j)))" by blast
    have "k < length (pr_submitted (run j))" using trace_extends[OF tr j(1)] less.prems by (auto simp: extends_def)
    with less.hyps[of j] j False show ?thesis by (meson diff_less_mono2 le_trans less_SucI linorder_not_less)
  qed blast
qed

text \<open>C13. No task waits forever: on every run of the pool in which no worker runs one task forever, whatever
  else is submitted, times out, crashes or is disposed in between, the promise of every submitted task is
  settled at some later point of the run.\<close>

theorem every_task_settles:
  assumes "pool_trace sz t run" and "no_task_runs_forever run" and "u \<in> set (pr_submitted (run i))"
  shows "\<exists>j \<ge> i. u \<in> set (settled (pr_effects (run j)))"
proof -
  note tr = assms(1) note ok = pool_reachable_ok[OF trace_reachable[OF tr]]
  from assms(3) obtain k where k: "k < length (pr_submitted (run i))" "pr_submitted (run i) ! k = u" by (meson in_set_conv_nth)
  from eventually_dispatched[OF tr assms(2) k(1)] obtain j where j: "j \<ge> i"
    "wp_disposed (pr_pool (run j)) \<or> k < length (dispatched (pr_effects (run j)))" by blast
  have uj: "u \<in> set (pr_submitted (run j))" "pr_submitted (run j) ! k = u"
    using trace_extends[OF tr j(1)] k by (auto simp: extends_def nth_append)
  show ?thesis
  proof (cases "wp_disposed (pr_pool (run j))")
    case True
    note c = pool_coreD[OF ok[of j, unfolded pool_ok_def]]
    from c(7) c(13)[OF True] uj(1) j(1) show ?thesis by auto
  next
    case False
    with j(2) uj(2) pool_coreD(9)[OF ok[of j, unfolded pool_ok_def] False, symmetric]
    have D: "u \<in> set (dispatched (pr_effects (run j)))" by (auto simp: nth_append)
    obtain m where m: "m \<ge> j" "u \<notin> running (pr_pool (run m))" using assms(2) unfolding no_task_runs_forever_def by blast
    have "u \<in> set (dispatched (pr_effects (run m)))" "u \<in> set (pr_submitted (run m))"
      using trace_extends[OF tr m(1)] D uj(1) by (auto simp: extends_def)
    with settled_when_stopped[OF ok[of m] _ m(2)] m(1) j(1) show ?thesis by (meson le_trans)
  qed
qed

text \<open>A fair run of a pool with one worker: \<open>t1\<close> runs while \<open>t2\<close> waits, then each is answered in turn.\<close>

definition demo_first_done :: "(nat, nat) pool_run" where
  "demo_first_done = advance (handleWorkerMessage 0 (TaskSuccessResult ''t1'' 7 1) (pr_pool demo_waiting)) demo_waiting"

definition demo_both_done :: "(nat, nat) pool_run" where
  "demo_both_done = advance (handleWorkerMessage 0 (TaskErrorResult ''t2'' ''x'' 1) (pr_pool demo_first_done)) demo_first_done"

definition demo_trace :: "nat \<Rightarrow> (nat, nat) pool_run" where
  "demo_trace n = (if n < 4 then [demo_idle, demo_busy, demo_waiting, demo_first_done] ! n else demo_both_done)"

lemmas trace_eval = pool_eval demo_both_done_def demo_first_done_def

lemma demo_trace_steps: "pool_trace 1 None demo_trace"
proof -
  have 1: "pool_step demo_idle demo_busy"
    unfolding demo_busy_def by (rule pool_step.submit) (simp_all add: pool_eval)
  have 2: "pool_step demo_busy demo_waiting"
    unfolding demo_waiting_def by (rule pool_step.submit) (simp_all add: pool_eval)
  have "\<lparr>mw_id = 0, mw_busy = True, mw_currentTaskId = Some ''t1''\<rparr> \<in> set (wp_workers (pr_pool demo_waiting))"
    by (simp add: pool_eval)
  from pool_step.message[OF this, of "TaskSuccessResult ''t1'' 7 1"] have 3: "pool_step demo_waiting demo_first_done"
    unfolding demo_first_done_def by simp
  have "\<lparr>mw_id = 0, mw_busy = True, mw_currentTaskId = Some ''t2''\<rparr> \<in> set (wp_workers (pr_pool demo_first_done))"
    by (simp add: trace_eval)
  from pool_step.message[OF this, of "TaskErrorResult ''t2'' ''x'' 1"] have 4: "pool_step demo_first_done demo_both_done"
    unfolding demo_both_done_def by simp
  have "demo_trace (Suc n) = demo_trace n \<or> pool_step (demo_trace n) (demo_trace (Suc n))" for n
  proof -
    consider "n = 0" | "n = 1" | "n = 2" | "n = 3" | "n \<ge> 4" by linarith
    then show ?thesis using 1 2 3 4 by cases (simp_all add: demo_trace_def)
  qed
  moreover have "demo_trace 0 = new_run 1 None" by (simp add: demo_trace_def demo_idle_def)
  ultimately show ?thesis by (simp add: pool_trace_def)
qed

theorem every_task_settles_witness: "\<exists>j \<ge> 2. ''t2'' \<in> set (settled (pr_effects (demo_trace j)))"
proof -
  have "running (pr_pool demo_both_done) = {}" by (simp add: trace_eval running_def List.map_filter_simps)
  then have "u \<notin> running (pr_pool (demo_trace (n + 4)))" for n u by (simp add: demo_trace_def)
  then have "no_task_runs_forever demo_trace" unfolding no_task_runs_forever_def by (meson le_add1)
  moreover have "''t2'' \<in> set (pr_submitted (demo_trace 2))" by (simp add: demo_trace_def pool_eval)
  ultimately show ?thesis by (rule every_task_settles[OF demo_trace_steps])
qed

end
