(* ===== verification/Handlers.thy ===== *)
theory Handlers
  imports WorkerPool Replication
begin

text \<open>
  The worker thread's handler registry (\<open>workers/handlers/registry.ts\<close>, \<open>workers/handlers/index.ts\<close>), the
  four built-in task types it is filled with, and the replication encoder
  (\<open>replicationEncodeHandler.ts\<close>).  The theorem shows that a worker answers every built-in task with
  its handler's result and every other task with an error.
\<close>

section \<open>registry.ts\<close>

definition registerHandler :: "string \<Rightarrow> 'h \<Rightarrow> (string, 'h) js_map \<Rightarrow> (string, 'h) js_map result" where
  "registerHandler type handler handlers =
     (if js_has handlers type then Inl (PlainError (''A task handler is already registered for type '' @ quoted type))
      else Inr (js_set type handler handlers))"

definition getHandler :: "(string, 'h) js_map \<Rightarrow> string \<Rightarrow> 'h option" where
  "getHandler handlers type = js_get handlers type"

definition registeredTaskTypes :: "(string, 'h) js_map \<Rightarrow> string list" where
  "registeredTaskTypes handlers = js_keys handlers"

section \<open>TaskTypes.ts and handlers/index.ts\<close>

text \<open>The built-in task types in the order in which \<open>index.ts\<close> imports their modules.\<close>

definition BUILT_IN :: "string list" where
  "BUILT_IN = [''snapshot:serialize'', ''replication:encode'', ''cleanup:find-expired'', ''benchmark:execute-ops'']"

fun register_all :: "(string \<times> 'h) list \<Rightarrow> (string, 'h) js_map \<Rightarrow> (string, 'h) js_map result" where
  "register_all [] handlers = Inr handlers"
| "register_all ((type, h) # rest) handlers =
     (case registerHandler type h handlers of Inl e \<Rightarrow> Inl e | Inr handlers' \<Rightarrow> register_all rest handlers')"

section \<open>replicationEncodeHandler.ts\<close>

record 'b ReplicationEncodeResult =
  re_buffer :: 'b
  re_sizeBytes :: nat
  re_eventCount :: nat

text \<open>\<open>JSON.stringify\<close> into a buffer, \<open>gzipSync\<close> and the buffer's length are parameters.\<close>

definition replicationEncodeHandler :: "('v ReplicationEvent list \<Rightarrow> 'b) \<Rightarrow> ('b \<Rightarrow> 'b) \<Rightarrow> ('b \<Rightarrow> nat) \<Rightarrow>
    'v ReplicationEvent list \<Rightarrow> bool \<Rightarrow> 'b ReplicationEncodeResult" where
  "replicationEncodeHandler stringify gzip byteLength events compress =
     (let serialized = stringify events;
          buffer = (if compress then gzip serialized else serialized)
      in \<lparr>re_buffer = buffer, re_sizeBytes = byteLength buffer, re_eventCount = length events\<rparr>)"

text \<open>What a receiver that knows whether the batch was compressed gets back.\<close>

lemma replicationEncode_roundtrip:
  assumes "\<And>es. parse (stringify es) = Some es" and "\<And>b. gunzip (gzip b) = b"
  shows "parse ((if compress then gunzip else id) (re_buffer (replicationEncodeHandler stringify gzip byteLength events compress))) =
    Some events"
  using assms by (simp add: replicationEncodeHandler_def Let_def)

section \<open>Registration\<close>

lemma register_all_keys:
  assumes "register_all hs handlers = Inr handlers'"
  shows "js_keys handlers' = js_keys handlers @ map fst hs \<and>
    (\<forall>t. js_get handlers' t = (case js_get handlers t of Some h \<Rightarrow> Some h | None \<Rightarrow> map_of hs t))"
  using assms
proof (induction hs handlers rule: register_all.induct)
  case (2 type h rest handlers)
  from 2(2) have new: "js_get handlers type = None"
    and rest: "register_all rest (js_set type h handlers) = Inr handlers'"
    by (auto simp: registerHandler_def js_has_def split: if_splits)
  have "type \<notin> fst ` set handlers" using new by (simp add: map_of_eq_None_iff)
  then show ?case using 2(1)[OF _ rest] new
    by (auto simp: registerHandler_def js_has_def js_set_new js_map_simps split: option.splits)
qed (simp split: option.splits)

lemma register_all_distinct:
  "distinct (map fst hs) \<Longrightarrow> \<forall>t \<in> set (map fst hs). js_get handlers t = None \<Longrightarrow> \<exists>handlers'. register_all hs handlers = Inr handlers'"
proof (induction hs handlers rule: register_all.induct)
  case (2 type h rest handlers)
  then have "\<forall>t \<in> set (map fst rest). js_get (js_set type h handlers) t = None" by (auto simp: js_map_simps)
  with 2 show ?case by (simp add: registerHandler_def js_has_def
        split: sum.split)
qed simp

text \<open>A worker knows exactly the built-in tasks: whatever the four handlers are, importing the handler
  modules succeeds and registers the four task types in order; the worker answers a request of one of
  them with that handler's result or error and a request of any other type with an error; and
  registering a built-in type again is refused.\<close>

theorem worker_knows_built_in_tasks:
  "\<exists>handlers. register_all (zip BUILT_IN [h1, h2, h3, h4]) [] = Inr handlers \<and> registeredTaskTypes handlers = BUILT_IN \<and>
     (\<forall>i < 4. worker_answer (getHandler handlers) message d \<lparr>tr_taskId = t, tr_type = BUILT_IN ! i, tr_payload = p\<rparr> =
        (case ([h1, h2, h3, h4] ! i) p of Inr v \<Rightarrow> TaskSuccessResult t v d | Inl e \<Rightarrow> TaskErrorResult t (message e) d)) \<and>
     (type \<notin> set BUILT_IN \<longrightarrow> worker_answer (getHandler handlers) message d \<lparr>tr_taskId = t, tr_type = type, tr_payload = p\<rparr> =
        TaskErrorResult t (''No task handler registered for type '' @ quoted type) d) \<and>
     (type \<in> set BUILT_IN \<longrightarrow> (\<exists>e. registerHandler type h handlers = Inl e))"
proof -
  let ?hs = "zip BUILT_IN [h1, h2, h3, h4]"
  have types: "map fst ?hs = BUILT_IN" "distinct BUILT_IN" by (simp_all add: BUILT_IN_def)
  then obtain handlers where r: "register_all ?hs [] = Inr handlers"
    using register_all_distinct[of ?hs "[]"] by auto
  note k = register_all_keys[OF r]
  have get: "getHandler handlers t = map_of ?hs t" for t using k by (simp add: getHandler_def)
  have each: "getHandler handlers (BUILT_IN ! i) = Some ([h1, h2, h3, h4] ! i)" if "i < 4" for i
    unfolding get by (rule map_of_zip_nth) (use that types(2) in \<open>simp_all add: BUILT_IN_def\<close>)
  have none: "getHandler handlers type = None" if "type \<notin> set BUILT_IN"
    unfolding get using that by (simp add: map_of_eq_None_iff BUILT_IN_def)
  have some: "js_get handlers type \<noteq> None" if "type \<in> set BUILT_IN"
    using k that types(1) by (simp add: map_of_eq_None_iff) (metis image_eqI image_set list.set_map)
  show ?thesis
    using r k types(1) each none some
    by (intro exI[of _ handlers]) (simp add: registeredTaskTypes_def worker_answer_def registerHandler_def js_has_def
        split: sum.split)
qed

end
