(* ===== verification/Identifiers.thy ===== *)
theory Identifiers
  imports Shared
begin

text \<open>
  The identifiers of \<open>packages/shared/src/utils.ts\<close>: \<open>generateId\<close> with its process-wide counter.  Task,
  event and snapshot identifiers come from it, and the worker pool and the replication engine rely on
  them being fresh.  The theorem shows that one process never produces the same identifier twice before
  its counter wraps.
\<close>

text \<open>\<open>Number.prototype.toString(36)\<close> of a non-negative integer.\<close>

definition digit36 :: "nat \<Rightarrow> char" where
  "digit36 d = char_of (if d < 10 then 48 + d else 87 + d)"

fun show36 :: "nat \<Rightarrow> string" where
  "show36 n = (if n < 36 then [digit36 n] else show36 (n div 36) @ [digit36 (n mod 36)])"

declare show36.simps [simp del]

definition MAX_SAFE_INTEGER :: nat where "MAX_SAFE_INTEGER = 2 ^ 53 - 1"

text \<open>\<open>generateId\<close>: \<open>counter\<close> is the module's variable, \<open>now\<close> the clock in milliseconds since 1970 and
  \<open>rand\<close> the radix-36 text of the drawn number, of which six characters after the point are kept.\<close>

definition generateId :: "string \<Rightarrow> nat \<Rightarrow> string \<Rightarrow> nat \<Rightarrow> string \<times> nat" where
  "generateId prefix now randText counter =
     (let counter' = (counter + 1) mod MAX_SAFE_INTEGER;
          rand = take 6 (drop 2 randText)
      in (prefix @ ''_'' @ show36 now @ ''_'' @ show36 counter' @ ''_'' @ rand, counter'))"

text \<open>A run of calls, each with its prefix, clock reading and random text.\<close>

fun generateIds :: "(string \<times> nat \<times> string) list \<Rightarrow> nat \<Rightarrow> string list" where
  "generateIds [] counter = []"
| "generateIds ((prefix, now, randText) # calls) counter =
     (let (i, counter') = generateId prefix now randText counter in i # generateIds calls counter')"

section \<open>Radix 36\<close>

definition digit36_value :: "char \<Rightarrow> nat" where
  "digit36_value c = (let n = of_char c in if n < 58 then n - 48 else n - 87)"

lemma digit36_value [simp]: "d < 36 \<Longrightarrow> digit36_value (digit36 d) = d"
  by (simp add: digit36_value_def digit36_def Let_def of_char_of)

lemma digit36_not_sep: "d < 36 \<Longrightarrow> digit36 d \<noteq> CHR ''_''"
proof
  assume d: "d < 36" "digit36 d = CHR ''_''"
  then have "(of_char (digit36 d) :: nat) = 95" by simp
  then show False using d(1) by (simp add: digit36_def of_char_of split: if_splits)
qed

definition value36 :: "string \<Rightarrow> nat" where
  "value36 ds = foldl (\<lambda>n c. 36 * n + digit36_value c) 0 ds"

lemma value36_show [simp]: "value36 (show36 n) = n"
proof (induction n rule: show36.induct)
  case (1 n)
  show ?case
  proof (cases "n < 36")
    case True
    then show ?thesis by (simp add: show36.simps[of n] value36_def)
  next
    case False
    have "value36 (show36 n) = 36 * value36 (show36 (n div 36)) + n mod 36"
      using False by (subst show36.simps) (simp add: value36_def)
    with 1 False show ?thesis by simp
  qed
qed

lemma show36_no_sep: "CHR ''_'' \<notin> set (show36 n)"
proof (induction n rule: show36.induct)
  case (1 n)
  show ?case using 1 digit36_not_sep[of "n mod 36"] digit36_not_sep[of n]
    by (subst show36.simps) auto
qed

section \<open>Uniqueness\<close>

text \<open>The counter is the part between the last two separators.\<close>

definition counter_part :: "string \<Rightarrow> string" where
  "counter_part i = rev (takeWhile (\<lambda>c. c \<noteq> CHR ''_'') (tl (dropWhile (\<lambda>c. c \<noteq> CHR ''_'') (rev i))))"

lemma counter_part_id:
  assumes "CHR ''_'' \<notin> set r" "CHR ''_'' \<notin> set c"
  shows "counter_part (p @ ''_'' @ c @ ''_'' @ r) = c"
proof -
  have "dropWhile (\<lambda>x. x \<noteq> CHR ''_'') (rev r @ [CHR ''_''] @ rest) = [CHR ''_''] @ rest" for rest
    using assms(1) by (subst dropWhile_append2) auto
  moreover have "takeWhile (\<lambda>x. x \<noteq> CHR ''_'') (rev c @ [CHR ''_''] @ rest) = rev c" for rest
    using assms(2) by (subst takeWhile_append2) auto
  ultimately show ?thesis by (simp add: counter_part_def)
qed

lemma generateIds_counters:
  assumes "\<forall>(p, now, r) \<in> set calls. CHR ''_'' \<notin> set r" "counter < MAX_SAFE_INTEGER"
  shows "map (value36 \<circ> counter_part) (generateIds calls counter) =
    map (\<lambda>k. (counter + k) mod MAX_SAFE_INTEGER) [1..<Suc (length calls)]"
  using assms
proof (induction calls arbitrary: counter)
  case (Cons x calls)
  obtain p now r where x: "x = (p, now, r)" by (metis prod_cases3)
  let ?c = "(counter + 1) mod MAX_SAFE_INTEGER"
  have r: "CHR ''_'' \<notin> set (take 6 (drop 2 r))" using Cons.prems(1) by (auto simp: x dest: in_set_takeD in_set_dropD)
  have "value36 (counter_part ((p @ ''_'' @ show36 now) @ ''_'' @ show36 ?c @ ''_'' @ take 6 (drop 2 r))) = ?c"
    by (simp only: counter_part_id[OF r show36_no_sep] value36_show)
  moreover have "?c < MAX_SAFE_INTEGER" by (simp add: MAX_SAFE_INTEGER_def)
  moreover have "map (\<lambda>k. (?c + k) mod MAX_SAFE_INTEGER) [1..<Suc (length calls)] =
    map (\<lambda>k. (counter + k) mod MAX_SAFE_INTEGER) [2..<Suc (Suc (length calls))]"
    by (intro nth_equalityI) (auto simp: mod_simps ac_simps simp del: upt_Suc)
  ultimately show ?case using Cons.IH[of ?c] Cons.prems(1)
    by (simp add: x generateId_def Let_def upt_conv_Cons numeral_2_eq_2 del: upt_Suc)
qed simp

text \<open>C40. One process never produces the same identifier twice in a row of \<open>2^53 - 1\<close> calls, whatever the
  prefixes, the clock (which may stand still or step back) and the random numbers, as long as the printed
  random numbers hold no underscore.\<close>

theorem generated_ids_distinct:
  assumes "list_all (\<lambda>(p, now, r). CHR ''_'' \<notin> set r) calls" and "counter < MAX_SAFE_INTEGER"
    and "length calls \<le> MAX_SAFE_INTEGER"
  shows "distinct (generateIds calls counter)"
proof -
  have "inj_on (\<lambda>k. (counter + k) mod MAX_SAFE_INTEGER) {1..<Suc (length calls)}"
  proof (rule linorder_inj_onI)
    fix j k assume "j < k" "j \<in> {1..<Suc (length calls)}" "k \<in> {1..<Suc (length calls)}"
    then have "0 < k - j" "k - j < MAX_SAFE_INTEGER" using assms(3) by auto
    then have "\<not> MAX_SAFE_INTEGER dvd k - j" by (auto dest: dvd_imp_le)
    then show "(counter + j) mod MAX_SAFE_INTEGER \<noteq> (counter + k) mod MAX_SAFE_INTEGER"
      using \<open>j < k\<close> by (metis add_diff_cancel_left mod_eq_dvd_iff_nat nat_less_le add_le_cancel_left)
  qed auto
  then have "distinct (map (\<lambda>k. (counter + k) mod MAX_SAFE_INTEGER) [1..<Suc (length calls)])"
    by (simp add: distinct_map del: upt_Suc)
  then have "distinct (map (value36 \<circ> counter_part) (generateIds calls counter))"
    using generateIds_counters[OF _ assms(2), of calls] assms(1) by (simp add: list_all_iff del: upt_Suc)
  then show ?thesis by (simp add: distinct_map)
qed

theorem generated_ids_distinct_witness:
  "generateIds [(''task'', 1000, ''0.4fzyo82m''), (''task'', 1000, ''0.4fzyo82m'')] 34 =
     [''task_rs_z_4fzyo8'', ''task_rs_10_4fzyo8''] \<and>
   distinct (generateIds [(''task'', 1000, ''0.4fzyo82m''), (''task'', 1000, ''0.4fzyo82m'')] 34)"
proof
  show "distinct (generateIds [(''task'', 1000, ''0.4fzyo82m''), (''task'', 1000, ''0.4fzyo82m'')] 34)"
    by (rule generated_ids_distinct) (simp_all add: MAX_SAFE_INTEGER_def)
qed (simp add: generateId_def Let_def MAX_SAFE_INTEGER_def show36.simps digit36_def, code_simp)

end
