(* ===== verification/Lifecycle.thy ===== *)
theory Lifecycle
  imports NodeData
begin

text \<open>
  Starting a node with retries (\<open>index.ts\<close>): how long it can take, and what a failed attempt leaves on
  disk for the next one.
\<close>

section \<open>The retry loop\<close>

definition after_attempts :: "(nat \<Rightarrow> 'w \<Rightarrow> 's result \<times> 'w) \<Rightarrow> nat \<Rightarrow> nat \<Rightarrow> 'w \<Rightarrow> 'w" where
  "after_attempts run lo hi w = fold (\<lambda>a w. snd (run a w)) [lo..<hi] w"

lemma start_attempts_over: "MAX_START_ATTEMPTS < a \<Longrightarrow> start_attempts run err a w = (Inl err, [], w)"
  by (subst start_attempts.simps) simp

lemma start_attempts_success:
  "a \<le> MAX_START_ATTEMPTS \<Longrightarrow> run a w = (Inr server, w1) \<Longrightarrow> start_attempts run err a w = (Inr server, [], w1)"
  by (subst start_attempts.simps) simp

lemma start_attempts_failure:
  "a \<le> MAX_START_ATTEMPTS \<Longrightarrow> run a w = (Inl e, w1) \<Longrightarrow> start_attempts run e (a + 1) w1 = (res, delays, w2) \<Longrightarrow>
     start_attempts run err a w =
       (res, if a < MAX_START_ATTEMPTS then START_RETRY_BASE_DELAY_MS * 2 ^ (a - 1) # delays else delays, w2)"
  by (subst start_attempts.simps) simp

lemma start_attempts_run:
  assumes "1 \<le> a" and "a \<le> MAX_START_ATTEMPTS"
  shows "\<exists>k res w' delays. start_attempts run err a w = (res, delays, w') \<and> a \<le> k \<and> k \<le> MAX_START_ATTEMPTS \<and>
    list_all (\<lambda>j. isl (fst (run j (after_attempts run a j w)))) [a..<k] \<and>
    delays = map (\<lambda>j. START_RETRY_BASE_DELAY_MS * 2 ^ (j - 1)) [a..<k] \<and>
    (res, w') = run k (after_attempts run a k w) \<and> (k = MAX_START_ATTEMPTS \<or> (\<exists>server. res = Inr server))"
  using assms
proof (induction run err a w rule: start_attempts.induct)
  case (1 run err a w)
  obtain res w1 where t: "run a w = (res, w1)" by (cases "run a w")
  have here: "after_attempts run a a w = w" by (simp add: after_attempts_def)
  show ?case
  proof (cases res)
    case (Inr server)
    then show ?thesis using 1(3) t here
      by (intro exI[of _ a]) (simp add: start_attempts_success)
  next
    case (Inl e)
    show ?thesis
    proof (cases "a = MAX_START_ATTEMPTS")
      case True
      then have "start_attempts run err a w = (Inl e, [], w1)"
        using start_attempts_failure[of a run w e w1, OF _ _ start_attempts_over] t Inl by simp
      then show ?thesis using True t Inl here by (intro exI[of _ a]) simp
    next
      case False
      then have lt: "a < MAX_START_ATTEMPTS" using 1(3) by simp
      obtain k res' w' delays where k: "start_attempts run e (a + 1) w1 = (res', delays, w')" "a + 1 \<le> k" "k \<le> MAX_START_ATTEMPTS"
        "list_all (\<lambda>j. isl (fst (run j (after_attempts run (a + 1) j w1)))) [a + 1..<k]"
        "delays = map (\<lambda>j. START_RETRY_BASE_DELAY_MS * 2 ^ (j - 1)) [a + 1..<k]"
        "(res', w') = run k (after_attempts run (a + 1) k w1)" "k = MAX_START_ATTEMPTS \<or> (\<exists>server. res' = Inr server)"
        using 1(1)[OF 1(3) t[symmetric] Inl] lt by auto
      have later: "after_attempts run a j w = after_attempts run (a + 1) j w1" if "a < j" for j
        using that t by (simp add: after_attempts_def upt_rec[of a])
      have "list_all (\<lambda>j. isl (fst (run j (after_attempts run a j w)))) [a..<k]"
        using k(2,4) t Inl here later by (auto simp: upt_rec[of a k] list_all_iff)
      moreover have "start_attempts run err a w = (res', map (\<lambda>j. START_RETRY_BASE_DELAY_MS * 2 ^ (j - 1)) [a..<k], w')"
        using start_attempts_failure[OF _ _ k(1), of w err] t Inl lt k(2,5) by (simp add: upt_rec[of a k])
      ultimately show ?thesis using k(2,3,6,7) later[of k] by (intro exI[of _ k]) auto
    qed
  qed
qed

text \<open>C25. Starting with retries ends: after at most five attempts, made one after the other on what the
  previous one left, with delays of one, two, four and eight seconds in between (fifteen seconds at
  most); every attempt but the last failed, and the result is that of the last attempt, which is a
  success or the fifth.\<close>

theorem startWithRetry_ends:
  "\<exists>k res delays w'. startWithRetry run w = (res, delays, w') \<and> k \<in> {1..5} \<and>
    list_all (\<lambda>j. isl (fst (run j (after_attempts run 1 j w)))) [1..<k] \<and>
    delays = take (k - 1) [1000, 2000, 4000, 8000] \<and> sum_list delays \<le> 15000 \<and>
    (res, w') = run k (after_attempts run 1 k w) \<and> (k = 5 \<or> (\<exists>server. res = Inr server))"
proof -
  obtain k res w' delays where k: "startWithRetry run w = (res, delays, w')" "1 \<le> k" "k \<le> 5"
    "list_all (\<lambda>j. isl (fst (run j (after_attempts run 1 j w)))) [1..<k]"
    "delays = map (\<lambda>j. 1000 * 2 ^ (j - 1)) [1..<k]"
    "(res, w') = run k (after_attempts run 1 k w)" "k = 5 \<or> (\<exists>server. res = Inr server)"
    using start_attempts_run[of 1 run "PlainError ''undefined''" w]
    by (auto simp: startWithRetry_def MAX_START_ATTEMPTS_def START_RETRY_BASE_DELAY_MS_def)
  consider "k = 1" | "k = 2" | "k = 3" | "k = 4" | "k = 5" using k(2,3) by linarith
  then have "delays = take (k - 1) [1000, 2000, 4000, 8000]"
    unfolding k(5) by cases (simp_all add: upt_conv_Cons)
  moreover from this have "sum_list delays \<le> 15000" using k(3) by (simp add: take_Cons split: nat.split)
  ultimately show ?thesis using k by (intro exI[of _ k] exI[of _ res] exI[of _ delays] exI[of _ w']) simp
qed

section \<open>What a failed start leaves behind\<close>

lemma restoreLatest_corrupt:
  assumes "file_ok d" and "file_latest d = Some p" and "file_snaps d (md_snapshotId p) = Some s"
    and "co_sha256 c (sp_buffer s) \<noteq> md_checksum (sp_metadata s)"
  shows "\<exists>e. restoreLatest FileSnapshotStore c m d = Inl e"
proof -
  have "VALID_SNAPSHOT_ID (md_snapshotId p)" using files.store_ids[OF assms(1,3)] by simp
  then have "ss_read FileSnapshotStore (md_snapshotId p) d = Inr s" using files.store_read[OF assms(1)] assms(3) by fastforce
  then show ?thesis unfolding files.restoreLatest_eq[OF assms(1)] assms(2) using assms(4)
    by (simp add: restoreById_def Let_def)
qed

lemma recover_failed:
  "recover js t t' (Inl e) n = (report, n') \<Longrightarrow>
     (\<exists>x. assertHealthy report = Inl x) \<and> n' = recover_begin n \<and> storage_entries (cn_storage n') = []"
  by (auto simp: recover_def recover_end_def assertHealthy_def recover_begin_def storage_clear_def storage_entries_def)

text \<open>C28. A corrupted latest snapshot is replaced by an empty one.  The first attempt finds the checksum
  wrong and fails, as \<open>assertHealthy\<close> intends, but \<open>startWithRetry\<close> stops the failed server, and
  \<open>stop\<close> takes its final snapshot of the storage that recovery has just cleared: the latest pointer now
  names a valid snapshot without entries, and the second attempt starts the node empty after one
  second, although intact older snapshots may still be on disk.\<close>

theorem failed_start_discards_data:
  assumes "codec_ok c" and "file_ok d" and "file_latest d = Some p" and "file_snaps d (md_snapshotId p) = Some s"
    and "co_sha256 c (sp_buffer s) \<noteq> md_checksum (sp_metadata s)"
    and "VALID_SNAPSHOT_ID (i 1)" and "subscribed 2 = Inr ()"
    and "\<And>j s. file_snaps d j = Some s \<Longrightarrow> j \<noteq> i 1 \<Longrightarrow> md_createdAt (sp_metadata s) < t 1"
  shows "\<exists>n d' md. startWithRetry (start_attempt js FileSnapshotStore c settings i t subscribed) d = (Inr n, [1000], d') \<and>
    cn_listening n \<and> se_store (cn_storage n) = [] \<and>
    restoreLatest FileSnapshotStore c (cn_snapshotManager n) d' = Inr (Some \<lparr>pl_metadata = md, pl_entries = []\<rparr>)"
proof -
  let ?run = "start_attempt js FileSnapshotStore c settings i t subscribed"
  obtain eff1 n1 where new1: "new_CacheNodeServer settings (t 1) = Inr (eff1 :: ('a worker_payload, 'b worker_result) pool_effect list, n1)"
    by (rule new_CacheNodeServer_some)
  obtain eff2 n2 where new2: "new_CacheNodeServer settings (t 2) = Inr (eff2 :: ('a worker_payload, 'b worker_result) pool_effect list, n2)"
    by (rule new_CacheNodeServer_some)
  obtain e where bad: "restoreLatest FileSnapshotStore c (cn_snapshotManager n1) d = Inl e"
    using restoreLatest_corrupt[OF assms(2-5)] by blast
  obtain report n1' where rec: "recover js (t 1) (t 1) (Inl e) n1 = (report, n1')" by fastforce
  from recover_failed[OF rec] obtain x where x: "assertHealthy report = Inl x" "n1' = recover_begin n1" "storage_entries (cn_storage n1') = []" by blast
  let ?m = "sm_stop (cn_snapshotManager n1')"
  have m: "\<not> sm_snapshotInProgress ?m" "0 < sm_maxRetained ?m"
    by (simp_all add: x(2) recover_begin_def new_CacheNodeServer_fields(4)[OF new1] new_SnapshotManager_def sm_stop_def)
  obtain md d' where take: "takeSnapshot FileSnapshotStore (serialize_inline c) (co_byteLength c) (t 1) (t 1) (i 1) [] ?m d = (Inr md, ?m, d')"
    and rest: "restoreLatest FileSnapshotStore c ?m d' = Inr (Some \<lparr>pl_metadata = md, pl_entries = []\<rparr>)"
    using files.take_then_restore[OF assms(2,6,1) m, of "t 1" "t 1" "[]"] assms(8) by blast
  have run1: "?run 1 d = (Inl x, d')"
    by (simp add: start_attempt_def new1 bad node_start_def rec x(1) node_stop_def node_stop_snapshot_def node_takeSnapshot_def pool_serialize_inline x(3) take
        Let_def case_prod_unfold del: One_nat_def)
  obtain n where start2: "node_start js (t 2) (t 2) (Inr (Some \<lparr>pl_metadata = md, pl_entries = []\<rparr>)) (Inr ()) n2 = (Inr (), n)"
    and n: "cn_listening n" "se_store (cn_storage n) = []"
    using new_CacheNodeServer_fields(5)[OF new2]
    by (simp add: node_start_def recover_def recover_end_def assertHealthy_def startBackgroundCleanup_def recover_begin_def storage_clear_def)
  have "?run 2 d' = (Inr n, d')"
    by (simp add: start_attempt_def new2 restoreLatest_manager[OF rest] start2 assms(7))
  then have "start_attempts ?run x (1 + 1) d' = (Inr n, [], d')"
    by (intro start_attempts_success) (simp_all add: MAX_START_ATTEMPTS_def numeral_2_eq_2)
  from start_attempts_failure[OF _ run1 this] have "startWithRetry ?run d = (Inr n, [1000], d')"
    by (simp add: startWithRetry_def MAX_START_ATTEMPTS_def START_RETRY_BASE_DELAY_MS_def)
  with n restoreLatest_manager[OF rest] show ?thesis by blast
qed

lemma corrupt_directory:
  obtains d :: "nat CacheEntry list directory" and p where "file_ok d" and "file_latest d = Some p" and "md_snapshotId p = ''snap_1''" and "md_checksum p = ''bad''" and "md_createdAt p = 5"
    and "file_snaps d = [''snap_1'' \<mapsto> \<lparr>sp_metadata = p, sp_buffer = []\<rparr>]"
proof -
  let ?p = "demo_metadata\<lparr>md_checksum := ''bad''\<rparr>"
  have p: "md_snapshotId ?p = ''snap_1''" "md_createdAt ?p = 5" by (simp_all add: demo_metadata_def snapshot_metadata_def)
  have v: "VALID_SNAPSHOT_ID (md_snapshotId ?p)" unfolding p(1) by (rule demo_id_valid)
  obtain d :: "nat CacheEntry list directory" where d: "file_ok d" "file_snaps d = (file_snaps [])(md_snapshotId ?p := Some \<lparr>sp_metadata = ?p, sp_buffer = []\<rparr>)"
    using files.store_write[OF empty_directory_ok(1) v, of "[]"] by blast
  from files.store_pointer[OF d(1) v] d(2) p show ?thesis
    by (intro that[of "ss_writeLatestPointer FileSnapshotStore ?p d" ?p]) (simp_all add: fun_upd_def empty_directory_ok(2) cong: if_cong)
qed

theorem failed_start_discards_data_witness:
  "\<exists>d n d' md. (\<exists>e. restoreLatest FileSnapshotStore demo_codec demo_manager d = Inl e) \<and>
     startWithRetry (start_attempt nat_json FileSnapshotStore demo_codec demo_settings (\<lambda>_. ''snap_2'') (\<lambda>a. int a + 9) (\<lambda>_. Inr ())) d =
       (Inr n, [1000], d') \<and>
     restoreLatest FileSnapshotStore demo_codec (cn_snapshotManager n) d' = Inr (Some \<lparr>pl_metadata = md, pl_entries = []\<rparr>)"
proof -
  obtain d :: "nat CacheEntry list directory" and p where d: "file_ok d" "file_latest d = Some p" and p: "md_snapshotId p = ''snap_1''"
    "md_checksum p = ''bad''" "md_createdAt p = 5" and snaps: "file_snaps d = [''snap_1'' \<mapsto> \<lparr>sp_metadata = p, sp_buffer = []\<rparr>]"
    by (rule corrupt_directory)
  have s: "file_snaps d (md_snapshotId p) = Some \<lparr>sp_metadata = p, sp_buffer = []\<rparr>" by (simp add: snaps p(1))
  have bad: "co_sha256 demo_codec (sp_buffer \<lparr>sp_metadata = p, sp_buffer = []\<rparr>) \<noteq> md_checksum (sp_metadata \<lparr>sp_metadata = p, sp_buffer = []\<rparr>)"
    by (simp add: demo_codec_def p(2))
  have v: "VALID_SNAPSHOT_ID ((\<lambda>_. ''snap_2'') (1::nat))" by (simp add: VALID_SNAPSHOT_ID_def id_char_def)
  have old: "file_snaps d j = Some x \<Longrightarrow> j \<noteq> (\<lambda>_. ''snap_2'') (1::nat) \<Longrightarrow> md_createdAt (sp_metadata x) < (\<lambda>a. int a + 9) 1" for j x
    by (auto simp: snaps p(3) split: if_splits)
  from failed_start_discards_data[where i = "\<lambda>_. ''snap_2''" and t = "\<lambda>a. int a + 9" and subscribed = "\<lambda>_. Inr ()" and js = nat_json
      and settings = demo_settings, OF demo_codec_ok d s bad v refl old]
    restoreLatest_corrupt[OF d s bad, of demo_manager]
  show ?thesis by fastforce
qed

end
