(* ===== verification/HealthCycle.thy ===== *)
theory HealthCycle
  imports Gateway
begin

text \<open>
  A whole polling cycle of \<open>NodeHealthTracker.ts\<close>: \<open>pollAll\<close> asks every node of the ring at once and the
  answers arrive in any order.  The theorem shows that the order does not matter: each node's status
  and miss count after the cycle follow from its own answer.
\<close>

text \<open>\<open>answer\<close> gives a node's answer and the time it arrived, \<open>arrival\<close> the order in which the polls that
  were started together complete.\<close>

definition pollAll :: "HealthOptions \<Rightarrow> (NodeInfo \<Rightarrow> time \<times> string result) \<Rightarrow> (NodeInfo list \<Rightarrow> NodeInfo list) \<Rightarrow>
    GatewayServer \<Rightarrow> GatewayServer" where
  "pollAll opts answer arrival g =
     fold (\<lambda>node. pollOne opts (fst (answer node)) node (snd (answer node))) (arrival (getPhysicalNodes (gw_ring g))) g"

text \<open>\<open>start\<close>: a second call does nothing; the first sets the timer and polls at once.\<close>

definition health_start :: "HealthOptions \<Rightarrow> (NodeInfo \<Rightarrow> time \<times> string result) \<Rightarrow> (NodeInfo list \<Rightarrow> NodeInfo list) \<Rightarrow>
    GatewayServer \<Rightarrow> GatewayServer" where
  "health_start opts answer arrival g =
     (if ht_timer (gw_tracker g) then g else pollAll opts answer arrival (tracker_start g))"

section \<open>start and stop of GatewayServer.ts\<close>

text \<open>The server process: the gateway and whether its HTTP server object exists (it is never set back to
  \<open>null\<close>).\<close>

record gateway_process =
  gp_gateway :: GatewayServer
  gp_httpServer :: bool

definition gateway_start :: "HealthOptions \<Rightarrow> (NodeInfo \<Rightarrow> time \<times> string result) \<Rightarrow> (NodeInfo list \<Rightarrow> NodeInfo list) \<Rightarrow>
    gateway_process \<Rightarrow> gateway_process" where
  "gateway_start opts answer arrival p =
     p\<lparr>gp_gateway := health_start opts answer arrival (gp_gateway p), gp_httpServer := True\<rparr>"

text \<open>\<open>outcome\<close> is what the callback of \<open>close\<close> reports.\<close>

definition gateway_stop :: "unit result \<Rightarrow> gateway_process \<Rightarrow> unit result \<times> gateway_process" where
  "gateway_stop outcome p =
     (let p' = p\<lparr>gp_gateway := tracker_stop (gp_gateway p)\<rparr>
      in (if gp_httpServer p then outcome else Inr (), p'))"

text \<open>Starting twice polls once: until the tracker is stopped, a second \<open>start\<close> leaves the gateway alone.\<close>

lemma start_idempotent:
  assumes "\<not> ht_timer (gw_tracker (gp_gateway p))"
  shows "gateway_start opts2 answer2 arrival2 (gateway_start opts answer arrival p) = gateway_start opts answer arrival p"
proof -
  have "ht_timer (gw_tracker (pollOne opts now node health g)) = ht_timer (gw_tracker g)" for now node health g
    by (simp add: pollOne_def Let_def split: sum.split)
  then have "ht_timer (gw_tracker (fold (\<lambda>node. pollOne opts (fst (answer node)) node (snd (answer node))) nodes g)) =
    ht_timer (gw_tracker g)" for nodes g by (induction nodes arbitrary: g) simp_all
  then show ?thesis using assms by (simp add: gateway_start_def health_start_def pollAll_def tracker_start_def)
qed

section \<open>The cycle\<close>

lemma pollOne_other:
  assumes "ni_nodeId node \<noteq> i"
  shows "getNodeInfo i (gw_ring (pollOne opts now node health g)) = getNodeInfo i (gw_ring g)"
    and "miss_count i (pollOne opts now node health g) = miss_count i g"
  using assms by (auto simp: pollOne_def Let_def miss_count_def js_map_simps updateNodeStatus_info getNodeInfo_def
      updateNodeStatus_def split: sum.split option.split)

lemma pollOne_own:
  assumes "getNodeInfo i (gw_ring g) = getNodeInfo i (gw_ring h)" and "miss_count i g = miss_count i h"
    and "ni_nodeId node = i"
  shows "getNodeInfo i (gw_ring (pollOne opts now node health g)) = getNodeInfo i (gw_ring (pollOne opts now node health h))"
    and "miss_count i (pollOne opts now node health g) = miss_count i (pollOne opts now node health h)"
  using assms by (auto simp: pollOne_def Let_def miss_count_def js_map_simps getNodeInfo_def updateNodeStatus_def
      split: sum.split option.splits)

lemma pollOne_ring: "ring_ok (gw_ring g) \<Longrightarrow> ring_ok (gw_ring (pollOne opts now node health g))"
  "ring_points (gw_ring (pollOne opts now node health g)) = ring_points (gw_ring g)"
  by (auto simp: pollOne_def Let_def ring_ok_update split: sum.split)

lemma polls_other:
  assumes "\<forall>node \<in> set nodes. ni_nodeId node \<noteq> i"
  shows "getNodeInfo i (gw_ring (fold (\<lambda>node. pollOne opts (fst (answer node)) node (snd (answer node))) nodes g)) = getNodeInfo i (gw_ring g) \<and>
    miss_count i (fold (\<lambda>node. pollOne opts (fst (answer node)) node (snd (answer node))) nodes g) = miss_count i g"
  using assms by (induction nodes arbitrary: g) (simp_all add: pollOne_other)

lemma cycle_points:
  "ring_points (gw_ring (fold (\<lambda>node. pollOne opts (fst (answer node)) node (snd (answer node))) nodes g)) = ring_points (gw_ring g)"
  by (induction nodes arbitrary: g) (simp_all add: pollOne_ring)

lemma physical_nodes:
  assumes "ring_ok r"
  shows "distinct (map ni_nodeId (getPhysicalNodes r))"
    and "getNodeInfo i r = Some node \<Longrightarrow> node \<in> set (getPhysicalNodes r)"
proof -
  have "map ni_nodeId (getPhysicalNodes r) = js_keys (ring_nodes r)"
    using assms by (auto simp: getPhysicalNodes_def ring_ok_def)
  then show "distinct (map ni_nodeId (getPhysicalNodes r))" using assms by (simp add: ring_ok_def)
  show "getNodeInfo i r = Some node \<Longrightarrow> node \<in> set (getPhysicalNodes r)"
    by (force simp: getPhysicalNodes_def getNodeInfo_def dest: map_of_SomeD)
qed

text \<open>A polling cycle does not depend on the order of the answers: however the answers of the nodes
  polled together interleave, afterwards every node has the record (status and heartbeat) and the miss
  count that its own answer alone gives it, and every key still maps to the same nodes.\<close>

theorem poll_cycle_order_independent:
  assumes "ring_ok (gw_ring g)" and "mset (arrival (getPhysicalNodes (gw_ring g))) = mset (getPhysicalNodes (gw_ring g))"
    and "getNodeInfo i (gw_ring g) = Some node"
  shows "let g' = pollAll opts answer arrival g; own = poll_node opts (fst (answer node)) i (snd (answer node)) g
    in getNodeInfo i (gw_ring g') = getNodeInfo i (gw_ring own) \<and> miss_count i g' = miss_count i own \<and>
       getNodesForKey key c (gw_ring g') = getNodesForKey key c (gw_ring g)"
proof -
  let ?poll = "\<lambda>node. pollOne opts (fst (answer node)) node (snd (answer node))"
  let ?nodes = "arrival (getPhysicalNodes (gw_ring g))"
  have id: "ni_nodeId node = i" by (rule ring_node_id[OF assms(1,3)])
  have "node \<in> set ?nodes" using physical_nodes(2)[OF assms(1,3)] mset_eq_setD[OF assms(2)] by simp
  then obtain pre post where split: "?nodes = pre @ node # post" by (auto simp: in_set_conv_decomp)
  have "mset (map ni_nodeId ?nodes) = mset (map ni_nodeId (getPhysicalNodes (gw_ring g)))" using assms(2) by simp
  then have "distinct (map ni_nodeId ?nodes)" using physical_nodes(1)[OF assms(1)] mset_eq_imp_distinct_iff by blast
  then have "i \<notin> ni_nodeId ` set pre" "i \<notin> ni_nodeId ` set post" using id unfolding split by simp_all
  then have others: "\<forall>n \<in> set pre. ni_nodeId n \<noteq> i" "\<forall>n \<in> set post. ni_nodeId n \<noteq> i"
    by (metis imageI)+
  note before = polls_other[OF others(1), where opts = opts and answer = answer and g = g]
    and after = polls_other[OF others(2), where opts = opts and answer = answer and g = "?poll node (fold ?poll pre g)"]
  have cycle: "pollAll opts answer arrival g = fold ?poll post (?poll node (fold ?poll pre g))"
    by (simp add: pollAll_def split)
  have own: "poll_node opts (fst (answer node)) i (snd (answer node)) g = ?poll node g"
    by (simp add: poll_node_def assms(3))
  have "getNodeInfo i (gw_ring (?poll node (fold ?poll pre g))) = getNodeInfo i (gw_ring (?poll node g))"
    "miss_count i (?poll node (fold ?poll pre g)) = miss_count i (?poll node g)"
    by (rule pollOne_own[OF before[THEN conjunct1] before[THEN conjunct2] id])+
  moreover have "getNodesForKey key c (gw_ring (pollAll opts answer arrival g)) = getNodesForKey key c (gw_ring g)"
    by (rule getNodesForKey_points) (simp add: pollAll_def cycle_points)
  ultimately show ?thesis using after by (simp only: Let_def own cycle)
qed

theorem poll_cycle_order_independent_witness:
  "let opts = \<lparr>ho_suspectAfterMisses = 1, ho_deadAfterMisses = 3\<rparr>;
       answer = (\<lambda>node. (7, if ni_nodeId node = ''n1'' then Inl (PlainError ''down'') else Inr ''HEALTHY''))
   in node_status ''n1'' (pollAll opts answer rev demo_gateway) = Some SUSPECT \<and> miss_count ''n1'' (pollAll opts answer rev demo_gateway) = 1"
  using poll_cycle_order_independent[of demo_gateway rev "''n1''" "demo_node ''n1''" "\<lparr>ho_suspectAfterMisses = 1, ho_deadAfterMisses = 3\<rparr>"
      "\<lambda>node. (7, if ni_nodeId node = ''n1'' then Inl (PlainError ''down'') else Inr ''HEALTHY'')"] demo_ring_ok
  by (simp add: Let_def node_status_def demo_gateway_def poll_node_def pollOne_def miss_count_def updateNodeStatus_info demo_node_def)

end
