(* ===== verification/Config.thy ===== *)
theory Config
  imports Gateway
begin

text \<open>
  \<open>packages/shared/src/config.ts\<close>: configuration from environment variables.  The environment is a
  partial function.  \<open>Number(...)\<close> is modelled on the numeric string literals of ECMAScript with exact
  values (no rounding to doubles).
\<close>

section \<open>The string functions of the language\<close>

definition js_space :: "char \<Rightarrow> bool" where
  "js_space c \<longleftrightarrow> (let n = of_char c :: nat in n = 32 \<or> (9 \<le> n \<and> n \<le> 13) \<or> n = 160)"

definition js_trim :: "string \<Rightarrow> string" where
  "js_trim s = rev (dropWhile js_space (rev (dropWhile js_space s)))"

fun split_on :: "char \<Rightarrow> string \<Rightarrow> string list" where
  "split_on sep [] = [[]]"
| "split_on sep (c # cs) =
     (if c = sep then [] # split_on sep cs
      else case split_on sep cs of [] \<Rightarrow> [[c]] | p # ps \<Rightarrow> (c # p) # ps)"

definition js_toLower :: "string \<Rightarrow> string" where
  "js_toLower s = map (\<lambda>c. let n = of_char c :: nat
     in if (65 \<le> n \<and> n \<le> 90) \<or> (192 \<le> n \<and> n \<le> 222 \<and> n \<noteq> 215) then char_of (n + 32) else c) s"

datatype js_number = NaN | Infinite bool | Finite rat

fun js_negate :: "js_number \<Rightarrow> js_number" where
  "js_negate NaN = NaN"
| "js_negate (Infinite pos) = Infinite (\<not> pos)"
| "js_negate (Finite x) = Finite (- x)"

definition digit_in :: "nat \<Rightarrow> char \<Rightarrow> nat option" where
  "digit_in base c =
     (let n = of_char c :: nat;
          d = (if 48 \<le> n \<and> n \<le> 57 then n - 48 else if 97 \<le> n \<and> n \<le> 122 then n - 87
               else if 65 \<le> n \<and> n \<le> 90 then n - 55 else 99)
      in if d < base then Some d else None)"

fun radix_value :: "nat \<Rightarrow> nat \<Rightarrow> string \<Rightarrow> nat option" where
  "radix_value base acc [] = Some acc"
| "radix_value base acc (c # cs) = (case digit_in base c of None \<Rightarrow> None | Some d \<Rightarrow> radix_value base (acc * base + d) cs)"

definition radix_literal :: "nat \<Rightarrow> string \<Rightarrow> js_number" where
  "radix_literal base ds =
     (if ds = [] then NaN else case radix_value base 0 ds of None \<Rightarrow> NaN | Some n \<Rightarrow> Finite (of_nat n))"

text \<open>An exponent: a sign and digits.\<close>

definition exponent_value :: "string \<Rightarrow> int option" where
  "exponent_value e =
     (let (neg, ds) = (case e of c # cs \<Rightarrow> if c = CHR ''-'' then (True, cs) else if c = CHR ''+'' then (False, cs) else (False, e)
                       | [] \<Rightarrow> (False, []))
      in if ds \<noteq> [] \<and> list_all is_digit ds
         then Some (if neg then - int (digits_value ds) else int (digits_value ds)) else None)"

definition pow10 :: "int \<Rightarrow> rat" where
  "pow10 e = (if 0 \<le> e then 10 ^ nat e else 1 / 10 ^ nat (- e))"

text \<open>A decimal literal without sign: digits, an optional fraction, an optional exponent.\<close>

definition decimal_literal :: "string \<Rightarrow> js_number" where
  "decimal_literal s =
     (let ip = takeWhile is_digit s; r1 = dropWhile is_digit s;
          (fp, r2) = (case r1 of c # cs \<Rightarrow> if c = CHR ''.'' then (takeWhile is_digit cs, dropWhile is_digit cs) else ([], r1)
                      | [] \<Rightarrow> ([], []));
          mantissa = of_nat (digits_value (ip @ fp)) / 10 ^ length fp
      in if ip @ fp = [] then NaN
         else case r2 of
                [] \<Rightarrow> Finite mantissa
              | c # cs \<Rightarrow>
                  if c = CHR ''e'' \<or> c = CHR ''E''
                  then (case exponent_value cs of None \<Rightarrow> NaN | Some e \<Rightarrow> Finite (mantissa * pow10 e))
                  else NaN)"

definition signed_literal :: "string \<Rightarrow> js_number" where
  "signed_literal s = (if s = ''Infinity'' then Infinite True else decimal_literal s)"

definition js_Number :: "string \<Rightarrow> js_number" where
  "js_Number s =
     (let t = js_trim s
      in case t of
           [] \<Rightarrow> Finite 0
         | c # cs \<Rightarrow>
             if c = CHR ''-'' then js_negate (signed_literal cs)
             else if c = CHR ''+'' then signed_literal cs
             else (case (c, cs) of
                     (_, p # ds) \<Rightarrow>
                       if c = CHR ''0'' \<and> (p = CHR ''x'' \<or> p = CHR ''X'') then radix_literal 16 ds
                       else if c = CHR ''0'' \<and> (p = CHR ''o'' \<or> p = CHR ''O'') then radix_literal 8 ds
                       else if c = CHR ''0'' \<and> (p = CHR ''b'' \<or> p = CHR ''B'') then radix_literal 2 ds
                       else signed_literal t
                   | _ \<Rightarrow> signed_literal t))"

section \<open>The readers\<close>

type_synonym env = "string \<Rightarrow> string option"

definition env_unset :: "string option \<Rightarrow> bool" where
  "env_unset v \<longleftrightarrow> v = None \<or> v = Some []"

definition missing :: "string \<Rightarrow> thrown" where
  "missing key = FlowCache (ConfigurationError (''Missing required environment variable: '' @ key))"

definition readString :: "env \<Rightarrow> string \<Rightarrow> string option \<Rightarrow> string result" where
  "readString env key fallback =
     (case env key of
        Some (c # cs) \<Rightarrow> Inr (c # cs)
      | _ \<Rightarrow> (case fallback of Some f \<Rightarrow> Inr f | None \<Rightarrow> Inl (missing key)))"

definition readNumber :: "env \<Rightarrow> string \<Rightarrow> js_number option \<Rightarrow> js_number result" where
  "readNumber env key fallback =
     (if env_unset (env key) then (case fallback of Some f \<Rightarrow> Inr f | None \<Rightarrow> Inl (missing key))
      else (let v = the (env key); n = js_Number v
            in if n = NaN
               then Inl (FlowCache (ConfigurationError
                      (''Environment variable '' @ key @ '' must be numeric, got '' @ quoted v)))
               else Inr n))"

definition readBoolean :: "env \<Rightarrow> string \<Rightarrow> bool \<Rightarrow> bool" where
  "readBoolean env key fallback =
     (if env_unset (env key) then fallback
      else let v = the (env key) in js_toLower v = ''true'' \<or> v = ''1'')"

definition readList :: "env \<Rightarrow> string \<Rightarrow> string list \<Rightarrow> string list" where
  "readList env key fallback =
     (if env_unset (env key) then fallback
      else filter (\<lambda>s. s \<noteq> []) (map js_trim (split_on (CHR '','') (the (env key)))))"

section \<open>The static node list\<close>

text \<open>An entry as parsed; \<open>port\<close> and \<open>weight\<close> are whatever \<open>Number\<close> made of the text.\<close>

record parsed_node =
  pn_nodeId :: string
  pn_host :: string
  pn_port :: js_number
  pn_weight :: js_number

definition DEFAULT_STATIC_NODES :: string where
  "DEFAULT_STATIC_NODES = ''node-1:cache-node-1:4001:1,node-2:cache-node-2:4001:1,node-3:cache-node-3:4001:1''"

definition part :: "string list \<Rightarrow> nat \<Rightarrow> string" where
  "part ps n = (if n < length ps then ps ! n else [])"

definition parseStaticNode :: "string \<Rightarrow> parsed_node result" where
  "parseStaticNode entry =
     (let ps = split_on (CHR '':'') entry;
          nodeId = part ps 0; host = part ps 1; portStr = part ps 2; weightStr = part ps 3
      in if nodeId = [] \<or> host = [] \<or> portStr = []
         then Inl (FlowCache (ConfigurationError (''Malformed STATIC_NODES entry: '' @ quoted entry)))
         else Inr \<lparr>pn_nodeId = nodeId, pn_host = host, pn_port = js_Number portStr,
                   pn_weight = (if weightStr \<noteq> [] then js_Number weightStr else Finite 1)\<rparr>)"

fun parse_entries :: "string list \<Rightarrow> parsed_node list result" where
  "parse_entries [] = Inr []"
| "parse_entries (e # es) =
     (case parseStaticNode e of
        Inl err \<Rightarrow> Inl err
      | Inr n \<Rightarrow> (case parse_entries es of Inl err \<Rightarrow> Inl err | Inr ns \<Rightarrow> Inr (n # ns)))"

definition parseStaticNodes :: "string \<Rightarrow> parsed_node list result" where
  "parseStaticNodes raw = parse_entries (filter (\<lambda>s. s \<noteq> []) (map js_trim (split_on (CHR '','') raw)))"

section \<open>The configurations\<close>

record CacheNodeConfig =
  cc_nodeId :: string
  cc_host :: string
  cc_port :: js_number
  cc_weight :: js_number
  cc_maxMemoryBytes :: js_number
  cc_defaultTtlMs :: "js_number option"
  cc_virtualNodeCount :: js_number
  cc_snapshotIntervalMs :: js_number
  cc_snapshotDirectory :: string
  cc_snapshotCompress :: bool
  cc_kafkaBrokers :: "string list"
  cc_kafkaClientId :: string
  cc_kafkaConsumerGroup :: string
  cc_workerPoolSize :: js_number
  cc_gatewayUrl :: string
  cc_seedNodes :: "string list"
  cc_staticNodes :: "parsed_node list"

text \<open>Sequencing of readers that may throw.\<close>

definition try_then :: "'a result \<Rightarrow> ('a \<Rightarrow> 'b result) \<Rightarrow> 'b result" where
  "try_then r f = (case r of Inl e \<Rightarrow> Inl e | Inr x \<Rightarrow> f x)"

definition loadCacheNodeConfig :: "env \<Rightarrow> CacheNodeConfig result" where
  "loadCacheNodeConfig env =
     try_then (readString env ''NODE_ID'' None) (\<lambda>nodeId.
     try_then (readString env ''HOST'' (Some ''0.0.0.0'')) (\<lambda>host.
     try_then (readNumber env ''PORT'' (Some (Finite 4001))) (\<lambda>port.
     try_then (readNumber env ''NODE_WEIGHT'' (Some (Finite 1))) (\<lambda>weight.
     try_then (readNumber env ''MAX_MEMORY_BYTES'' (Some (Finite (128 * 1024 * 1024)))) (\<lambda>maxMemoryBytes.
     try_then (if env_unset (env ''DEFAULT_TTL_MS'') then Inr None
               else try_then (readNumber env ''DEFAULT_TTL_MS'' None) (\<lambda>n. Inr (Some n))) (\<lambda>defaultTtlMs.
     try_then (readNumber env ''VIRTUAL_NODE_COUNT'' (Some (Finite 128))) (\<lambda>virtualNodeCount.
     try_then (readNumber env ''SNAPSHOT_INTERVAL_MS'' (Some (Finite 60000))) (\<lambda>intervalMs.
     try_then (readString env ''SNAPSHOT_DIR'' (Some (''/data/snapshots/'' @ nodeId))) (\<lambda>directory.
     try_then (readString env ''KAFKA_CLIENT_ID'' (Some (''flowcache-'' @ nodeId))) (\<lambda>clientId.
     try_then (readString env ''KAFKA_CONSUMER_GROUP'' (Some ''flowcache-node-group'')) (\<lambda>consumerGroup.
     try_then (readNumber env ''WORKER_POOL_SIZE'' (Some (Finite 4))) (\<lambda>size.
     try_then (readString env ''GATEWAY_URL'' (Some ''http://gateway:4000'')) (\<lambda>gatewayUrl.
     try_then (try_then (readString env ''STATIC_NODES'' (Some DEFAULT_STATIC_NODES)) parseStaticNodes) (\<lambda>staticNodes.
       Inr \<lparr>cc_nodeId = nodeId, cc_host = host, cc_port = port, cc_weight = weight, cc_maxMemoryBytes = maxMemoryBytes,
            cc_defaultTtlMs = defaultTtlMs, cc_virtualNodeCount = virtualNodeCount, cc_snapshotIntervalMs = intervalMs,
            cc_snapshotDirectory = directory, cc_snapshotCompress = readBoolean env ''SNAPSHOT_COMPRESS'' True,
            cc_kafkaBrokers = readList env ''KAFKA_BROKERS'' [''localhost:9092''], cc_kafkaClientId = clientId,
            cc_kafkaConsumerGroup = consumerGroup, cc_workerPoolSize = size, cc_gatewayUrl = gatewayUrl,
            cc_seedNodes = readList env ''SEED_NODES'' [], cc_staticNodes = staticNodes\<rparr>))))))))))))))"

record GatewayConfig =
  gc_port :: js_number
  gc_host :: string
  gc_virtualNodeCount :: js_number
  gc_healthCheckIntervalMs :: js_number
  gc_healthCheckTimeoutMs :: js_number
  gc_suspectAfterMisses :: js_number
  gc_deadAfterMisses :: js_number
  gc_staticNodes :: "parsed_node list"

definition loadGatewayConfig :: "env \<Rightarrow> GatewayConfig result" where
  "loadGatewayConfig env =
     try_then (try_then (readString env ''STATIC_NODES'' (Some DEFAULT_STATIC_NODES)) parseStaticNodes) (\<lambda>staticNodes.
     try_then (readNumber env ''PORT'' (Some (Finite 4000))) (\<lambda>port.
     try_then (readString env ''HOST'' (Some ''0.0.0.0'')) (\<lambda>host.
     try_then (readNumber env ''VIRTUAL_NODE_COUNT'' (Some (Finite 128))) (\<lambda>virtualNodeCount.
     try_then (readNumber env ''HEALTH_CHECK_INTERVAL_MS'' (Some (Finite 5000))) (\<lambda>healthCheckIntervalMs.
     try_then (readNumber env ''HEALTH_CHECK_TIMEOUT_MS'' (Some (Finite 2000))) (\<lambda>healthCheckTimeoutMs.
     try_then (readNumber env ''SUSPECT_AFTER_MISSES'' (Some (Finite 2))) (\<lambda>suspectAfterMisses.
     try_then (readNumber env ''DEAD_AFTER_MISSES'' (Some (Finite 5))) (\<lambda>deadAfterMisses.
       Inr \<lparr>gc_port = port, gc_host = host, gc_virtualNodeCount = virtualNodeCount,
            gc_healthCheckIntervalMs = healthCheckIntervalMs, gc_healthCheckTimeoutMs = healthCheckTimeoutMs,
            gc_suspectAfterMisses = suspectAfterMisses, gc_deadAfterMisses = deadAfterMisses,
            gc_staticNodes = staticNodes\<rparr>))))))))"

record BenchmarkConfig =
  bc_targetBaseUrl :: string
  bc_durationMs :: js_number
  bc_concurrency :: js_number
  bc_keyspaceSize :: js_number
  bc_reportDirectory :: string

definition loadBenchmarkConfig :: "env \<Rightarrow> BenchmarkConfig result" where
  "loadBenchmarkConfig env =
     try_then (readString env ''BENCHMARK_TARGET_URL'' (Some ''http://localhost:4000'')) (\<lambda>targetBaseUrl.
     try_then (readNumber env ''BENCHMARK_DURATION_MS'' (Some (Finite 30000))) (\<lambda>durationMs.
     try_then (readNumber env ''BENCHMARK_CONCURRENCY'' (Some (Finite 16))) (\<lambda>concurrency.
     try_then (readNumber env ''BENCHMARK_KEYSPACE_SIZE'' (Some (Finite 10000))) (\<lambda>keyspaceSize.
     try_then (readString env ''BENCHMARK_REPORT_DIR'' (Some ''./reports'')) (\<lambda>reportDirectory.
       Inr \<lparr>bc_targetBaseUrl = targetBaseUrl, bc_durationMs = durationMs, bc_concurrency = concurrency,
            bc_keyspaceSize = keyspaceSize, bc_reportDirectory = reportDirectory\<rparr>)))))"

section \<open>Round trip of the node list\<close>

lemma split_on_none: "sep \<notin> set xs \<Longrightarrow> split_on sep xs = [xs]"
  by (induction xs) auto

lemma split_on_nonempty [simp]: "split_on sep xs \<noteq> []"
  by (induction xs) (auto split: list.splits)

lemma split_on_append: "sep \<notin> set xs \<Longrightarrow> split_on sep (xs @ sep # ys) = xs # split_on sep ys"
  by (induction xs) auto

lemma js_trim_clean: "\<forall>c \<in> set s. \<not> js_space c \<Longrightarrow> js_trim s = s"
  unfolding js_trim_def by (metis dropWhile_eq_self_iff hd_in_set rev_rev_ident set_rev)

lemma digit_not_space: "is_digit c \<Longrightarrow> \<not> js_space c"
  by (auto simp: is_digit_def js_space_def Let_def)

lemma decimal_digits:
  assumes "list_all is_digit ds" and "ds \<noteq> []"
  shows "decimal_literal ds = Finite (of_nat (digits_value ds))"
proof -
  have d: "takeWhile is_digit ds = ds" "dropWhile is_digit ds = []"
    using assms(1) by (auto simp: list_all_iff takeWhile_eq_all_conv dropWhile_eq_Nil_conv)
  show ?thesis unfolding decimal_literal_def d using assms(2) by simp
qed

lemma js_Number_show [simp]: "js_Number (show_nat n) = Finite (of_nat n)"
proof -
  have ds: "list_all is_digit (show_nat n)" by (auto simp: list_all_iff dest: show_nat_digits)
  have sp: "js_trim (show_nat n) = show_nat n" by (rule js_trim_clean) (auto dest: show_nat_digits digit_not_space)
  have nd: "\<not> is_digit (CHR ''x'')" "\<not> is_digit (CHR ''X'')" "\<not> is_digit (CHR ''o'')" "\<not> is_digit (CHR ''O'')"
    "\<not> is_digit (CHR ''b'')" "\<not> is_digit (CHR ''B'')" "\<not> is_digit (CHR ''-'')" "\<not> is_digit (CHR ''+'')" "\<not> is_digit (CHR ''I'')"
    by (simp_all add: is_digit_def)
  have "show_nat n \<noteq> ''Infinity''" using ds nd by auto
  then have lit: "signed_literal (show_nat n) = Finite (of_nat n)" using decimal_digits[OF ds] by (simp add: signed_literal_def)
  obtain c cs where c: "show_nat n = c # cs" by (cases "show_nat n") auto
  have dc: "is_digit c" "list_all is_digit cs" using ds c by simp_all
  have "c \<noteq> CHR ''-''" "c \<noteq> CHR ''+''" using dc(1) nd by auto
  moreover have "p \<noteq> CHR ''x'' \<and> p \<noteq> CHR ''X'' \<and> p \<noteq> CHR ''o'' \<and> p \<noteq> CHR ''O'' \<and> p \<noteq> CHR ''b'' \<and> p \<noteq> CHR ''B''" if "cs = p # ds" for p ds
    using dc(2) that nd by auto
  ultimately show ?thesis using lit unfolding js_Number_def Let_def sp unfolding c by (cases cs) auto
qed

definition name_ok :: "string \<Rightarrow> bool" where
  "name_ok s \<longleftrightarrow> s \<noteq> [] \<and> (\<forall>c \<in> set s. c \<noteq> CHR '','' \<and> c \<noteq> CHR '':'' \<and> \<not> js_space c)"

definition show_node :: "string \<times> string \<times> nat \<times> nat \<Rightarrow> string" where
  "show_node n = (case n of (i, host, port, weight) \<Rightarrow>
     i @ CHR '':'' # host @ CHR '':'' # show_nat port @ CHR '':'' # show_nat weight)"

fun show_nodes :: "(string \<times> string \<times> nat \<times> nat) list \<Rightarrow> string" where
  "show_nodes [] = []"
| "show_nodes [n] = show_node n"
| "show_nodes (n # ns) = show_node n @ CHR '','' # show_nodes ns"

definition static_ok :: "string \<times> string \<times> nat \<times> nat \<Rightarrow> bool" where
  "static_ok n = (case n of (i, host, _) \<Rightarrow> name_ok i \<and> name_ok host)"

lemma digit_chars: "is_digit c \<Longrightarrow> c \<noteq> CHR '','' \<and> c \<noteq> CHR '':'' \<and> \<not> js_space c"
  by (auto simp: is_digit_def js_space_def Let_def)

lemma show_nat_chars: "CHR '','' \<notin> set (show_nat n)" "CHR '':'' \<notin> set (show_nat n)" "\<forall>c \<in> set (show_nat n). \<not> js_space c"
  using show_nat_digits[of _ n] digit_chars by blast+

lemma colon_not_space: "\<not> js_space (CHR '':'')"
  by (simp add: js_space_def)

lemma parse_show_node:
  assumes "static_ok (i, host, port, weight)"
  shows "parseStaticNode (show_node (i, host, port, weight)) =
    Inr \<lparr>pn_nodeId = i, pn_host = host, pn_port = Finite (of_nat port), pn_weight = Finite (of_nat weight)\<rparr>"
proof -
  have ok: "CHR '':'' \<notin> set i" "CHR '':'' \<notin> set host" "i \<noteq> []" "host \<noteq> []" using assms by (auto simp: static_ok_def name_ok_def)
  then have "split_on (CHR '':'') (show_node (i, host, port, weight)) = [i, host, show_nat port, show_nat weight]"
    by (simp add: show_node_def split_on_append split_on_none show_nat_chars)
  with ok show ?thesis by (simp add: parseStaticNode_def part_def)
qed

lemma show_node_chars:
  assumes "static_ok n"
  shows "CHR '','' \<notin> set (show_node n)" "js_trim (show_node n) = show_node n" "show_node n \<noteq> []"
proof -
  show "CHR '','' \<notin> set (show_node n)" using assms show_nat_chars by (auto simp: static_ok_def name_ok_def show_node_def split: prod.splits)
  show "js_trim (show_node n) = show_node n"
    by (rule js_trim_clean)
       (use assms show_nat_chars(3) colon_not_space in \<open>auto simp: static_ok_def name_ok_def show_node_def split: prod.splits\<close>)
  show "show_node n \<noteq> []" by (simp add: show_node_def split: prod.splits)
qed

lemma split_show_nodes: "ns \<noteq> [] \<Longrightarrow> list_all static_ok ns \<Longrightarrow> split_on (CHR '','') (show_nodes ns) = map show_node ns"
  by (induction ns rule: show_nodes.induct) (simp_all add: split_on_append split_on_none show_node_chars)

text \<open>C34. The node list round-trips: printing any non-empty list of nodes (names without comma, colon or
  white space) in the \<open>id:host:port:weight\<close> format and parsing it gives the same nodes in the same order,
  ports and weights as numbers.\<close>

theorem parseStaticNodes_roundtrip:
  assumes "ns \<noteq> []" and "list_all static_ok ns"
  shows "parseStaticNodes (show_nodes ns) =
    Inr (map (\<lambda>(i, host, port, weight). \<lparr>pn_nodeId = i, pn_host = host, pn_port = Finite (of_nat port), pn_weight = Finite (of_nat weight)\<rparr>) ns)"
proof -
  have "filter (\<lambda>s. s \<noteq> []) (map js_trim (map show_node ns)) = map show_node ns"
    using assms(2) by (induction ns) (simp_all add: show_node_chars)
  moreover have "parse_entries (map show_node ns) =
    Inr (map (\<lambda>(i, host, port, weight). \<lparr>pn_nodeId = i, pn_host = host, pn_port = Finite (of_nat port), pn_weight = Finite (of_nat weight)\<rparr>) ns)"
    using assms(2) by (induction ns) (auto simp: parse_show_node)
  ultimately show ?thesis by (simp add: parseStaticNodes_def split_show_nodes[OF assms])
qed

theorem parseStaticNodes_roundtrip_witness:
  "parseStaticNodes (show_nodes [(''n1'', ''h'', 4001, 2)]) =
   Inr [\<lparr>pn_nodeId = ''n1'', pn_host = ''h'', pn_port = Finite 4001, pn_weight = Finite 2\<rparr>]"
  using parseStaticNodes_roundtrip[of "[(''n1'', ''h'', 4001, 2)]"] by (simp add: static_ok_def name_ok_def js_space_def)

text \<open>Ports and weights of the node list are not checked: unlike \<open>readNumber\<close>, which rejects it, a
  port that is not numeric is accepted and stored as NaN.\<close>

theorem static_node_port_unchecked:
  "parseStaticNodes ''n1:h:http'' = Inr [\<lparr>pn_nodeId = ''n1'', pn_host = ''h'', pn_port = NaN, pn_weight = Finite 1\<rparr>] \<and>
   readNumber (\<lambda>_. Some ''http'') ''PORT'' None =
     Inl (FlowCache (ConfigurationError ''Environment variable PORT must be numeric, got \"http\"''))"
  by (simp add: parseStaticNodes_def parseStaticNode_def part_def js_trim_def js_space_def js_Number_def signed_literal_def
      decimal_literal_def is_digit_def readNumber_def env_unset_def quoted_def)

end
