(* ===== verification/Process.thy ===== *)
theory Process
  imports Lifecycle HealthCycle Config
begin

text \<open>
  The two process entry points, \<open>services/cache-node/src/index.ts\<close> and \<open>apps/gateway/src/index.ts\<close>:
  from the environment through the configuration to a running server, and from a signal through the
  graceful shutdown to the exit code.  The theorem follows a cache node through a shutdown and the next
  start on the same disk.
\<close>

section \<open>From the configuration to the server\<close>

text \<open>Numbers of the configuration as the servers use them.  The loaders also accept values outside
  these ranges (a fractional port, a negative interval); what the servers do with those is not modelled.\<close>

fun as_nat :: "js_number \<Rightarrow> nat option" where
  "as_nat (Finite q) = (if 0 \<le> q \<and> of_int \<lfloor>q\<rfloor> = q then Some (nat \<lfloor>q\<rfloor>) else None)"
| "as_nat _ = None"

fun as_rat :: "js_number \<Rightarrow> rat option" where
  "as_rat (Finite q) = Some q"
| "as_rat _ = None"

definition static_entry :: "parsed_node \<Rightarrow> StaticNodeEntry option" where
  "static_entry p =
     (case (as_nat (pn_port p), as_rat (pn_weight p)) of
        (Some port, Some weight) \<Rightarrow>
          Some \<lparr>sn_nodeId = pn_nodeId p, sn_host = pn_host p, sn_port = port, sn_weight = weight\<rparr>
      | _ \<Rightarrow> None)"

definition node_settings_of :: "CacheNodeConfig \<Rightarrow> node_settings option" where
  "node_settings_of cfg =
     (case (as_nat (cc_virtualNodeCount cfg), those (map static_entry (cc_staticNodes cfg)), as_nat (cc_maxMemoryBytes cfg),
            as_nat (cc_workerPoolSize cfg), as_nat (cc_snapshotIntervalMs cfg), map_option as_nat (cc_defaultTtlMs cfg)) of
        (Some vnodes, Some nodes, Some bytes, Some workers, Some interval, ttl) \<Rightarrow>
          if ttl = Some None then None
          else Some \<lparr>ns_nodeId = cc_nodeId cfg, ns_virtualNodeCount = vnodes, ns_staticNodes = nodes, ns_maxMemoryBytes = bytes,
                     ns_defaultTtlMs = map_option int (Option.bind ttl id), ns_workerPoolSize = workers,
                     ns_snapshotIntervalMs = int interval, ns_snapshotCompress = cc_snapshotCompress cfg\<rparr>
      | _ \<Rightarrow> None)"

record gateway_settings =
  gs_virtualNodeCount :: nat
  gs_staticNodes :: "StaticNodeEntry list"
  gs_health :: HealthOptions

definition gateway_settings_of :: "GatewayConfig \<Rightarrow> gateway_settings option" where
  "gateway_settings_of cfg =
     (case (as_nat (gc_virtualNodeCount cfg), those (map static_entry (gc_staticNodes cfg)),
            as_nat (gc_suspectAfterMisses cfg), as_nat (gc_deadAfterMisses cfg)) of
        (Some vnodes, Some nodes, Some suspect, Some dead) \<Rightarrow>
          Some \<lparr>gs_virtualNodeCount = vnodes, gs_staticNodes = nodes,
                gs_health = \<lparr>ho_suspectAfterMisses = suspect, ho_deadAfterMisses = dead\<rparr>\<rparr>
      | _ \<Rightarrow> None)"

section \<open>main and shutdown\<close>

text \<open>A process serves, is shutting down, or has exited with a code.\<close>

record 's process =
  px_server :: 's
  px_shuttingDown :: bool
  px_exit :: "nat option"

datatype 's boot = Booted "'s process" | BootFailed thrown nat

definition serving :: "'s \<Rightarrow> 's process" where
  "serving server = \<lparr>px_server = server, px_shuttingDown = False, px_exit = None\<rparr>"

text \<open>\<open>main\<close> of the cache node: an error of the loader or of the last start attempt is fatal, with exit
  code 1.  \<open>attempt\<close> starts one server.\<close>

definition node_main :: "(node_settings \<Rightarrow> nat \<Rightarrow> 'w \<Rightarrow> 's result \<times> 'w) \<Rightarrow> env \<Rightarrow> 'w \<Rightarrow> ('s boot \<times> nat list \<times> 'w) option" where
  "node_main attempt env w =
     (case loadCacheNodeConfig env of
        Inl e \<Rightarrow> Some (BootFailed e 1, [], w)
      | Inr cfg \<Rightarrow>
          map_option (\<lambda>settings.
            let (res, delays, w') = startWithRetry (attempt settings) w
            in (case res of Inl e \<Rightarrow> BootFailed e 1 | Inr server \<Rightarrow> Booted (serving server), delays, w'))
          (node_settings_of cfg))"

definition gateway_main :: "(NodeInfo \<Rightarrow> time \<times> string result) \<Rightarrow> (NodeInfo list \<Rightarrow> NodeInfo list) \<Rightarrow> time \<Rightarrow> env \<Rightarrow>
    gateway_process boot option" where
  "gateway_main answer arrival now env =
     (case loadGatewayConfig env of
        Inl e \<Rightarrow> Some (BootFailed e 1)
      | Inr cfg \<Rightarrow>
          map_option (\<lambda>s.
            Booted (serving (gateway_start (gs_health s) answer arrival
              \<lparr>gp_gateway = new_GatewayServer (gs_virtualNodeCount s) now (gs_staticNodes s), gp_httpServer = False\<rparr>)))
          (gateway_settings_of cfg))"

text \<open>The signal handler, the same in both: only the first signal begins the shutdown, which runs \<open>stop\<close>.
  Its outcome decides the exit code.\<close>

definition shutdown :: "'s process \<Rightarrow> bool \<times> 's process" where
  "shutdown p = (if px_shuttingDown p then (False, p) else (True, p\<lparr>px_shuttingDown := True\<rparr>))"

definition shutdown_end :: "unit result \<Rightarrow> 's process \<Rightarrow> 's process" where
  "shutdown_end outcome p = p\<lparr>px_exit := Some (case outcome of Inr _ \<Rightarrow> 0 | Inl _ \<Rightarrow> 1)\<rparr>"

text \<open>A running process: signals arrive at any time, \<open>stop\<close> once begun may fail or succeed at any later
  time.  The history counts how often \<open>stop\<close> was begun and keeps its outcome.\<close>

inductive process_step :: "'s process \<times> nat \<times> unit result option \<Rightarrow> 's process \<times> nat \<times> unit result option \<Rightarrow> bool" where
  signal: "px_exit p = None \<Longrightarrow> shutdown p = (begun, p') \<Longrightarrow>
    process_step (p, stops, out) (p', if begun then stops + 1 else stops, out)"
| serve: "px_exit p = None \<Longrightarrow> process_step (p, stops, out) (p\<lparr>px_server := s\<rparr>, stops, out)"
| stopped: "px_exit p = None \<Longrightarrow> px_shuttingDown p \<Longrightarrow> out = None \<Longrightarrow>
    process_step (p, stops, out) (shutdown_end res p, stops, Some res)"

inductive_cases process_stepE: "process_step st st'"

lemma shutdown_runs_once:
  assumes "process_step\<^sup>*\<^sup>* (serving s, 0, None) (p, stops, out)"
  shows "stops = (if px_shuttingDown p then 1 else 0) \<and> (px_exit p = None \<longleftrightarrow> out = None) \<and>
    (px_exit p = Some 0 \<longleftrightarrow> out = Some (Inr ())) \<and> (px_exit p \<noteq> None \<longrightarrow> stops = 1)"
  using assms
proof (induction "(p, stops, out)" arbitrary: p stops out rule: rtranclp_induct)
  case base
  then show ?case by (simp add: serving_def)
next
  case (step st)
  obtain p0 stops0 out0 where st: "st = (p0, stops0, out0)" by (metis prod_cases3)
  from step(2)[unfolded st] step(3)[OF st] show ?case
    by (cases rule: process_stepE) (auto simp: shutdown_def shutdown_end_def split: if_splits sum.splits)
qed

text \<open>With nothing but its name set, a node gets 128 MiB, 128 virtual nodes, four workers, a compressed
  snapshot every minute, entries that do not expire, and the three nodes of the default cluster.\<close>

definition default_nodes :: "(string \<times> string \<times> nat \<times> nat) list" where
  "default_nodes = [(''node-1'', ''cache-node-1'', 4001, 1), (''node-2'', ''cache-node-2'', 4001, 1), (''node-3'', ''cache-node-3'', 4001, 1)]"

lemma default_nodes_ok: "list_all static_ok default_nodes"
  by (simp add: default_nodes_def static_ok_def name_ok_def js_space_def)

lemma default_nodes_shown: "DEFAULT_STATIC_NODES = show_nodes default_nodes"
  by (simp add: DEFAULT_STATIC_NODES_def default_nodes_def show_node_def show_nat.simps) (simp add: char_of_def bit_iff_odd)

lemma default_static_nodes:
  "parseStaticNodes DEFAULT_STATIC_NODES =
     Inr (map (\<lambda>(i, host, port, weight). \<lparr>pn_nodeId = i, pn_host = host, pn_port = Finite (of_nat port), pn_weight = Finite (of_nat weight)\<rparr>) default_nodes)"
proof -
  have "parse_entries (filter (\<lambda>s. s \<noteq> []) (map js_trim (map show_node ns))) =
    Inr (map (\<lambda>(i, host, port, weight). \<lparr>pn_nodeId = i, pn_host = host, pn_port = Finite (of_nat port), pn_weight = Finite (of_nat weight)\<rparr>) ns)"
    if "list_all static_ok ns" for ns
    using that by (induction ns) (auto simp: show_node_chars parse_show_node)
  from this[OF default_nodes_ok] show ?thesis
    unfolding parseStaticNodes_def default_nodes_shown
    by (subst split_show_nodes[OF _ default_nodes_ok]) (simp_all add: default_nodes_def)
qed

lemma default_node_settings:
  assumes "name \<noteq> []"
  shows "\<exists>cfg. loadCacheNodeConfig [''NODE_ID'' \<mapsto> name] = Inr cfg \<and> node_settings_of cfg = Some
    \<lparr>ns_nodeId = name, ns_virtualNodeCount = 128,
     ns_staticNodes = map (\<lambda>(i, host, port, weight). \<lparr>sn_nodeId = i, sn_host = host, sn_port = port, sn_weight = of_nat weight\<rparr>) default_nodes,
     ns_maxMemoryBytes = 134217728, ns_defaultTtlMs = None, ns_workerPoolSize = 4, ns_snapshotIntervalMs = 60000, ns_snapshotCompress = True\<rparr>"
proof -
  obtain c cs where "name = c # cs" using assms by (cases name) auto
  then show ?thesis
    by (simp add: loadCacheNodeConfig_def try_then_def readString_def readNumber_def readBoolean_def readList_def env_unset_def
        default_static_nodes node_settings_of_def static_entry_def default_nodes_def)
qed

section \<open>A shutdown and the next start\<close>

lemma stop_snapshot_node_ok:
  assumes "node_ok js settings t0 n" and "node_stop_snapshot H c failure startedAt now i n st = (n1, st')"
  shows "node_ok js settings t0 n1" and "cn_faultInjector n1 = cn_faultInjector n" and "cn_storage n1 = cn_storage n"
    and "cn_listening n1 = cn_listening n"
proof -
  show "cn_faultInjector n1 = cn_faultInjector n" and "cn_storage n1 = cn_storage n" and "cn_listening n1 = cn_listening n"
    using assms(2) by (auto simp: node_stop_snapshot_def node_takeSnapshot_def Let_def split: prod.splits sum.splits)
  have "evolves js n n1"
    using assms(2) by (auto simp: node_stop_snapshot_def node_takeSnapshot_def Let_def split: prod.splits sum.splits)
  then show "node_ok js settings t0 n1" by (rule node_ok_evolves[OF assms(1)])
qed

text \<open>The restarted process: its first attempt recovers what the snapshot holds and listens.\<close>

lemma first_attempt_recovers:
  fixes c :: "('v, 'b) codec"
  assumes new: "new_CacheNodeServer settings (t 1) = Inr (eff :: ('v worker_payload, 'b worker_result) pool_effect list, fresh)"
    and rec: "recover js (t 1) (t 1) (restoreLatest H c (cn_snapshotManager fresh) d) fresh = (report, n1)"
    and healthy: "assertHealthy report = Inr ()" and sub: "subscribed 1 = Inr ()"
  shows "\<exists>n'. startWithRetry (start_attempt js H c settings ids t subscribed) d = (Inr n', [], d) \<and> cn_listening n' \<and>
    cn_storage n' = cn_storage n1"
proof -
  obtain n' where "node_start js (t 1) (t 1) (restoreLatest H c (cn_snapshotManager fresh) d) (Inr ()) fresh = (Inr (), n')"
    "cn_listening n'" "cn_storage n' = cn_storage n1"
    using rec healthy by (simp add: node_start_def startBackgroundCleanup_def split: if_split)
  moreover from this have "start_attempt js H c settings ids t subscribed 1 d = (Inr n', d)"
    by (simp add: start_attempt_def new sub del: One_nat_def)
  ultimately show ?thesis
    by (auto simp: startWithRetry_def MAX_START_ATTEMPTS_def intro!: exI[of _ n'] start_attempts_success)
qed

text \<open>C14. A clean shutdown keeps what the node stored when the signal arrived, and nothing later.  Whatever
  state a listening node reached, \<open>stop\<close> writes its contents to the snapshot directory before anything is disposed,
  and the next process started on that directory is up after one attempt without delay, with the same keys
  in the same order, each with its value.  But \<open>stop\<close> closes the HTTP server last: after the final snapshot the node
  still accepts connections and answers 200 to a valid PUT of a value within the memory limit, which is not in the
  restarted node; only at the end of \<open>stop\<close> is every request refused.\<close>

theorem shutdown_keeps_contents:
  assumes "server_reachable js decode undef H c settings t0 n" and "cn_listening n" and "\<not> isKilled (cn_faultInjector n)"
    and "storage_sizeBytes (cn_storage n) \<le> int (ns_maxMemoryBytes settings)"
    and "codec_ok c" and "file_ok d" and "VALID_SNAPSHOT_ID i"
    and "\<not> sm_snapshotInProgress (cn_snapshotManager n)" and "0 < sm_maxRetained (cn_snapshotManager n)"
    and "\<And>j s. file_snaps d j = Some s \<Longrightarrow> j \<noteq> i \<Longrightarrow> md_createdAt (sp_metadata s) < startedAt"
    and "subscribed 1 = Inr ()"
    and "validate_put body = Inr (key, v, ttl)" and "approximateSizeBytes js v \<le> ns_maxMemoryBytes settings"
  shows "\<exists>n1 d' n' reply def n2 eff peff n3.
    node_stop_snapshot FileSnapshotStore c None startedAt now i n d = (n1, d') \<and>
    startWithRetry (start_attempt js FileSnapshotStore c settings ids t subscribed) d' = (Inr n', [], d') \<and> cn_listening n' \<and>
    js_keys (se_store (cn_storage n')) = js_keys (se_store (cn_storage n)) \<and>
    (\<forall>k. stored n' k = map_option (restored_entry js settings (t 1)) (stored n k)) \<and>
    serve_request js decode now' random restored (ReqPut body) n1 = Some (Ok200 reply, def, n2) \<and>
    map_option ce_value (stored n2 key) = Some v \<and>
    map_option ce_value (stored n' key) = map_option ce_value (stored n key) \<and>
    node_stop FileSnapshotStore c None startedAt now i n d = (eff, peff, n3, d') \<and>
    (\<forall>req. serve_request js decode now' random restored req n3 = None)"
proof -
  note ok = server_reachable_ok[OF assms(1)]
  obtain eff :: "('a worker_payload, 'b worker_result) pool_effect list" and fresh where
    new: "new_CacheNodeServer settings (t 1) = Inr (eff, fresh)" by (rule new_CacheNodeServer_some)
  let ?m = "sm_stop (cn_snapshotManager n)"
  have m: "\<not> sm_snapshotInProgress ?m" "0 < sm_maxRetained ?m" using assms(8,9) by (simp_all add: sm_stop_def)
  from snapshot_recovers[OF ok new_CacheNodeServer_fields(1)[OF new] assms(4-7) m,
      where now = now and ?t2.0 = "t 1" and ?t3.0 = "t 1" and m' = "cn_snapshotManager fresh"]
  obtain md d' report nr where take: "takeSnapshot FileSnapshotStore (pool_serialize c None) (co_byteLength c) startedAt now i
      (storage_entries (cn_storage n)) ?m d = (Inr md, ?m, d')"
    and rec: "recover js (t 1) (t 1) (restoreLatest FileSnapshotStore c (cn_snapshotManager fresh) d') fresh = (report, nr)"
      "assertHealthy report = Inr ()" "js_keys (se_store (cn_storage nr)) = js_keys (se_store (cn_storage n))"
      "\<forall>k. stored nr k = map_option (restored_entry js settings (t 1)) (stored n k)" using assms(10) by blast
  obtain n1 where n1: "node_stop_snapshot FileSnapshotStore c None startedAt now i n d = (n1, d')"
    using take by (simp add: node_stop_snapshot_def node_takeSnapshot_def)
  obtain n' where n': "startWithRetry (start_attempt js FileSnapshotStore c settings ids t subscribed) d' = (Inr n', [], d')"
    "cn_listening n'" "cn_storage n' = cn_storage nr" using first_attempt_recovers[where t = t and subscribed = subscribed, OF new rec(1,2) assms(11)] by blast
  note ok1 = stop_snapshot_node_ok[OF ok n1]
  obtain entry n2 where set: "node_set js now' key v ttl n1 = Inr (entry, n2)" "stored n2 key = Some entry" "ce_value entry = v"
    using node_set_spec[OF ok1(1) validate_put_key[OF assms(12)] assms(13), of now' ttl] by metis
  then have "\<exists>reply def. serve_request js decode now' random restored (ReqPut body) n1 = Some (Ok200 reply, def, n2)"
    using assms(2,3,12) ok1(2,4) by (simp add: serve_request_def killSwitch_def node_put_route_def respond_def)
  moreover have "map_option ce_value (stored n' key) = map_option ce_value (stored n key)"
    using rec(4) n'(3) by (simp add: option.map_comp comp_def restored_entry_def)
  moreover obtain eff peff n3 where "node_stop FileSnapshotStore c None startedAt now i n d = (eff, peff, n3, d')" "\<not> cn_listening n3"
    using n1 by (simp add: node_stop_def node_stop_dispose_def case_prod_unfold Let_def)
  moreover from this(2) have "\<forall>req. serve_request js decode now' random restored req n3 = None" by (simp add: serve_request_def)
  ultimately show ?thesis using n1 n' rec(3,4) set(2,3) by fastforce
qed

definition late_body :: "nat PutRequestBody option" where
  "late_body = Some \<lparr>pb_key = Some ''late'', pb_value = Some 9, pb_ttlMs = TtlNumber 20\<rparr>"

lemma late_body_valid: "validate_put late_body = Inr (''late'', 9, Some (Some 20))" "approximateSizeBytes nat_json 9 \<le> ns_maxMemoryBytes demo_settings"
  by (simp_all add: validate_put_def late_body_def nat_json_def approximateSizeBytes_def utf8_byteLength_def show_nat.simps demo_settings_def)

lemma demo_serving:
  obtains n where "server_reachable nat_json Some 0 FileSnapshotStore demo_codec demo_settings 0 n" and "cn_listening n"
    and "se_store (cn_storage n) = [(''k'', restored_entry nat_json demo_settings 5 demo_entry)]"
    and "storage_sizeBytes (cn_storage n) = 1" and "\<not> isKilled (cn_faultInjector n)"
    and "cn_snapshotManager n = new_SnapshotManager ''n1'' 0 False None"
proof -
  obtain n0 where r: "server_reachable nat_json Some 0 FileSnapshotStore demo_codec demo_settings 0 n0"
    and k: "\<not> isKilled (cn_faultInjector n0)"
    and m: "cn_snapshotManager n0 = new_SnapshotManager ''n1'' 0 False None" by (rule demo_server)
  obtain res n1 where start: "node_start nat_json 1 1 (Inr None) (Inr ()) n0 = (res, n1)" by fastforce
  then have "cn_listening n1" "se_store (cn_storage n1) = []" "cn_faultInjector n1 = cn_faultInjector n0"
    "cn_snapshotManager n1 = cn_snapshotManager n0"
    by (auto simp: node_start_def recover_def recover_begin_def recover_end_def assertHealthy_def startBackgroundCleanup_def
        storage_clear_def sm_start_def m new_SnapshotManager_def split: if_splits)
  with demo_write[OF server_reachable.step[OF r server_step.start[OF start]]] k m show ?thesis by (metis that)
qed

text \<open>A listening node that stores one key, is told to stop, and accepts another key before it is gone.\<close>

theorem shutdown_keeps_contents_witness:
  "\<exists>n n1 d' n' reply def n2 eff peff n3.
    server_reachable nat_json Some 0 FileSnapshotStore demo_codec demo_settings 0 n \<and> cn_listening n \<and>
    node_stop_snapshot FileSnapshotStore demo_codec None 6 6 ''snap_1'' n [] = (n1, d') \<and>
    startWithRetry (start_attempt nat_json FileSnapshotStore demo_codec demo_settings (\<lambda>_. ''snap_2'') (\<lambda>_. 8) (\<lambda>_. Inr ())) d' = (Inr n', [], d') \<and>
    map_option ce_value (stored n' ''k'') = Some 7 \<and>
    serve_request nat_json Some 7 0 (Inr None) (ReqPut late_body) n1 = Some (Ok200 reply, def, n2) \<and> stored n' ''late'' = None \<and>
    node_stop FileSnapshotStore demo_codec None 6 6 ''snap_1'' n [] = (eff, peff, n3, d') \<and>
    serve_request nat_json Some 7 0 (Inr None) (ReqPut late_body) n3 = None"
proof -
  obtain n where n: "server_reachable nat_json Some 0 FileSnapshotStore demo_codec demo_settings 0 n" "cn_listening n"
    "se_store (cn_storage n) = [(''k'', restored_entry nat_json demo_settings 5 demo_entry)]" "storage_sizeBytes (cn_storage n) = 1"
    "\<not> isKilled (cn_faultInjector n)" "cn_snapshotManager n = new_SnapshotManager ''n1'' 0 False None" by (rule demo_serving)
  have size: "storage_sizeBytes (cn_storage n) \<le> int (ns_maxMemoryBytes demo_settings)" by (simp add: n(4) demo_settings_def)
  have m: "\<not> sm_snapshotInProgress (cn_snapshotManager n)" "0 < sm_maxRetained (cn_snapshotManager n)"
    by (simp_all add: n(6) new_SnapshotManager_def)
  from shutdown_keeps_contents[where d = "[]" and i = "''snap_1''" and subscribed = "\<lambda>_. Inr ()" and ids = "\<lambda>_. ''snap_2''" and t = "\<lambda>_. 8"
      and startedAt = 6 and now = 6 and now' = 7 and random = 0 and restored = "Inr None",
      OF n(1,2,5) size demo_codec_ok empty_directory_ok(1) demo_id_valid m _ refl late_body_valid]
  obtain n1 d' n' reply "def" n2 eff peff n3 where r: "node_stop_snapshot FileSnapshotStore demo_codec None 6 6 ''snap_1'' n [] = (n1, d')"
    "startWithRetry (start_attempt nat_json FileSnapshotStore demo_codec demo_settings (\<lambda>_. ''snap_2'') (\<lambda>_. 8) (\<lambda>_. Inr ())) d' = (Inr n', [], d')"
    "\<forall>k. stored n' k = map_option (restored_entry nat_json demo_settings 8) (stored n k)"
    "serve_request nat_json Some 7 0 (Inr None) (ReqPut late_body) n1 = Some (Ok200 reply, def, n2)"
    "node_stop FileSnapshotStore demo_codec None 6 6 ''snap_1'' n [] = (eff, peff, n3, d')"
    "serve_request nat_json Some 7 0 (Inr None) (ReqPut late_body) n3 = None"
    by (auto simp: empty_directory_ok)
  have "map_option ce_value (stored n' ''k'') = Some 7" "stored n' ''late'' = None"
    using r(3) by (simp_all add: n(3) restored_entry_def demo_entry_def)
  with n(1,2) r(1,2,4-6) show ?thesis by blast
qed

end
