(* ===== verification/GatewayApp.thy ===== *)
theory GatewayApp
  imports HealthCycle Metrics Config
begin

text \<open>
  The gateway as an HTTP application (\<open>configureExpress\<close> of \<open>GatewayServer.ts\<close>): the order of its
  middleware and routers, what is logged for a request, and the logger's configuration
  (\<open>shared/src/logger.ts\<close>).  Express itself parses the body and matches the path: a request comes with
  its route, the key in it decoded, and its body, or with the error the JSON parser or the decoding of the
  path passes on.
\<close>

section \<open>logger.ts\<close>

datatype LogLevel = LTrace | LDebug | LInfo | LWarn | LError | LFatal

fun level_name :: "LogLevel \<Rightarrow> string" where
  "level_name LTrace = ''trace''"
| "level_name LDebug = ''debug''"
| "level_name LInfo = ''info''"
| "level_name LWarn = ''warn''"
| "level_name LError = ''error''"
| "level_name LFatal = ''fatal''"

record LoggerOptions =
  lo_service :: string
  lo_nodeId :: "string option"
  lo_level :: "LogLevel option"
  lo_pretty :: "bool option"

text \<open>What \<open>createLogger\<close> hands to pino; the level from the environment is passed on unchecked.\<close>

record PinoTransport =
  pt_target :: string
  pt_colorize :: bool
  pt_translateTime :: string
  pt_ignore :: string

record PinoOptions =
  po_level :: string
  po_service :: string
  po_nodeId :: "string option"
  po_pid :: nat
  po_transport :: "PinoTransport option"

definition createLogger :: "env \<Rightarrow> nat \<Rightarrow> LoggerOptions \<Rightarrow> PinoOptions" where
  "createLogger env pid options =
     \<lparr>po_level = (case lo_level options of
                    Some l \<Rightarrow> level_name l
                  | None \<Rightarrow> (case env ''LOG_LEVEL'' of Some s \<Rightarrow> s | None \<Rightarrow> ''info'')),
      po_service = lo_service options, po_nodeId = lo_nodeId options, po_pid = pid,
      po_transport =
        (if (case lo_pretty options of Some b \<Rightarrow> b | None \<Rightarrow> env ''LOG_PRETTY'' = Some ''true'')
         then Some \<lparr>pt_target = ''pino-pretty'', pt_colorize = True, pt_translateTime = ''SYS:standard'', pt_ignore = ''pid,hostname''\<rparr>
         else None)\<rparr>"

definition rootLogger :: "env \<Rightarrow> nat \<Rightarrow> PinoOptions" where
  "rootLogger env pid = createLogger env pid \<lparr>lo_service = ''flowcache'', lo_nodeId = None, lo_level = Some LInfo, lo_pretty = None\<rparr>"

section \<open>The middleware\<close>

text \<open>The lines the middleware writes.  Of a thrown error the line keeps what the response shows of it.\<close>

datatype log_line =
    UnhandledError error_response string string
  | RequestRejected string string string
  | RequestHandled string string nat int

fun line_level :: "log_line \<Rightarrow> LogLevel" where
  "line_level (UnhandledError _ _ _) = LError"
| "line_level (RequestRejected _ _ _) = LDebug"
| "line_level (RequestHandled _ _ _ _) = LDebug"

fun line_message :: "log_line \<Rightarrow> string" where
  "line_message (UnhandledError _ _ _) = ''Unhandled error while processing request''"
| "line_message (RequestRejected _ _ _) = ''Request rejected''"
| "line_message (RequestHandled _ _ _ _) = ''Request handled''"

definition error_line :: "string \<Rightarrow> string \<Rightarrow> error_response \<Rightarrow> log_line" where
  "error_line method path e =
     (if er_status e \<ge> 500 then UnhandledError e method path else RequestRejected (er_code e) method path)"

text \<open>\<open>errorHandlerMiddleware\<close>, the same in the gateway and in the cache node.\<close>

definition errorHandlerMiddleware :: "string \<Rightarrow> string \<Rightarrow> thrown \<Rightarrow> log_line \<times> error_response" where
  "errorHandlerMiddleware method path err = (let e = toErrorResponse err in (error_line method path e, e))"

text \<open>\<open>requestLoggerMiddleware\<close>: the line written when the response is finished.\<close>

definition requestLoggerMiddleware :: "string \<Rightarrow> string \<Rightarrow> time \<Rightarrow> time \<Rightarrow> nat \<Rightarrow> log_line" where
  "requestLoggerMiddleware method path startedAt finishedAt status = RequestHandled method path status (finishedAt - startedAt)"

section \<open>configureExpress\<close>

datatype gateway_route =
    RouteHealth
  | RouteCluster
  | RouteMetrics
  | RouteGet string
  | RoutePut
  | RouteDelete string
  | UndecodablePath string
  | NoRoute

datatype 'v request_body = NoBody | JsonBody "'v PutRequestBody" | RejectedBody string

record 'v gateway_request =
  gq_method :: string
  gq_path :: string
  gq_route :: gateway_route
  gq_body :: "'v request_body"

datatype 'j gateway_body =
    HealthBody time
  | ClusterBody ClusterView
  | MetricsBody ClusterMetricsSummary
  | NodeBody 'j

fun map_reply :: "('a \<Rightarrow> 'b) \<Rightarrow> 'a http_response \<Rightarrow> 'b http_response" where
  "map_reply f (Ok200 x) = Ok200 (f x)"
| "map_reply f (ErrorReply e) = ErrorReply e"

definition json_body :: "'v request_body \<Rightarrow> 'v PutRequestBody option" where
  "json_body b = (case b of JsonBody x \<Rightarrow> Some x | _ \<Rightarrow> None)"

text \<open>The routers in their order; \<open>None\<close> is Express's own answer to a path no router takes.\<close>

fun gateway_routes :: "('v, 'j, 'w) fetch_fun \<Rightarrow> ('v, MetricsSnapshot, 'w) fetch_fun \<Rightarrow> (string \<Rightarrow> string option) \<Rightarrow> time \<Rightarrow>
    ConsistentHashRing \<Rightarrow> gateway_route \<Rightarrow> 'v request_body \<Rightarrow> 'w \<Rightarrow> 'j gateway_body http_response option \<times> 'w" where
  "gateway_routes fetch fetchMetrics decode now r RouteHealth body w = (Some (Ok200 (HealthBody now)), w)"
| "gateway_routes fetch fetchMetrics decode now r RouteCluster body w = (Some (Ok200 (ClusterBody (gateway_cluster r))), w)"
| "gateway_routes fetch fetchMetrics decode now r RouteMetrics body w =
     (let (summary, w') = gateway_metrics fetchMetrics now r w in (Some (Ok200 (MetricsBody summary)), w'))"
| "gateway_routes fetch fetchMetrics decode now r (RouteGet raw) body w =
     (let (reply, w') = gateway_get fetch decode r raw w in (Some (map_reply NodeBody reply), w'))"
| "gateway_routes fetch fetchMetrics decode now r RoutePut body w =
     (let (reply, w') = gateway_put fetch r (json_body body) w in (Some (map_reply NodeBody reply), w'))"
| "gateway_routes fetch fetchMetrics decode now r (RouteDelete raw) body w =
     (let (reply, w') = gateway_delete fetch decode r raw w in (Some (map_reply NodeBody reply), w'))"
| "gateway_routes fetch fetchMetrics decode now r (UndecodablePath message) body w =
     (Some (ErrorReply (toErrorResponse (PlainError message))), w)"
| "gateway_routes fetch fetchMetrics decode now r NoRoute body w = (None, w)"

definition sent_status :: "'j http_response option \<Rightarrow> nat" where
  "sent_status reply = (case reply of None \<Rightarrow> 404 | Some x \<Rightarrow> reply_status x)"

definition error_lines :: "string \<Rightarrow> string \<Rightarrow> 'j http_response option \<Rightarrow> log_line list" where
  "error_lines method path reply = (case reply of Some (ErrorReply e) \<Rightarrow> [error_line method path e] | _ \<Rightarrow> [])"

text \<open>A request through the whole application.  The JSON parser stands before the request logger: when it
  rejects a body, only the error handler sees the request.\<close>

definition gateway_app :: "('v, 'j, 'w) fetch_fun \<Rightarrow> ('v, MetricsSnapshot, 'w) fetch_fun \<Rightarrow> (string \<Rightarrow> string option) \<Rightarrow>
    time \<Rightarrow> time \<Rightarrow> ConsistentHashRing \<Rightarrow> 'v gateway_request \<Rightarrow> 'w \<Rightarrow> log_line list \<times> 'j gateway_body http_response option \<times> 'w" where
  "gateway_app fetch fetchMetrics decode startedAt finishedAt r req w =
     (case gq_body req of
        RejectedBody message \<Rightarrow>
          (let (line, e) = errorHandlerMiddleware (gq_method req) (gq_path req) (PlainError message)
           in ([line], Some (ErrorReply e), w))
      | body \<Rightarrow>
          (let (reply, w') = gateway_routes fetch fetchMetrics decode startedAt r (gq_route req) body w
           in (error_lines (gq_method req) (gq_path req) reply @
                 [requestLoggerMiddleware (gq_method req) (gq_path req) startedAt finishedAt (sent_status reply)], reply, w')))"

section \<open>What is logged\<close>

lemma map_reply_simps [simp]: "reply_status (map_reply f x) = reply_status x" "map_reply f x = ErrorReply e \<longleftrightarrow> x = ErrorReply e"
  by (cases x; simp)+

text \<open>Every answered request leaves its trace: a line with its status and duration last, and before it an
  error line just when the error handler answered, at the error level just when the status is 500 or more.\<close>

lemma request_logged:
  assumes "gateway_app fetch fetchMetrics decode startedAt finishedAt r req w = (lines, reply, w')"
    and "\<And>m. gq_body req \<noteq> RejectedBody m"
  shows "last lines = RequestHandled (gq_method req) (gq_path req) (sent_status reply) (finishedAt - startedAt)"
    and "(\<exists>l \<in> set lines. line_level l = LError) \<longleftrightarrow> (\<exists>e. reply = Some (ErrorReply e) \<and> er_status e \<ge> 500)"
proof -
  have "lines = error_lines (gq_method req) (gq_path req) reply @
      [requestLoggerMiddleware (gq_method req) (gq_path req) startedAt finishedAt (sent_status reply)]"
    using assms by (auto simp: gateway_app_def split: request_body.splits prod.splits)
  then show "last lines = RequestHandled (gq_method req) (gq_path req) (sent_status reply) (finishedAt - startedAt)"
    and "(\<exists>l \<in> set lines. line_level l = LError) \<longleftrightarrow> (\<exists>e. reply = Some (ErrorReply e) \<and> er_status e \<ge> 500)"
    by (auto simp: requestLoggerMiddleware_def error_lines_def error_line_def split: option.splits http_response.splits)
qed

text \<open>A body that is not JSON, a mistake of the client, is answered with status 500 and logged as an error
  of the server, without a line of the request logger.\<close>

lemma malformed_body_becomes_500:
  assumes "gq_body req = RejectedBody message"
  shows "gateway_app fetch fetchMetrics decode startedAt finishedAt r req w =
    ([UnhandledError (toErrorResponse (PlainError message)) (gq_method req) (gq_path req)],
     Some (ErrorReply \<lparr>er_status = 500, er_code = ''INTERNAL_ERROR'', er_message = message\<rparr>), w)"
  using assms by (simp add: gateway_app_def errorHandlerMiddleware_def error_line_def Let_def)

text \<open>The same for a key whose percent-encoding is malformed: Express fails to decode it before the route
  runs, so the handler's own check never sees it.\<close>

lemma malformed_key_becomes_500:
  assumes "gq_route req = UndecodablePath message" and "\<And>m. gq_body req \<noteq> RejectedBody m"
  shows "fst (snd (gateway_app fetch fetchMetrics decode startedAt finishedAt r req w)) =
    Some (ErrorReply \<lparr>er_status = 500, er_code = ''INTERNAL_ERROR'', er_message = message\<rparr>)"
  using assms by (simp add: gateway_app_def split: request_body.splits)

end
