(* ===== verification/Generators.thy ===== *)
theory Generators
  imports Workload
begin

text \<open>
  The workload generators of the benchmark package (\<open>packages/benchmark/src/workloads\<close>): sequential
  scan, uniform random, Zipfian (with its cumulative distribution and binary search), mixtures, and the
  factory that builds them.  \<open>Math.random\<close>, \<open>Math.pow\<close> and the radix-36 printing of a number are
  fields of a runtime record; the numbers themselves are exact rationals.  The theorems bound every
  generated key, give the Zipfian sampler its exact distribution, and tie the scan generator to the
  scan detection of the workload monitor.
\<close>

section \<open>types.ts\<close>

datatype WorkloadType = UNIFORM_RANDOM | ZIPFIAN | READ_HEAVY | WRITE_HEAVY | MIXED | SEQUENTIAL_SCAN

record WorkloadDefinition =
  wd_type :: WorkloadType
  wd_keyspaceSize :: nat
  wd_readRatio :: "rat option"
  wd_zipfianSkew :: "rat option"
  wd_keyPrefix :: "string option"

datatype op_kind = OP_GET | OP_PUT | OP_DELETE

record 'v BenchmarkOperation =
  bo_op :: op_kind
  bo_key :: string
  bo_value :: "'v option"
  bo_ttlMs :: "nat option"

text \<open>A number a generator prints into a key: \<open>None\<close> is \<open>NaN\<close>, which the scan cursor becomes when the
  keyspace is empty.\<close>

type_synonym js_index = "nat option"

definition show_index :: "js_index \<Rightarrow> string" where
  "show_index i = (case i of None \<Rightarrow> ''NaN'' | Some n \<Rightarrow> show_nat n)"

record SyntheticValue =
  sv_seed :: js_index
  sv_generatedAt :: time
  sv_payload :: string

type_synonym synthetic_op = "SyntheticValue BenchmarkOperation"

text \<open>What the generators take from the JavaScript runtime; \<open>'g\<close> is the state of \<open>Math.random\<close>.\<close>

record 'g runtime =
  rt_random :: "'g \<Rightarrow> rat \<times> 'g"
  rt_toString36 :: "rat \<Rightarrow> string"
  rt_pow :: "rat \<Rightarrow> rat \<Rightarrow> rat"

definition random_unit :: "'g runtime \<Rightarrow> bool" where
  "random_unit rt \<longleftrightarrow> (\<forall>g. 0 \<le> fst (rt_random rt g) \<and> fst (rt_random rt g) < 1)"

definition pow_positive :: "'g runtime \<Rightarrow> bool" where
  "pow_positive rt \<longleftrightarrow> (\<forall>b e. 0 < b \<longrightarrow> 0 < rt_pow rt b e)"

section \<open>util.ts\<close>

definition syntheticValue :: "'g runtime \<Rightarrow> time \<Rightarrow> js_index \<Rightarrow> 'g \<Rightarrow> SyntheticValue \<times> 'g" where
  "syntheticValue rt now seed g =
     (let (r, g') = rt_random rt g
      in (\<lparr>sv_seed = seed, sv_generatedAt = now, sv_payload = take 8 (drop 2 (rt_toString36 rt r))\<rparr>, g'))"

definition get_operation :: "string \<Rightarrow> synthetic_op" where
  "get_operation key = \<lparr>bo_op = OP_GET, bo_key = key, bo_value = None, bo_ttlMs = None\<rparr>"

definition put_operation :: "'g runtime \<Rightarrow> time \<Rightarrow> string \<Rightarrow> js_index \<Rightarrow> 'g \<Rightarrow> synthetic_op \<times> 'g" where
  "put_operation rt now key seed g =
     (let (v, g') = syntheticValue rt now seed g
      in (\<lparr>bo_op = OP_PUT, bo_key = key, bo_value = Some v, bo_ttlMs = None\<rparr>, g'))"

definition operation_key :: "string \<Rightarrow> js_index \<Rightarrow> string" where
  "operation_key keyPrefix i = keyPrefix @ '':'' @ show_index i"

section \<open>SequentialScanWorkload.ts\<close>

record SequentialScanWorkload =
  sw_cursor :: js_index
  sw_keyspaceSize :: nat
  sw_keyPrefix :: string
  sw_op :: op_kind

definition new_SequentialScanWorkload :: "nat \<Rightarrow> string \<Rightarrow> op_kind \<Rightarrow> SequentialScanWorkload" where
  "new_SequentialScanWorkload keyspaceSize keyPrefix oper =
     \<lparr>sw_cursor = Some 0, sw_keyspaceSize = keyspaceSize, sw_keyPrefix = keyPrefix, sw_op = oper\<rparr>"

text \<open>\<open>(cursor + 1) % keyspaceSize\<close>: a remainder by zero is \<open>NaN\<close>, and \<open>NaN\<close> stays.\<close>

definition next_cursor :: "nat \<Rightarrow> js_index \<Rightarrow> js_index" where
  "next_cursor keyspaceSize cursor =
     (case cursor of None \<Rightarrow> None | Some c \<Rightarrow> if keyspaceSize = 0 then None else Some ((c + 1) mod keyspaceSize))"

definition scan_op :: "'g runtime \<Rightarrow> time \<Rightarrow> SequentialScanWorkload \<Rightarrow> 'g \<Rightarrow>
    synthetic_op \<times> SequentialScanWorkload \<times> 'g" where
  "scan_op rt now w g =
     (let key = operation_key (sw_keyPrefix w) (sw_cursor w);
          (oper, g') = (if sw_op w = OP_GET then (get_operation key, g) else put_operation rt now key (sw_cursor w) g)
      in (oper, w\<lparr>sw_cursor := next_cursor (sw_keyspaceSize w) (sw_cursor w)\<rparr>, g'))"

section \<open>UniformRandomWorkload.ts\<close>

record UniformRandomWorkload =
  uw_type :: WorkloadType
  uw_keyspaceSize :: nat
  uw_readRatio :: rat
  uw_keyPrefix :: string

text \<open>The choice between a read and a write that the random workloads share: one draw against
  \<open>readRatio\<close>, and a synthetic value only for a write.\<close>

definition read_or_write :: "'g runtime \<Rightarrow> time \<Rightarrow> rat \<Rightarrow> string \<Rightarrow> nat \<Rightarrow> 'g \<Rightarrow> synthetic_op \<times> 'g" where
  "read_or_write rt now readRatio key i g =
     (let (r, g') = rt_random rt g
      in if r < readRatio then (get_operation key, g') else put_operation rt now key (Some i) g')"

definition uniform_op :: "'g runtime \<Rightarrow> time \<Rightarrow> UniformRandomWorkload \<Rightarrow> 'g \<Rightarrow> synthetic_op \<times> 'g" where
  "uniform_op rt now w g =
     (let (r, g') = rt_random rt g;
          index = nat \<lfloor>r * of_nat (uw_keyspaceSize w)\<rfloor>
      in read_or_write rt now (uw_readRatio w) (operation_key (uw_keyPrefix w) (Some index)) index g')"

section \<open>ZipfianWorkload.ts\<close>

definition zipf_weight :: "'g runtime \<Rightarrow> rat \<Rightarrow> nat \<Rightarrow> rat" where
  "zipf_weight rt skew rank = 1 / rt_pow rt (of_nat rank) skew"

text \<open>The running sums of the second loop of \<open>buildZipfianCdf\<close>.\<close>

fun accumulate :: "rat \<Rightarrow> rat \<Rightarrow> rat list \<Rightarrow> rat list" where
  "accumulate totalWeight cumulative [] = []"
| "accumulate totalWeight cumulative (w # ws) =
     (let c = cumulative + w / totalWeight in c # accumulate totalWeight c ws)"

text \<open>The last entry is set to 1; on an empty array the store to index \<open>-1\<close> has no effect.\<close>

definition buildZipfianCdf :: "'g runtime \<Rightarrow> nat \<Rightarrow> rat \<Rightarrow> rat list" where
  "buildZipfianCdf rt n skew =
     (let weights = map (zipf_weight rt skew) [1..<Suc n];
          totalWeight = fold (\<lambda>w t. t + w) weights 0;
          cdf = accumulate totalWeight 0 weights
      in cdf[n - 1 := 1])"

function search_cdf :: "rat list \<Rightarrow> rat \<Rightarrow> nat \<Rightarrow> nat \<Rightarrow> nat" where
  "search_cdf cdf r lo hi =
     (if lo < hi
      then let mid = (lo + hi) div 2
           in if cdf ! mid < r then search_cdf cdf r (mid + 1) hi else search_cdf cdf r lo mid
      else lo)"
  by pat_completeness auto
termination by (relation "measure (\<lambda>(cdf, r, lo, hi). hi - lo)") auto

declare search_cdf.simps [simp del]

text \<open>\<open>sampleRank\<close> on a drawn number.\<close>

definition sampleRank :: "rat list \<Rightarrow> rat \<Rightarrow> nat" where
  "sampleRank cdf r = search_cdf cdf r 0 (length cdf - 1)"

record ZipfianWorkload =
  zw_type :: WorkloadType
  zw_cdf :: "rat list"
  zw_readRatio :: rat
  zw_keyPrefix :: string

definition new_ZipfianWorkload :: "'g runtime \<Rightarrow> nat \<Rightarrow> rat \<Rightarrow> rat \<Rightarrow> string \<Rightarrow> WorkloadType \<Rightarrow> ZipfianWorkload" where
  "new_ZipfianWorkload rt keyspaceSize readRatio skew keyPrefix ty =
     \<lparr>zw_type = ty, zw_cdf = buildZipfianCdf rt keyspaceSize skew, zw_readRatio = readRatio, zw_keyPrefix = keyPrefix\<rparr>"

definition zipfian_op :: "'g runtime \<Rightarrow> time \<Rightarrow> ZipfianWorkload \<Rightarrow> 'g \<Rightarrow> synthetic_op \<times> 'g" where
  "zipfian_op rt now w g =
     (let (r, g') = rt_random rt g;
          rank = sampleRank (zw_cdf w) r
      in read_or_write rt now (zw_readRatio w) (operation_key (zw_keyPrefix w) (Some rank)) rank g')"

section \<open>MixedWorkload.ts\<close>

text \<open>A generator object; a mixture holds its first component, the others, and the total weight, since
  the constructor refuses an empty list.\<close>

datatype WorkloadGenerator =
    UniformRandom UniformRandomWorkload
  | Zipfian ZipfianWorkload
  | SequentialScan SequentialScanWorkload
  | Mixed "WorkloadGenerator \<times> rat" "(WorkloadGenerator \<times> rat) list" rat

fun new_MixedWorkload :: "(WorkloadGenerator \<times> rat) list \<Rightarrow> WorkloadGenerator result" where
  "new_MixedWorkload [] = Inl (PlainError ''MixedWorkload requires at least one component generator'')"
| "new_MixedWorkload (c # cs) = Inr (Mixed c cs (fold (\<lambda>x t. t + snd x) (c # cs) 0))"

text \<open>The position \<open>pickComponent\<close> stops at, with the fall-back to the last component.\<close>

fun pickComponent :: "rat \<Rightarrow> rat list \<Rightarrow> nat" where
  "pickComponent r [] = 0"
| "pickComponent r [w] = 0"
| "pickComponent r (w # v # ws) = (if r < w then 0 else Suc (pickComponent (r - w) (v # ws)))"

lemma pickComponent_less: "ws \<noteq> [] \<Longrightarrow> pickComponent r ws < length ws"
  by (induction r ws rule: pickComponent.induct) auto

lemma component_smaller:
  assumes "x \<in> set (c # cs)" shows "size (fst x) < size (Mixed c cs t)"
proof -
  have own: "size (fst y) \<le> size_prod size (\<lambda>_. 0) y" for y :: "WorkloadGenerator \<times> rat" by (cases y) simp
  have "x \<in> set cs \<Longrightarrow> size (fst x) \<le> size_list (size_prod size (\<lambda>_. 0)) cs"
    by (erule size_list_estimation') (rule own)
  then show ?thesis using assms own[of c] by (auto simp: less_Suc_eq_le trans_le_add1 trans_le_add2)
qed

lemma picked_smaller:
  "size (fst ((c # cs) ! pickComponent r (map snd (c # cs)))) < size (Mixed c cs t)"
  by (rule component_smaller, rule nth_mem) (use pickComponent_less[of "map snd (c # cs)" r] in simp)

text \<open>One operation of a generator.  \<open>nextBatch(1)[0]\<close> of a component is its next operation, and the
  component keeps its advanced state.\<close>

function next_op :: "'g runtime \<Rightarrow> time \<Rightarrow> WorkloadGenerator \<Rightarrow> 'g \<Rightarrow> synthetic_op \<times> WorkloadGenerator \<times> 'g" where
  "next_op rt now (UniformRandom w) g = (let (oper, g') = uniform_op rt now w g in (oper, UniformRandom w, g'))"
| "next_op rt now (Zipfian w) g = (let (oper, g') = zipfian_op rt now w g in (oper, Zipfian w, g'))"
| "next_op rt now (SequentialScan w) g = (let (oper, w', g') = scan_op rt now w g in (oper, SequentialScan w', g'))"
| "next_op rt now (Mixed c cs totalWeight) g =
     (let components = c # cs;
          (r, g1) = rt_random rt g;
          i = pickComponent (r * totalWeight) (map snd components);
          (oper, picked, g2) = next_op rt now (fst (components ! i)) g1;
          components' = components[i := (picked, snd (components ! i))]
      in (oper, Mixed (hd components') (tl components') totalWeight, g2))"
  by pat_completeness auto
termination
  by (relation "measure (\<lambda>(rt, now, w, g). size w)") (simp, simp only: in_measure prod.case picked_smaller)

text \<open>\<open>nextBatch\<close> of every generator: \<open>count\<close> operations in order.\<close>

fun nextBatch :: "'g runtime \<Rightarrow> time \<Rightarrow> nat \<Rightarrow> WorkloadGenerator \<Rightarrow> 'g \<Rightarrow> synthetic_op list \<times> WorkloadGenerator \<times> 'g" where
  "nextBatch rt now 0 w g = ([], w, g)"
| "nextBatch rt now (Suc n) w g =
     (let (oper, w1, g1) = next_op rt now w g;
          (ops, w2, g2) = nextBatch rt now n w1 g1
      in (oper # ops, w2, g2))"

fun generator_type :: "WorkloadGenerator \<Rightarrow> WorkloadType" where
  "generator_type (UniformRandom w) = uw_type w"
| "generator_type (Zipfian w) = zw_type w"
| "generator_type (SequentialScan w) = SEQUENTIAL_SCAN"
| "generator_type (Mixed c cs totalWeight) = MIXED"

section \<open>WorkloadFactory.ts\<close>

definition new_UniformRandomWorkload :: "nat \<Rightarrow> rat \<Rightarrow> string \<Rightarrow> WorkloadType \<Rightarrow> UniformRandomWorkload" where
  "new_UniformRandomWorkload keyspaceSize readRatio keyPrefix ty =
     \<lparr>uw_type = ty, uw_keyspaceSize = keyspaceSize, uw_readRatio = readRatio, uw_keyPrefix = keyPrefix\<rparr>"

definition or_default :: "'a option \<Rightarrow> 'a \<Rightarrow> 'a" where
  "or_default x d = (case x of None \<Rightarrow> d | Some v \<Rightarrow> v)"

definition createWorkload :: "'g runtime \<Rightarrow> WorkloadDefinition \<Rightarrow> WorkloadGenerator result" where
  "createWorkload rt d =
     (let keyPrefix = or_default (wd_keyPrefix d) ''key'';
          n = wd_keyspaceSize d
      in case wd_type d of
           UNIFORM_RANDOM \<Rightarrow>
             Inr (UniformRandom (new_UniformRandomWorkload n (or_default (wd_readRatio d) (8 / 10)) keyPrefix UNIFORM_RANDOM))
         | ZIPFIAN \<Rightarrow>
             Inr (Zipfian (new_ZipfianWorkload rt n (or_default (wd_readRatio d) (8 / 10))
                    (or_default (wd_zipfianSkew d) (107 / 100)) keyPrefix ZIPFIAN))
         | READ_HEAVY \<Rightarrow>
             Inr (Zipfian (new_ZipfianWorkload rt n (or_default (wd_readRatio d) (95 / 100))
                    (or_default (wd_zipfianSkew d) (12 / 10)) keyPrefix READ_HEAVY))
         | WRITE_HEAVY \<Rightarrow>
             Inr (UniformRandom (new_UniformRandomWorkload n (or_default (wd_readRatio d) (1 / 10)) keyPrefix WRITE_HEAVY))
         | SEQUENTIAL_SCAN \<Rightarrow>
             Inr (SequentialScan (new_SequentialScanWorkload n keyPrefix OP_GET))
         | MIXED \<Rightarrow>
             new_MixedWorkload
               [(UniformRandom (new_UniformRandomWorkload n (8 / 10) keyPrefix UNIFORM_RANDOM), 1),
                (Zipfian (new_ZipfianWorkload rt n (9 / 10) (11 / 10) keyPrefix ZIPFIAN), 1),
                (SequentialScan (new_SequentialScanWorkload n keyPrefix OP_GET), 5 / 10)])"

section \<open>The Zipfian sampler\<close>

lemma search_cdf_lower_bound: "search_cdf cdf r lo hi = lower_bound (\<lambda>i. cdf ! i < r) lo hi"
proof (induction cdf r lo hi rule: search_cdf.induct)
  case (1 cdf r lo hi)
  then show ?case by (subst search_cdf.simps, subst lower_bound.simps) (simp add: Let_def)
qed

lemma search_cdf_first:
  assumes "sorted cdf" "hi < length cdf" "r \<le> cdf ! hi"
  shows "r \<le> cdf ! search_cdf cdf r 0 hi \<and> (\<forall>i < search_cdf cdf r 0 hi. cdf ! i < r)"
proof -
  have "cdf ! i < r" if "i \<le> j" "j \<le> hi" "cdf ! j < r" for i j
    using sorted_nth_mono[OF assms(1) that(1)] that assms(2) by (meson le_less_trans)
  from lower_bound_first[of 0 hi "\<lambda>i. cdf ! i < r", OF _ this] assms(3)
  show ?thesis by (simp add: search_cdf_lower_bound not_less)
qed

lemma sampleRank_less: "cdf \<noteq> [] \<Longrightarrow> sampleRank cdf r < length cdf"
  using lower_bound_range[of 0 "length cdf - 1" "\<lambda>i. cdf ! i < r"]
  by (cases cdf) (auto simp: sampleRank_def search_cdf_lower_bound less_Suc_eq_le)

lemma length_accumulate [simp]: "length (accumulate t c ws) = length ws"
  by (induction t c ws rule: accumulate.induct) (auto simp: Let_def)

lemma accumulate_nth:
  "i < length ws \<Longrightarrow> accumulate t c ws ! i = c + sum_list (take (Suc i) ws) / t"
proof (induction t c ws arbitrary: i rule: accumulate.induct)
  case (2 t c w ws)
  then show ?case by (cases i) (auto simp: Let_def add_divide_distrib)
qed simp

lemma length_buildZipfianCdf [simp]: "length (buildZipfianCdf rt n skew) = n"
  by (simp add: buildZipfianCdf_def Let_def)

text \<open>The reference: rank \<open>k\<close> of \<open>n\<close> has the weight \<open>1 / (k + 1)\<^sup>s\<close>, as a share of all weights.\<close>

definition zipf_cumulative :: "'g runtime \<Rightarrow> rat \<Rightarrow> nat \<Rightarrow> nat \<Rightarrow> rat" where
  "zipf_cumulative rt skew n k = (\<Sum>i<k. zipf_weight rt skew (Suc i)) / (\<Sum>i<n. zipf_weight rt skew (Suc i))"

lemma weights_sum: "k \<le> n \<Longrightarrow>
  sum_list (take k (map (zipf_weight rt skew) [1..<Suc n])) = (\<Sum>i<k. zipf_weight rt skew (Suc i))"
proof -
  assume "k \<le> n"
  then have "take k (map (zipf_weight rt skew) [1..<Suc n]) = map (\<lambda>i. zipf_weight rt skew (Suc i)) [0..<k]"
    by (intro nth_equalityI) (auto simp del: upt_Suc)
  then show ?thesis by (simp add: interv_sum_list_conv_sum_set_nat atLeast0LessThan)
qed

lemma zipf_weight_pos: "pow_positive rt \<Longrightarrow> 0 < zipf_weight rt skew (Suc i)"
  by (simp add: zipf_weight_def pow_positive_def)

lemma zipf_total_pos: "pow_positive rt \<Longrightarrow> 0 < n \<Longrightarrow> 0 < (\<Sum>i<n. zipf_weight rt skew (Suc i))"
  by (rule sum_pos) (auto simp: zipf_weight_pos)

lemma fold_sum: "fold (\<lambda>w t. t + w) ws a = a + sum_list (ws :: rat list)"
  by (induction ws arbitrary: a) (simp_all add: ac_simps)

lemma buildZipfianCdf_nth:
  assumes "pow_positive rt" "k < n"
  shows "buildZipfianCdf rt n skew ! k = zipf_cumulative rt skew n (Suc k)"
proof -
  have all: "sum_list (map (zipf_weight rt skew) [Suc 0..<Suc n]) = (\<Sum>i<n. zipf_weight rt skew (Suc i))"
    using weights_sum[of n n rt skew] by (simp del: upt_Suc)
  show ?thesis
  proof (cases "k = n - 1")
    case True
    then have "zipf_cumulative rt skew n (Suc k) = 1"
      using assms zipf_total_pos[OF assms(1), of n skew] by (simp add: zipf_cumulative_def)
    then show ?thesis using True assms by (simp add: buildZipfianCdf_def Let_def)
  next
    case False
    then show ?thesis using assms weights_sum[of "Suc k" n rt skew]
      by (simp add: buildZipfianCdf_def Let_def accumulate_nth fold_sum all zipf_cumulative_def del: upt_Suc take_map)
  qed
qed

lemma zipf_cumulative_mono: "pow_positive rt \<Longrightarrow> i \<le> j \<Longrightarrow> zipf_cumulative rt skew n i \<le> zipf_cumulative rt skew n j"
  unfolding zipf_cumulative_def
  by (intro divide_right_mono sum_mono2 sum_nonneg) (auto intro: less_imp_le zipf_weight_pos)

lemma zipf_cumulative_all: "pow_positive rt \<Longrightarrow> 0 < n \<Longrightarrow> zipf_cumulative rt skew n n = 1"
  using zipf_total_pos[of rt n skew] by (simp add: zipf_cumulative_def)

lemma buildZipfianCdf_sorted: "pow_positive rt \<Longrightarrow> sorted (buildZipfianCdf rt n skew)"
  by (auto simp: sorted_iff_nth_mono buildZipfianCdf_nth intro: zipf_cumulative_mono)

lemma sampleRank_first:
  assumes "pow_positive rt" "0 < n" "r < 1"
  shows "r \<le> zipf_cumulative rt skew n (Suc (sampleRank (buildZipfianCdf rt n skew) r)) \<and>
    (\<forall>i < sampleRank (buildZipfianCdf rt n skew) r. zipf_cumulative rt skew n (Suc i) < r)"
proof -
  let ?cdf = "buildZipfianCdf rt n skew" and ?k = "sampleRank (buildZipfianCdf rt n skew) r"
  have "?cdf \<noteq> []" using assms(2) length_buildZipfianCdf[of rt n skew] by (metis length_greater_0_conv)
  then have less: "?k < n" using sampleRank_less[of ?cdf r] by simp
  have "?cdf ! (n - 1) = 1" using buildZipfianCdf_nth[OF assms(1), of "n - 1" n skew] assms(2)
    by (simp add: zipf_cumulative_all[OF assms(1,2)])
  then have "r \<le> ?cdf ! ?k \<and> (\<forall>i < ?k. ?cdf ! i < r)"
    using search_cdf_first[OF buildZipfianCdf_sorted[OF assms(1)], of "n - 1" n skew r] assms(2,3)
    by (simp add: sampleRank_def)
  then show ?thesis using less by (auto simp: buildZipfianCdf_nth[OF assms(1)])
qed

text \<open>C38. The Zipfian generator samples the Zipf distribution exactly: for a number drawn in
  \<open>[0, 1)\<close> the binary search answers rank \<open>k\<close> just when the number lies above the cumulative share of
  the ranks before \<open>k\<close> (rank 0 also takes 0 itself) and not above that of the ranks up to \<open>k\<close>, and that
  interval is as long as the share of the weight \<open>1 / (k + 1)^skew\<close> among all weights.\<close>

theorem zipfian_sampler_exact:
  assumes "pow_positive rt" and "0 < n" and "r < 1"
  shows "(sampleRank (buildZipfianCdf rt n skew) r = k \<longleftrightarrow>
      k < n \<and> (k = 0 \<or> zipf_cumulative rt skew n k < r) \<and> r \<le> zipf_cumulative rt skew n (Suc k)) \<and>
    zipf_cumulative rt skew n (Suc k) - zipf_cumulative rt skew n k =
      (1 / rt_pow rt (of_nat (Suc k)) skew) / (\<Sum>i<n. 1 / rt_pow rt (of_nat (Suc i)) skew)"
proof
  let ?s = "sampleRank (buildZipfianCdf rt n skew) r"
  have "?s < n" using sampleRank_less[of "buildZipfianCdf rt n skew" r] assms(2)
    by (metis length_buildZipfianCdf length_greater_0_conv)
  moreover note first = sampleRank_first[OF assms, of skew]
  moreover have "?s = 0 \<or> zipf_cumulative rt skew n ?s < r" using first by (cases ?s) auto
  moreover have "k = ?s" if "k = 0 \<or> zipf_cumulative rt skew n k < r" "r \<le> zipf_cumulative rt skew n (Suc k)"
  proof (rule ccontr)
    assume "k \<noteq> ?s"
    then consider "k < ?s" | "Suc ?s \<le> k" by linarith
    then show False
    proof cases
      case 1 then show False using first that(2) by force
    next
      case 2 then show False using first that(1) zipf_cumulative_mono[OF assms(1) 2, of skew n] by force
    qed
  qed
  ultimately show "?s = k \<longleftrightarrow>
      k < n \<and> (k = 0 \<or> zipf_cumulative rt skew n k < r) \<and> r \<le> zipf_cumulative rt skew n (Suc k)" by auto
qed (simp add: zipf_cumulative_def zipf_weight_def diff_divide_distrib[symmetric])

text \<open>A concrete runtime: the draws are a list read in order, \<open>Math.pow\<close> of exponent one.\<close>

definition demo_runtime :: "rat list runtime" where
  "demo_runtime = \<lparr>rt_random = (\<lambda>g. case g of [] \<Rightarrow> (0, []) | r # rs \<Rightarrow> (if 0 \<le> r \<and> r < 1 then r else 0, rs)),
     rt_toString36 = (\<lambda>r. ''0.'' @ show_nat (nat \<lfloor>r * 1000\<rfloor>)), rt_pow = (\<lambda>b e. b)\<rparr>"

lemma demo_runtime_ok: "pow_positive demo_runtime" "random_unit demo_runtime"
  by (auto simp: pow_positive_def random_unit_def demo_runtime_def split: list.splits)

theorem zipfian_sampler_exact_witness:
  "sampleRank (buildZipfianCdf demo_runtime 3 1) (7 / 10) = 1 \<and>
   zipf_cumulative demo_runtime 1 3 1 < 7 / 10 \<and> 7 / 10 \<le> zipf_cumulative demo_runtime 1 3 (Suc 1)"
proof -
  have "sampleRank (buildZipfianCdf demo_runtime 3 1) (7 / 10) = 1" by code_simp
  then show ?thesis
    using zipfian_sampler_exact[OF demo_runtime_ok(1), of 3 "7 / 10" 1 1] by simp
qed

section \<open>Every operation stays in the keyspace\<close>

definition op_in_keyspace :: "nat \<Rightarrow> string \<Rightarrow> synthetic_op \<Rightarrow> bool" where
  "op_in_keyspace K p oper \<longleftrightarrow>
     (\<exists>i < K. bo_key oper = p @ '':'' @ show_nat i \<and>
        (bo_op oper = OP_GET \<and> bo_value oper = None \<or>
         bo_op oper = OP_PUT \<and> (\<exists>v. bo_value oper = Some v \<and> sv_seed v = Some i)))"

fun generator_ok :: "nat \<Rightarrow> string \<Rightarrow> WorkloadGenerator \<Rightarrow> bool" where
  "generator_ok K p (UniformRandom w) \<longleftrightarrow> uw_keyspaceSize w = K \<and> uw_keyPrefix w = p"
| "generator_ok K p (Zipfian w) \<longleftrightarrow> length (zw_cdf w) = K \<and> zw_keyPrefix w = p"
| "generator_ok K p (SequentialScan w) \<longleftrightarrow>
     sw_keyspaceSize w = K \<and> sw_keyPrefix w = p \<and> (\<exists>c < K. sw_cursor w = Some c)"
| "generator_ok K p (Mixed c cs totalWeight) \<longleftrightarrow> (\<forall>x \<in> set (c # cs). generator_ok K p (fst x))"

lemma get_operation_ok: "i < K \<Longrightarrow> op_in_keyspace K p (get_operation (operation_key p (Some i)))"
  by (auto simp: op_in_keyspace_def get_operation_def operation_key_def show_index_def)

lemma put_operation_ok: "i < K \<Longrightarrow> op_in_keyspace K p (fst (put_operation rt now (operation_key p (Some i)) (Some i) g))"
  by (auto simp: op_in_keyspace_def put_operation_def operation_key_def show_index_def syntheticValue_def
      split: prod.splits)

lemma read_or_write_ok: "i < K \<Longrightarrow> op_in_keyspace K p (fst (read_or_write rt now q (operation_key p (Some i)) i g))"
  using get_operation_ok put_operation_ok by (auto simp: read_or_write_def split: prod.splits)

lemma scaled_index_less: "0 < K \<Longrightarrow> 0 \<le> r \<Longrightarrow> r < 1 \<Longrightarrow> nat \<lfloor>r * of_nat K\<rfloor> < K" for r :: rat
  by (simp add: nat_less_iff floor_less_iff)

lemma uniform_op_ok:
  assumes "random_unit rt" "0 < K" "uw_keyspaceSize w = K"
  shows "op_in_keyspace K (uw_keyPrefix w) (fst (uniform_op rt now w g))"
  using assms(1)[unfolded random_unit_def, rule_format, of g] assms(2,3)
  by (auto simp: uniform_op_def Let_def split: prod.splits intro!: read_or_write_ok scaled_index_less)

lemma zipfian_op_ok:
  assumes "0 < K" "length (zw_cdf w) = K"
  shows "op_in_keyspace K (zw_keyPrefix w) (fst (zipfian_op rt now w g))"
  using sampleRank_less[of "zw_cdf w"] assms
  by (auto simp: zipfian_op_def Let_def split: prod.splits intro!: read_or_write_ok)

lemma scan_op_ok:
  assumes "0 < K" "generator_ok K p (SequentialScan w)"
  shows "op_in_keyspace K p (fst (scan_op rt now w g)) \<and>
    generator_ok K p (SequentialScan (fst (snd (scan_op rt now w g))))"
proof -
  obtain c where c: "c < K" "sw_cursor w = Some c" and w: "sw_keyspaceSize w = K" "sw_keyPrefix w = p"
    using assms(2) by auto
  have next_c: "(c + 1) mod K < K" using assms(1) by simp
  show ?thesis
  proof (cases "sw_op w = OP_GET")
    case True
    then show ?thesis using get_operation_ok[OF c(1)] next_c assms(1) by (simp add: scan_op_def next_cursor_def c w)
  next
    case False
    then show ?thesis using put_operation_ok[OF c(1), of p rt now g] next_c assms(1)
      by (cases "put_operation rt now (operation_key p (Some c)) (Some c) g") (simp add: scan_op_def next_cursor_def c w)
  qed
qed

lemma next_op_ok:
  assumes "random_unit rt" "0 < K" "generator_ok K p w"
  shows "op_in_keyspace K p (fst (next_op rt now w g)) \<and> generator_ok K p (fst (snd (next_op rt now w g))) \<and>
    generator_type (fst (snd (next_op rt now w g))) = generator_type w"
  using assms
proof (induction rt now w g rule: next_op.induct)
  case (1 rt now w g)
  then show ?case using uniform_op_ok[of rt K w now g] by (auto split: prod.splits)
next
  case (2 rt now w g)
  then show ?case using zipfian_op_ok[of K w rt now g] by (auto split: prod.splits)
next
  case (3 rt now w g)
  then show ?case using scan_op_ok[of K p w rt now g] by (auto split: prod.splits)
next
  case (4 rt now c cs t g)
  obtain r g1 where r: "rt_random rt g = (r, g1)" by force
  let ?i = "pickComponent (r * t) (map snd (c # cs))"
  obtain oper w' g2 where n: "next_op rt now (fst ((c # cs) ! ?i)) g1 = (oper, w', g2)" by (metis prod_cases3)
  have mem: "(c # cs) ! ?i \<in> set (c # cs)"
    by (rule nth_mem) (use pickComponent_less[of "map snd (c # cs)" "r * t"] in simp)
  let ?cs = "(c # cs)[?i := (w', snd ((c # cs) ! ?i))]"
  have eq: "next_op rt now (Mixed c cs t) g = (oper, Mixed (hd ?cs) (tl ?cs) t, g2)"
    by (simp only: next_op.simps Let_def r n prod.case)
  have IH: "op_in_keyspace K p oper" "generator_ok K p w'"
    using "4.IH"[OF refl r[symmetric] refl refl 4(2,3)] 4(4) mem n by auto
  have "set (hd ?cs # tl ?cs) \<subseteq> insert (w', snd ((c # cs) ! ?i)) (set (c # cs))"
    using set_update_subset_insert[of "c # cs" ?i] by (metis hd_Cons_tl length_list_update length_0_conv list.distinct(1))
  then have "\<forall>x \<in> set (hd ?cs # tl ?cs). generator_ok K p (fst x)" using IH(2) 4(4) by auto
  then show ?case using IH(1) by (simp only: eq fst_conv snd_conv generator_ok.simps generator_type.simps)
qed

text \<open>What every source of operations promises: from a well-formed state each draw is a good operation and
  leaves a well-formed state.  A batch of draws then has the requested length and is good throughout.\<close>

fun draws :: "('w \<Rightarrow> 'g \<Rightarrow> 'o \<times> 'w \<times> 'g) \<Rightarrow> nat \<Rightarrow> 'w \<Rightarrow> 'g \<Rightarrow> 'o list \<times> 'w \<times> 'g" where
  "draws draw 0 w g = ([], w, g)"
| "draws draw (Suc n) w g =
     (let (x, w1, g1) = draw w g; (xs, w2, g2) = draws draw n w1 g1 in (x # xs, w2, g2))"

locale op_source =
  fixes draw :: "'w \<Rightarrow> 'g \<Rightarrow> 'o \<times> 'w \<times> 'g" and good :: "'o \<Rightarrow> bool" and inv :: "'w \<Rightarrow> bool"
  assumes draw_good: "inv w \<Longrightarrow> good (fst (draw w g))"
    and draw_inv: "inv w \<Longrightarrow> inv (fst (snd (draw w g)))"
begin

lemma draws_good:
  assumes "inv w" "draws draw n w g = (xs, w', g')"
  shows "length xs = n \<and> list_all good xs \<and> inv w'"
  using assms
proof (induction n arbitrary: w g xs w' g')
  case (Suc n)
  obtain x w1 g1 where x: "draw w g = (x, w1, g1)" by (metis prod_cases3)
  obtain ys w2 g2 where b: "draws draw n w1 g1 = (ys, w2, g2)" by (metis prod_cases3)
  have "good x" "inv w1" using draw_good[OF Suc.prems(1), of g] draw_inv[OF Suc.prems(1), of g] x by auto
  then show ?case using Suc.IH[OF _ b] Suc.prems(2) by (auto simp: x b)
qed simp

end

interpretation generator: op_source "next_op rt now" "op_in_keyspace K p"
  "\<lambda>w. random_unit rt \<and> 0 < K \<and> generator_ok K p w" for rt now K p
  by unfold_locales (simp_all add: next_op_ok)

lemma nextBatch_draws: "nextBatch rt now n w g = draws (next_op rt now) n w g"
  by (induction rt now n w g rule: nextBatch.induct) (simp_all add: Let_def split: prod.splits)

lemma nextBatch_ok:
  assumes "random_unit rt" "0 < K" "generator_ok K p w" "nextBatch rt now n w g = (ops, w', g')"
  shows "length ops = n \<and> list_all (op_in_keyspace K p) ops \<and> generator_ok K p w'"
  using generator.draws_good[of rt K p w now n g ops w' g'] assms by (simp add: nextBatch_draws)

text \<open>Several batches in a row, each with its clock reading and size.\<close>

fun batches :: "'g runtime \<Rightarrow> (time \<times> nat) list \<Rightarrow> WorkloadGenerator \<Rightarrow> 'g \<Rightarrow> synthetic_op list list" where
  "batches rt [] w g = []"
| "batches rt ((now, n) # rest) w g =
     (let (ops, w', g') = nextBatch rt now n w g in ops # batches rt rest w' g')"

lemma batches_ok:
  assumes "random_unit rt" "0 < K" "generator_ok K p w"
  shows "map length (batches rt sizes w g) = map snd sizes \<and> list_all (list_all (op_in_keyspace K p)) (batches rt sizes w g)"
  using assms(3)
proof (induction sizes arbitrary: w g)
  case (Cons x sizes)
  obtain now n where x: "x = (now, n)" by force
  obtain ops w' g' where b: "nextBatch rt now n w g = (ops, w', g')" by (metis prod_cases3)
  show ?case using nextBatch_ok[OF assms(1,2) Cons.prems b] Cons.IH[of w' g'] by (simp add: x b)
qed simp

lemma createWorkload_ok:
  assumes "0 < wd_keyspaceSize d"
  obtains w where "createWorkload rt d = Inr w" "generator_type w = wd_type d"
    "generator_ok (wd_keyspaceSize d) (or_default (wd_keyPrefix d) ''key'') w"
  using that assms
  by (cases "wd_type d")
    (simp_all add: createWorkload_def Let_def new_UniformRandomWorkload_def new_ZipfianWorkload_def
      new_SequentialScanWorkload_def)

text \<open>C39. The factory builds a generator of the requested type for every definition, and with a
  nonempty keyspace of size \<open>K\<close> and draws in \<open>[0, 1)\<close> every batch of every sequence of batches has the
  requested size and holds only reads and writes of keys \<open>prefix:i\<close> with \<open>i < K\<close>; a write carries a
  value whose seed is \<open>i\<close>, a read carries none.\<close>

theorem workload_well_typed:
  assumes "random_unit rt" and "0 < wd_keyspaceSize d"
  shows "\<exists>w. createWorkload rt d = Inr w \<and> generator_type w = wd_type d \<and>
    map length (batches rt sizes w g) = map snd sizes \<and>
    list_all (list_all (op_in_keyspace (wd_keyspaceSize d) (or_default (wd_keyPrefix d) ''key''))) (batches rt sizes w g)"
proof -
  obtain w where w: "createWorkload rt d = Inr w" "generator_type w = wd_type d"
    "generator_ok (wd_keyspaceSize d) (or_default (wd_keyPrefix d) ''key'') w" by (rule createWorkload_ok[OF assms(2)])
  then show ?thesis using batches_ok[OF assms w(3)] by blast
qed

theorem workload_well_typed_witness:
  "\<exists>w. createWorkload demo_runtime \<lparr>wd_type = MIXED, wd_keyspaceSize = 4, wd_readRatio = None,
       wd_zipfianSkew = None, wd_keyPrefix = Some ''k''\<rparr> = Inr w \<and>
     list_all (list_all (op_in_keyspace 4 ''k'')) (batches demo_runtime [(0, 2), (5, 1)] w [9 / 10, 1 / 3, 1 / 2])"
  using workload_well_typed[OF demo_runtime_ok(2), of "\<lparr>wd_type = MIXED, wd_keyspaceSize = 4, wd_readRatio = None,
       wd_zipfianSkew = None, wd_keyPrefix = Some ''k''\<rparr>" "[(0, 2), (5, 1)]" "[9 / 10, 1 / 3, 1 / 2]"]
  by (auto simp: or_default_def)

section \<open>The scan generator and the scan detector\<close>

lemma scan_batch:
  assumes "sw_op w = OP_GET" "sw_cursor w = Some c" "c + n \<le> sw_keyspaceSize w"
  shows "map bo_key (fst (nextBatch rt now n (SequentialScan w) g)) =
    map (\<lambda>i. (sw_keyPrefix w @ '':'') @ show_nat (c + i)) [0..<n]"
  using assms
proof (induction n arbitrary: w c g)
  case (Suc n)
  let ?w = "w\<lparr>sw_cursor := next_cursor (sw_keyspaceSize w) (sw_cursor w)\<rparr>"
  have s: "scan_op rt now w g = (get_operation (operation_key (sw_keyPrefix w) (Some c)), ?w, g)"
    by (simp add: scan_op_def Suc.prems)
  show ?case
  proof (cases n)
    case 0
    then show ?thesis by (simp add: s get_operation_def operation_key_def show_index_def)
  next
    case (Suc m)
    have "sw_cursor ?w = Some (Suc c)" using Suc.prems Suc by (simp add: next_cursor_def)
    from Suc.IH[OF _ this, of g] Suc.prems
    have "map bo_key (fst (nextBatch rt now n (SequentialScan ?w) g)) =
      map (\<lambda>i. (sw_keyPrefix w @ '':'') @ show_nat (Suc c + i)) [0..<n]" by simp
    moreover have "map f [0..<Suc n] = f 0 # map (\<lambda>i. f (Suc i)) [0..<n]" for f :: "nat \<Rightarrow> string"
      by (simp add: upt_conv_Cons map_Suc_upt[symmetric] comp_def del: upt_Suc)
    ultimately show ?thesis
      by (cases "nextBatch rt now n (SequentialScan ?w) g")
        (simp add: s get_operation_def operation_key_def show_index_def del: upt_Suc)
  qed
qed simp

text \<open>The scan workload drives the cache to LRU: whatever answers its first \<open>n \<ge> 2\<close> reads get
  (without wrapping around the keyspace), a fresh workload monitor that observed them scores the scan
  \<open>(n - 1) / n\<close> and the decision rules choose LRU unless memory pressure takes precedence.\<close>

theorem scan_workload_selects_LRU:
  assumes "new_WorkloadMonitor = Inr m0" and "wd_type d = SEQUENTIAL_SCAN" and "createWorkload rt d = Inr w"
    and "2 \<le> n" and "n \<le> wd_keyspaceSize d"
    and "list_all (\<lambda>c. \<not> line_terminator c) (or_default (wd_keyPrefix d) ''key'')"
    and "map traffic_key ts = map bo_key (fst (nextBatch rt now n w g))"
  shows "let s = fst (computeSignals r (fold wm_exec ts m0))
    in ws_sequentialAccessScore s = of_nat (n - 1) / of_nat n \<and>
       pd_policy (decidePolicy s) = (if r \<ge> 85 / 100 then TINY_LFU else LRU)"
proof -
  let ?p = "or_default (wd_keyPrefix d) ''key'' @ '':''"
  have w: "w = SequentialScan (new_SequentialScanWorkload (wd_keyspaceSize d) (or_default (wd_keyPrefix d) ''key'') OP_GET)"
    using assms(2,3) by (simp add: createWorkload_def Let_def)
  have "map traffic_key ts = map (\<lambda>i. ?p @ show_nat (0 + i)) [0..<Suc (n - 1)]"
    using assms(4,5,7) unfolding w
    by (subst (asm) scan_batch[where c = 0]) (simp_all add: new_SequentialScanWorkload_def del: upt_Suc)
  moreover have "\<forall>c \<in> set ?p. \<not> line_terminator c" using assms(6)
    by (auto simp: list_all_iff line_terminator_def)
  moreover have "?p = [] \<or> \<not> is_digit (last ?p)" by (simp add: is_digit_def)
  ultimately show ?thesis using scan_recommends_LRU[OF assms(1), of ts ?p 0 "n - 1" r] assms(4) by (simp add: Let_def del: upt_Suc)
qed

theorem scan_workload_selects_LRU_witness:
  "\<exists>m0 w. new_WorkloadMonitor = Inr m0 \<and>
     createWorkload demo_runtime \<lparr>wd_type = SEQUENTIAL_SCAN, wd_keyspaceSize = 100, wd_readRatio = None,
       wd_zipfianSkew = None, wd_keyPrefix = Some ''v2''\<rparr> = Inr w \<and>
     map bo_key (fst (nextBatch demo_runtime 0 3 w [])) = [''v2:0'', ''v2:1'', ''v2:2''] \<and>
     pd_policy (decidePolicy (fst (computeSignals 0 (fold wm_exec [TMiss ''v2:0'', THit ''v2:1'', TMiss ''v2:2''] m0)))) = LRU"
proof -
  let ?d = "\<lparr>wd_type = SEQUENTIAL_SCAN, wd_keyspaceSize = 100, wd_readRatio = None, wd_zipfianSkew = None,
    wd_keyPrefix = Some ''v2''\<rparr>"
  let ?w = "SequentialScan (new_SequentialScanWorkload 100 ''v2'' OP_GET)"
  obtain m0 where m0: "new_WorkloadMonitor = Inr m0" using wm_new_exists by blast
  have w: "createWorkload demo_runtime ?d = Inr ?w" by (simp add: createWorkload_def Let_def or_default_def)
  have keys: "map bo_key (fst (nextBatch demo_runtime 0 3 ?w [])) = [''v2:0'', ''v2:1'', ''v2:2'']" by code_simp
  have "list_all (\<lambda>c. \<not> line_terminator c) (or_default (wd_keyPrefix ?d) ''key'')" by code_simp
  from scan_workload_selects_LRU[OF m0 _ w _ _ this, of 3 "[TMiss ''v2:0'', THit ''v2:1'', TMiss ''v2:2'']" 0 "[]" 0] keys
  show ?thesis using m0 w by (intro exI[of _ m0] exI[of _ ?w]) (simp add: Let_def)
qed

end
