(* ===== verification/Benchmark.thy ===== *)
theory Benchmark
  imports Generators Metrics WorkerPool
begin

text \<open>
  The benchmark engine: the worker task that executes a batch of operations over HTTP
  (\<open>benchmarkExecuteOpsHandler.ts\<close>), the runner that keeps batches in flight until its deadline
  (\<open>BenchmarkRunner.ts\<close>), the comparison of eviction policies (\<open>PolicyComparisonRunner.ts\<close>) and the
  report (\<open>ReportGenerator.ts\<close>).  \<open>fetch\<close> on the target is a parameter.  The theorems show that no
  operation is lost or counted twice under any interleaving of batches, and that the report names
  the best runs.
\<close>

section \<open>benchmarkExecuteOpsHandler.ts\<close>

record OpCounts =
  oc_GET :: nat
  oc_PUT :: nat
  oc_DELETE :: nat

definition zero_counts :: OpCounts where "zero_counts = \<lparr>oc_GET = 0, oc_PUT = 0, oc_DELETE = 0\<rparr>"

definition count_op :: "op_kind \<Rightarrow> OpCounts \<Rightarrow> OpCounts" where
  "count_op k c =
     (case k of OP_GET \<Rightarrow> c\<lparr>oc_GET := oc_GET c + 1\<rparr> | OP_PUT \<Rightarrow> c\<lparr>oc_PUT := oc_PUT c + 1\<rparr>
      | OP_DELETE \<Rightarrow> c\<lparr>oc_DELETE := oc_DELETE c + 1\<rparr>)"

record BenchmarkExecuteOpsResult =
  xr_latenciesMs :: "rat list"
  xr_errors :: nat
  xr_opCounts :: OpCounts

type_synonym ('v, 'j, 'w) target_fetch = "'v http_request \<Rightarrow> 'w \<Rightarrow> 'j http_outcome \<times> 'w"

text \<open>A status the operation accepts; for a read and a delete a missing key is no error.\<close>

definition accepted_status :: "op_kind \<Rightarrow> nat \<Rightarrow> bool" where
  "accepted_status k status = (case k of OP_PUT \<Rightarrow> response_ok status | _ \<Rightarrow> response_ok status \<or> status = 404)"

definition request_of :: "'v BenchmarkOperation \<Rightarrow> 'v http_request" where
  "request_of operation =
     (case bo_op operation of
        OP_GET \<Rightarrow> GetKey (bo_key operation)
      | OP_PUT \<Rightarrow> PutBody \<lparr>pb_key = Some (bo_key operation), pb_value = bo_value operation,
                    pb_ttlMs = (case bo_ttlMs operation of None \<Rightarrow> TtlUndefined | Some t \<Rightarrow> TtlNumber (int t))\<rparr>
      | OP_DELETE \<Rightarrow> DeleteKey (bo_key operation))"

definition failure_message :: "'v BenchmarkOperation \<Rightarrow> nat \<Rightarrow> string" where
  "failure_message operation status =
     (case bo_op operation of
        OP_GET \<Rightarrow> ''GET /cache/'' @ bo_key operation
      | OP_PUT \<Rightarrow> ''PUT /cache (key='' @ bo_key operation @ '')''
      | OP_DELETE \<Rightarrow> ''DELETE /cache/'' @ bo_key operation) @ '' failed with status '' @ show_nat status"

definition executeOperation :: "('v, 'j, 'w) target_fetch \<Rightarrow> 'v BenchmarkOperation \<Rightarrow> 'w \<Rightarrow> unit result \<times> 'w" where
  "executeOperation fetch operation w =
     (let (outcome, w') = fetch (request_of operation) w
      in (case outcome of
            FetchRejected \<Rightarrow> Inl (PlainError ''fetch failed'')
          | Response status body \<Rightarrow>
              if accepted_status (bo_op operation) status then Inr ()
              else Inl (PlainError (failure_message operation status)), w'))"

text \<open>One iteration of the handler's loop; \<open>hrtime\<close> reads the monotonic clock in nanoseconds.\<close>

definition execute_one :: "('v, 'j, 'w) target_fetch \<Rightarrow> ('w \<Rightarrow> int) \<Rightarrow> 'v BenchmarkOperation \<Rightarrow>
    BenchmarkExecuteOpsResult \<times> 'w \<Rightarrow> BenchmarkExecuteOpsResult \<times> 'w" where
  "execute_one fetch hrtime operation = (\<lambda>(res, w).
     (let (outcome, w') = executeOperation fetch operation w;
          res1 = (case outcome of
                    Inr _ \<Rightarrow> res\<lparr>xr_opCounts := count_op (bo_op operation) (xr_opCounts res)\<rparr>
                  | Inl _ \<Rightarrow> res\<lparr>xr_errors := xr_errors res + 1\<rparr>)
      in (res1\<lparr>xr_latenciesMs := xr_latenciesMs res1 @ [of_int (hrtime w' - hrtime w) / 1000000]\<rparr>, w')))"

definition benchmarkExecuteOps :: "('v, 'j, 'w) target_fetch \<Rightarrow> ('w \<Rightarrow> int) \<Rightarrow> 'v BenchmarkOperation list \<Rightarrow> 'w \<Rightarrow>
    BenchmarkExecuteOpsResult \<times> 'w" where
  "benchmarkExecuteOps fetch hrtime operations w =
     fold (execute_one fetch hrtime) operations (\<lparr>xr_latenciesMs = [], xr_errors = 0, xr_opCounts = zero_counts\<rparr>, w)"

section \<open>BenchmarkRunner.ts\<close>

definition DEFAULT_OPS_PER_BATCH :: nat where "DEFAULT_OPS_PER_BATCH = 50"

definition DEFAULT_POOL_SIZE :: nat where "DEFAULT_POOL_SIZE = 8"

text \<open>The runner: it uses the given pool, or a pool of its own that it also disposes of.\<close>

record 'p BenchmarkRunner =
  rn_pool :: "'p WorkerPool"
  rn_ownsPool :: bool

definition new_BenchmarkRunner :: "'p WorkerPool option \<Rightarrow> nat option \<Rightarrow> ('p, 'r) pool_effect list \<times> 'p BenchmarkRunner" where
  "new_BenchmarkRunner pool poolSize =
     (case pool of
        Some p \<Rightarrow> ([], \<lparr>rn_pool = p, rn_ownsPool = False\<rparr>)
      | None \<Rightarrow> (let (eff, p) = new_WorkerPool (or_default poolSize DEFAULT_POOL_SIZE) None
                 in (eff, \<lparr>rn_pool = p, rn_ownsPool = True\<rparr>)))"

definition runner_dispose :: "'p BenchmarkRunner \<Rightarrow> ('p, 'r) pool_effect list \<times> 'p BenchmarkRunner" where
  "runner_dispose r =
     (if rn_ownsPool r
      then let (eff, p) = pool_dispose (rn_pool r) in (eff, r\<lparr>rn_pool := pool_dispose_end p\<rparr>)
      else ([], r))"

text \<open>A shared pool survives its runners.\<close>

lemma shared_pool_kept: "runner_dispose (snd (new_BenchmarkRunner (Some p) poolSize)) = ([], \<lparr>rn_pool = p, rn_ownsPool = False\<rparr>)"
  by (simp add: new_BenchmarkRunner_def runner_dispose_def)

record BenchmarkRunOptions =
  ro_name :: string
  ro_workload :: WorkloadDefinition
  ro_durationMs :: int
  ro_concurrency :: nat
  ro_opsPerBatch :: "nat option"

definition opsPerBatch :: "BenchmarkRunOptions \<Rightarrow> nat" where
  "opsPerBatch options = or_default (ro_opsPerBatch options) DEFAULT_OPS_PER_BATCH"

text \<open>Where \<open>run\<close> stands: at the head of the outer loop, in the inner loop, waiting in
  \<open>Promise.race\<close>, after the race, in the final \<open>Promise.all\<close>, or done.\<close>

datatype run_phase = LoopHead | Filling | Racing | Raced | Draining | Finished

record 'g bench_run =
  bn_phase :: run_phase
  bn_generator :: WorkloadGenerator
  bn_random :: 'g
  bn_startedAt :: time
  bn_launched :: nat
  bn_inFlight :: "(nat \<times> synthetic_op list) list"
  bn_latencies :: "rat list"
  bn_opCounts :: OpCounts
  bn_errors :: nat

definition deadline :: "BenchmarkRunOptions \<Rightarrow> 'g bench_run \<Rightarrow> time" where
  "deadline options s = bn_startedAt s + ro_durationMs options"

definition run_begin :: "'g runtime \<Rightarrow> BenchmarkRunOptions \<Rightarrow> time \<Rightarrow> 'g \<Rightarrow> 'g bench_run result" where
  "run_begin rt options now g =
     (case createWorkload rt (ro_workload options) of
        Inl e \<Rightarrow> Inl e
      | Inr generator \<Rightarrow> Inr \<lparr>bn_phase = LoopHead, bn_generator = generator, bn_random = g, bn_startedAt = now,
          bn_launched = 0, bn_inFlight = [], bn_latencies = [], bn_opCounts = zero_counts, bn_errors = 0\<rparr>)"

definition launchBatch :: "'g runtime \<Rightarrow> BenchmarkRunOptions \<Rightarrow> time \<Rightarrow> 'g bench_run \<Rightarrow> 'g bench_run" where
  "launchBatch rt options now s =
     (let (batch, w, g) = nextBatch rt now (opsPerBatch options) (bn_generator s) (bn_random s)
      in s\<lparr>bn_generator := w, bn_random := g, bn_launched := bn_launched s + 1,
           bn_inFlight := bn_inFlight s @ [(bn_launched s, batch)]\<rparr>)"

definition add_counts :: "OpCounts \<Rightarrow> OpCounts \<Rightarrow> OpCounts" where
  "add_counts c d = \<lparr>oc_GET = oc_GET c + oc_GET d, oc_PUT = oc_PUT c + oc_PUT d, oc_DELETE = oc_DELETE c + oc_DELETE d\<rparr>"

text \<open>The \<open>then\<close>, \<open>catch\<close> and \<open>finally\<close> of a batch's promise.\<close>

definition batch_then :: "nat \<Rightarrow> BenchmarkExecuteOpsResult \<Rightarrow> 'g bench_run \<Rightarrow> 'g bench_run" where
  "batch_then i res s =
     s\<lparr>bn_latencies := bn_latencies s @ xr_latenciesMs res, bn_errors := bn_errors s + xr_errors res,
       bn_opCounts := add_counts (bn_opCounts s) (xr_opCounts res), bn_inFlight := js_delete i (bn_inFlight s)\<rparr>"

definition batch_catch :: "nat \<Rightarrow> synthetic_op list \<Rightarrow> 'g bench_run \<Rightarrow> 'g bench_run" where
  "batch_catch i batch s =
     s\<lparr>bn_errors := bn_errors s + length batch, bn_inFlight := js_delete i (bn_inFlight s)\<rparr>"

text \<open>The synchronous steps of the two loops at a clock reading.\<close>

definition loop_step :: "'g runtime \<Rightarrow> BenchmarkRunOptions \<Rightarrow> time \<Rightarrow> 'g bench_run \<Rightarrow> 'g bench_run" where
  "loop_step rt options now s =
     (case bn_phase s of
        LoopHead \<Rightarrow> s\<lparr>bn_phase := (if now < deadline options s then Filling else Draining)\<rparr>
      | Filling \<Rightarrow>
          if length (bn_inFlight s) < ro_concurrency options \<and> now < deadline options s then launchBatch rt options now s
          else s\<lparr>bn_phase := (if length (bn_inFlight s) > 0 then Racing else LoopHead)\<rparr>
      | Raced \<Rightarrow> s\<lparr>bn_phase := LoopHead\<rparr>
      | Draining \<Rightarrow> if bn_inFlight s = [] then s\<lparr>bn_phase := Finished\<rparr> else s
      | _ \<Rightarrow> s)"

definition awaiting :: "'g bench_run \<Rightarrow> bool" where
  "awaiting s \<longleftrightarrow> bn_phase s = Racing \<or> bn_phase s = Raced \<or> bn_phase s = Draining"

definition settled_phase :: "'g bench_run \<Rightarrow> 'g bench_run" where
  "settled_phase s = (if bn_phase s = Racing then s\<lparr>bn_phase := Raced\<rparr> else s)"

inductive bench_step :: "'g runtime \<Rightarrow> (SyntheticValue, 'j, 'w) target_fetch \<Rightarrow> ('w \<Rightarrow> int) \<Rightarrow> BenchmarkRunOptions \<Rightarrow>
    'g bench_run \<Rightarrow> 'g bench_run \<Rightarrow> bool" for rt fetch hrtime options where
  Sync: "bench_step rt fetch hrtime options s (loop_step rt options now s)"
| Resolve: "\<lbrakk>awaiting s; (i, batch) \<in> set (bn_inFlight s); res = fst (benchmarkExecuteOps fetch hrtime batch w)\<rbrakk>
    \<Longrightarrow> bench_step rt fetch hrtime options s (settled_phase (batch_then i res s))"
| Reject: "\<lbrakk>awaiting s; (i, batch) \<in> set (bn_inFlight s)\<rbrakk>
    \<Longrightarrow> bench_step rt fetch hrtime options s (settled_phase (batch_catch i batch s))"

inductive bench_reachable :: "'g runtime \<Rightarrow> (SyntheticValue, 'j, 'w) target_fetch \<Rightarrow> ('w \<Rightarrow> int) \<Rightarrow> BenchmarkRunOptions \<Rightarrow>
    'g bench_run \<Rightarrow> bool" for rt fetch hrtime options where
  Start: "run_begin rt options now g = Inr s \<Longrightarrow> bench_reachable rt fetch hrtime options s"
| Step: "\<lbrakk>bench_reachable rt fetch hrtime options s; bench_step rt fetch hrtime options s s'\<rbrakk>
    \<Longrightarrow> bench_reachable rt fetch hrtime options s'"

definition computeLatencyPercentiles :: "rat list \<Rightarrow> LatencyPercentiles" where
  "computeLatencyPercentiles samplesMs =
     (if length samplesMs = 0 then \<lparr>lp_p50 = 0, lp_p95 = 0, lp_p99 = 0, lp_max = 0\<rparr>
      else let sorted = sort samplesMs;
               sampleAt = (\<lambda>p :: rat. let rank = \<lceil>p * of_nat (length sorted)\<rceil> - 1
                         in sorted ! nat (min (max rank 0) (int (length sorted) - 1)))
           in \<lparr>lp_p50 = sampleAt (1 / 2), lp_p95 = sampleAt (95 / 100),
               lp_p99 = sampleAt (99 / 100), lp_max = sorted ! (length sorted - 1)\<rparr>)"

text \<open>The captured metrics, as far as the reports read them: a field is missing (or \<open>null\<close>), a number,
  or something else.\<close>

datatype json_field = Missing | Number rat | OtherJson

record captured_metrics =
  cap_overallHitRatio :: json_field
  cap_hitRatio :: json_field

record BenchmarkRunResult =
  bb_name :: string
  bb_workloadType :: WorkloadType
  bb_startedAt :: time
  bb_finishedAt :: time
  bb_durationMs :: int
  bb_totalOperations :: nat
  bb_opCounts :: OpCounts
  bb_errors :: nat
  bb_throughputOpsPerSec :: rat
  bb_latency :: LatencyPercentiles
  bb_metricsBefore :: "captured_metrics option"
  bb_metricsAfter :: "captured_metrics option"

text \<open>\<open>safeCapture\<close>: no callback and a callback that throws both give \<open>null\<close>.\<close>

definition safeCapture :: "captured_metrics result option \<Rightarrow> captured_metrics option" where
  "safeCapture capture = (case capture of Some (Inr m) \<Rightarrow> Some m | _ \<Rightarrow> None)"

definition run_end :: "BenchmarkRunOptions \<Rightarrow> captured_metrics result option \<Rightarrow> captured_metrics result option \<Rightarrow> time \<Rightarrow>
    'g bench_run \<Rightarrow> BenchmarkRunResult" where
  "run_end options before after finishedAt s =
     (let totalOperations = oc_GET (bn_opCounts s) + oc_PUT (bn_opCounts s) + oc_DELETE (bn_opCounts s) + bn_errors s;
          actualDurationMs = max 1 (finishedAt - bn_startedAt s)
      in \<lparr>bb_name = ro_name options, bb_workloadType = wd_type (ro_workload options), bb_startedAt = bn_startedAt s,
          bb_finishedAt = finishedAt, bb_durationMs = actualDurationMs, bb_totalOperations = totalOperations,
          bb_opCounts = bn_opCounts s, bb_errors = bn_errors s,
          bb_throughputOpsPerSec = of_nat totalOperations / of_int actualDurationMs * 1000,
          bb_latency = computeLatencyPercentiles (bn_latencies s),
          bb_metricsBefore = safeCapture before, bb_metricsAfter = safeCapture after\<rparr>)"

section \<open>PolicyComparisonRunner.ts\<close>

definition extractHitRatio :: "captured_metrics option \<Rightarrow> rat option" where
  "extractHitRatio metrics =
     (case metrics of
        None \<Rightarrow> None
      | Some m \<Rightarrow>
          (case (case cap_overallHitRatio m of Missing \<Rightarrow> cap_hitRatio m | candidate \<Rightarrow> candidate) of
             Number x \<Rightarrow> Some x
           | _ \<Rightarrow> None))"

definition maxBy :: "('a \<Rightarrow> rat) \<Rightarrow> 'a list \<Rightarrow> 'a option" where
  "maxBy selector items =
     fold (\<lambda>item best. case best of None \<Rightarrow> Some item
             | Some b \<Rightarrow> if selector item > selector b then Some item else Some b) items None"

definition minBy :: "('a \<Rightarrow> rat) \<Rightarrow> 'a list \<Rightarrow> 'a option" where
  "minBy selector items =
     fold (\<lambda>item best. case best of None \<Rightarrow> Some item
             | Some b \<Rightarrow> if selector item < selector b then Some item else Some b) items None"

text \<open>The runs that have a hit ratio, with it: the \<open>map\<close> and type-guard \<open>filter\<close> of \<open>bestHitRatioLabel\<close>.\<close>

definition with_hit_ratio :: "BenchmarkRunResult list \<Rightarrow> (string \<times> rat) list" where
  "with_hit_ratio results =
     concat (map (\<lambda>r. case extractHitRatio (bb_metricsAfter r) of None \<Rightarrow> [] | Some h \<Rightarrow> [(bb_name r, h)]) results)"

definition bestHitRatioLabel :: "BenchmarkRunResult list \<Rightarrow> string option" where
  "bestHitRatioLabel results =
     (case with_hit_ratio results of
        [] \<Rightarrow> None
      | first # rest \<Rightarrow> Some (fst (fold (\<lambda>current best. if snd current > snd best then current else best) rest first)))"

record PolicyComparisonReport =
  cr_generatedAt :: time
  cr_workloadType :: WorkloadType
  cr_results :: "BenchmarkRunResult list"
  cr_bestThroughput :: string
  cr_bestP99Latency :: string
  cr_bestHitRatio :: "string option"

text \<open>The loop over the policies: switch, pause, run; the first failure rejects the comparison.  The
  admin call, the pause and the run act on a world \<open>'w\<close>.\<close>

fun compare_loop :: "(string \<Rightarrow> 'w \<Rightarrow> unit result \<times> 'w) \<Rightarrow> ('w \<Rightarrow> 'w) \<Rightarrow>
    (BenchmarkRunOptions \<Rightarrow> 'w \<Rightarrow> BenchmarkRunResult result \<times> 'w) \<Rightarrow> BenchmarkRunOptions \<Rightarrow> string list \<Rightarrow> 'w \<Rightarrow> BenchmarkRunResult list result \<times> 'w" where
  "compare_loop setPolicy warmup run options [] w = (Inr [], w)"
| "compare_loop setPolicy warmup run options (policy # policies) w =
     (case setPolicy policy w of
        (Inl e, w1) \<Rightarrow> (Inl e, w1)
      | (Inr _, w1) \<Rightarrow>
          (case run (options\<lparr>ro_name := policy\<rparr>) (warmup w1) of
             (Inl e, w2) \<Rightarrow> (Inl e, w2)
           | (Inr r, w2) \<Rightarrow>
               (case compare_loop setPolicy warmup run options policies w2 of
                  (Inl e, w3) \<Rightarrow> (Inl e, w3)
                | (Inr rs, w3) \<Rightarrow> (Inr (r # rs), w3))))"

definition name_or_na :: "BenchmarkRunResult option \<Rightarrow> string" where
  "name_or_na r = (case r of None \<Rightarrow> ''n/a'' | Some b \<Rightarrow> bb_name b)"

definition comparison_report :: "time \<Rightarrow> WorkloadType \<Rightarrow> BenchmarkRunResult list \<Rightarrow> PolicyComparisonReport" where
  "comparison_report now ty results =
     \<lparr>cr_generatedAt = now, cr_workloadType = ty, cr_results = results,
      cr_bestThroughput = name_or_na (maxBy bb_throughputOpsPerSec results),
      cr_bestP99Latency = name_or_na (minBy (\<lambda>r. lp_p99 (bb_latency r)) results),
      cr_bestHitRatio = bestHitRatioLabel results\<rparr>"

definition compare_policies :: "(string \<Rightarrow> 'w \<Rightarrow> unit result \<times> 'w) \<Rightarrow> ('w \<Rightarrow> 'w) \<Rightarrow>
    (BenchmarkRunOptions \<Rightarrow> 'w \<Rightarrow> BenchmarkRunResult result \<times> 'w) \<Rightarrow> ('w \<Rightarrow> time) \<Rightarrow> BenchmarkRunOptions \<Rightarrow> string list \<Rightarrow> 'w \<Rightarrow>
    PolicyComparisonReport result \<times> 'w" where
  "compare_policies setPolicy warmup run clock options policies w =
     (case compare_loop setPolicy warmup run options policies w of
        (Inl e, w') \<Rightarrow> (Inl e, w')
      | (Inr results, w') \<Rightarrow> (Inr (comparison_report (clock w') (wd_type (ro_workload options)) results), w'))"

section \<open>ReportGenerator.ts\<close>

text \<open>\<open>Number.prototype.toFixed\<close>: the nearest multiple of \<open>10^-f\<close>, the larger one on a tie, printed with
  \<open>f\<close> decimals.\<close>

definition toFixed :: "nat \<Rightarrow> rat \<Rightarrow> string" where
  "toFixed f x =
     (let n = nat \<lfloor>\<bar>x\<bar> * 10 ^ f + 1 / 2\<rfloor>;
          digits = show_nat n;
          padded = replicate (f + 1 - length digits) (CHR ''0'') @ digits;
          k = length padded - f
      in (if x < 0 then ''-'' else []) @ (if f = 0 then digits else take k padded @ ''.'' @ drop k padded))"

definition report_row :: "BenchmarkRunResult \<Rightarrow> string" where
  "report_row r =
     ''| '' @ bb_name r @ '' | '' @ toFixed 1 (bb_throughputOpsPerSec r) @ '' | '' @ toFixed 2 (lp_p50 (bb_latency r)) @
     '' | '' @ toFixed 2 (lp_p95 (bb_latency r)) @ '' | '' @ toFixed 2 (lp_p99 (bb_latency r)) @ '' | '' @ show_nat (bb_errors r) @
     '' | '' @ (case extractHitRatio (bb_metricsAfter r) of None \<Rightarrow> ''n/a'' | Some h \<Rightarrow> toFixed 1 (h * 100) @ ''%'') @ '' |''"

fun show_workload :: "WorkloadType \<Rightarrow> string" where
  "show_workload UNIFORM_RANDOM = ''UNIFORM_RANDOM''"
| "show_workload ZIPFIAN = ''ZIPFIAN''"
| "show_workload READ_HEAVY = ''READ_HEAVY''"
| "show_workload WRITE_HEAVY = ''WRITE_HEAVY''"
| "show_workload MIXED = ''MIXED''"
| "show_workload SEQUENTIAL_SCAN = ''SEQUENTIAL_SCAN''"

definition report_section :: "PolicyComparisonReport \<Rightarrow> string list" where
  "report_section report =
     [''## Workload: '' @ show_workload (cr_workloadType report), [],
      ''| Policy | Throughput (ops/sec) | P50 (ms) | P95 (ms) | P99 (ms) | Errors | Hit Ratio |'',
      ''|---|---|---|---|---|---|---|''] @
     map report_row (cr_results report) @
     [[], ''**Best throughput:** '' @ cr_bestThroughput report @ ''  '',
      ''**Best P99 latency:** '' @ cr_bestP99Latency report @ ''  '',
      ''**Best hit ratio:** '' @ or_default (cr_bestHitRatio report) ''n/a'', []]"

definition markdown_lines :: "string \<Rightarrow> PolicyComparisonReport list \<Rightarrow> string list" where
  "markdown_lines isoNow reports =
     [''# FlowCache Benchmark Report'', [], ''Generated: '' @ isoNow, []] @ concat (map report_section reports)"

fun join_lines :: "string list \<Rightarrow> string" where
  "join_lines [] = []"
| "join_lines [l] = l"
| "join_lines (l # m # ls) = l @ [CHR 0x0A] @ join_lines (m # ls)"

definition generateMarkdownReport :: "string \<Rightarrow> PolicyComparisonReport list \<Rightarrow> string" where
  "generateMarkdownReport isoNow reports = join_lines (markdown_lines isoNow reports)"

section \<open>No operation is lost or counted twice\<close>

definition ops_total :: "OpCounts \<Rightarrow> nat" where
  "ops_total c = oc_GET c + oc_PUT c + oc_DELETE c"

lemma ops_total_simps [simp]:
  "ops_total zero_counts = 0" "ops_total (count_op k c) = Suc (ops_total c)"
  "ops_total (add_counts c d) = ops_total c + ops_total d"
  by (simp_all add: ops_total_def zero_counts_def count_op_def add_counts_def split: op_kind.splits)

lemma execute_one_counts:
  "ops_total (xr_opCounts (fst (execute_one fetch hr oper rw))) + xr_errors (fst (execute_one fetch hr oper rw)) =
     Suc (ops_total (xr_opCounts (fst rw)) + xr_errors (fst rw)) \<and>
   length (xr_latenciesMs (fst (execute_one fetch hr oper rw))) = Suc (length (xr_latenciesMs (fst rw)))"
  by (cases rw) (auto simp: execute_one_def Let_def split: prod.splits sum.splits)

lemma execute_fold_counts:
  "ops_total (xr_opCounts (fst (fold (execute_one fetch hr) ops rw))) + xr_errors (fst (fold (execute_one fetch hr) ops rw)) =
     length ops + (ops_total (xr_opCounts (fst rw)) + xr_errors (fst rw)) \<and>
   length (xr_latenciesMs (fst (fold (execute_one fetch hr) ops rw))) = length ops + length (xr_latenciesMs (fst rw))"
proof (induction ops arbitrary: rw)
  case (Cons x ops)
  show ?case using Cons.IH[of "execute_one fetch hr x rw"] execute_one_counts[of fetch hr x rw] by simp
qed simp

lemma benchmarkExecuteOps_counts:
  "ops_total (xr_opCounts (fst (benchmarkExecuteOps fetch hr ops w))) + xr_errors (fst (benchmarkExecuteOps fetch hr ops w)) =
     length ops"
  "length (xr_latenciesMs (fst (benchmarkExecuteOps fetch hr ops w))) = length ops"
  by (simp_all add: benchmarkExecuteOps_def execute_fold_counts)

lemma length_nextBatch: "length (fst (nextBatch rt now n w g)) = n"
  by (induction rt now n w g rule: nextBatch.induct) (auto simp: Let_def split: prod.splits)

definition bench_inv :: "BenchmarkRunOptions \<Rightarrow> 'g bench_run \<Rightarrow> bool" where
  "bench_inv options s \<longleftrightarrow>
     js_map_ok (bn_inFlight s) \<and> (\<forall>(i, batch) \<in> set (bn_inFlight s). i < bn_launched s \<and> length batch = opsPerBatch options) \<and>
     ops_total (bn_opCounts s) + bn_errors s + opsPerBatch options * length (bn_inFlight s) = opsPerBatch options * bn_launched s \<and>
     length (bn_latencies s) \<le> ops_total (bn_opCounts s) + bn_errors s \<and>
     length (bn_inFlight s) \<le> ro_concurrency options \<and> (bn_phase s = Finished \<longrightarrow> bn_inFlight s = [])"

lemma bench_inv_begin: "run_begin rt options now g = Inr s \<Longrightarrow> bench_inv options s"
  by (auto simp: run_begin_def bench_inv_def split: sum.splits)

lemma bench_inv_launch:
  assumes "bench_inv options s" "length (bn_inFlight s) < ro_concurrency options" "bn_phase s = Filling"
  shows "bench_inv options (launchBatch rt options now s)"
proof -
  obtain batch w g where b: "nextBatch rt now (opsPerBatch options) (bn_generator s) (bn_random s) = (batch, w, g)"
    by (metis prod_cases3)
  then have "length batch = opsPerBatch options"
    using length_nextBatch[of rt now "opsPerBatch options" "bn_generator s" "bn_random s"] by simp
  then show ?thesis using assms by (fastforce simp: bench_inv_def launchBatch_def b algebra_simps)
qed

lemma bench_inv_sync: "bench_inv options s \<Longrightarrow> bench_inv options (loop_step rt options now s)"
  using bench_inv_launch[of options s rt now]
  by (cases "bn_phase s") (auto simp: loop_step_def bench_inv_def)

lemma bench_inv_settle:
  assumes "bench_inv options s" "awaiting s" "(i, batch) \<in> set (bn_inFlight s)"
    and "bn_inFlight t = js_delete i (bn_inFlight s)" "bn_launched t = bn_launched s" "bn_phase t = bn_phase s"
    and "ops_total (bn_opCounts t) + bn_errors t = ops_total (bn_opCounts s) + bn_errors s + length batch"
    and "length (bn_latencies t) \<le> length (bn_latencies s) + length batch"
  shows "bench_inv options (settled_phase t)"
proof -
  have ok: "js_map_ok (bn_inFlight s)" and len: "length batch = opsPerBatch options"
    using assms(1,3) by (auto simp: bench_inv_def)
  have "set (bn_inFlight t) \<subseteq> set (bn_inFlight s)" unfolding assms(4) by (auto simp: AList.delete_eq)
  then have each: "\<forall>(i, batch) \<in> set (bn_inFlight t). i < bn_launched t \<and> length batch = opsPerBatch options"
    using assms(1,5) by (auto simp: bench_inv_def)
  have "length (bn_inFlight s) = Suc (length (bn_inFlight t))"
    unfolding assms(4) using length_js_delete[OF ok, of i] assms(3) by force
  moreover have "js_map_ok (bn_inFlight t)" unfolding assms(4) using ok by (rule distinct_delete)
  moreover have "bn_phase t \<noteq> Finished" using assms(2,6) by (auto simp: awaiting_def)
  ultimately show ?thesis using assms(1,5,7,8) each len by (simp add: bench_inv_def settled_phase_def)
qed

lemma bench_reachable_inv: "bench_reachable rt fetch hrtime options s \<Longrightarrow> bench_inv options s"
proof (induction rule: bench_reachable.induct)
  case (Step s s')
  from Step.hyps(2) Step.IH show ?case
  proof (cases rule: bench_step.cases)
    case (Resolve i batch res w)
    show ?thesis unfolding Resolve(1)
      by (rule bench_inv_settle[OF Step.IH Resolve(2,3)])
        (use benchmarkExecuteOps_counts[of fetch hrtime batch w] in \<open>simp_all add: batch_then_def Resolve(4)\<close>)
  next
    case (Reject i batch)
    show ?thesis unfolding Reject(1)
      by (rule bench_inv_settle[OF Step.IH Reject(2,3)]) (simp_all add: batch_catch_def)
  qed (simp add: bench_inv_sync)
qed (rule bench_inv_begin)

lemma computeLatencyPercentiles_eq:
  assumes "xs \<noteq> []"
  shows "computeLatencyPercentiles xs = \<lparr>lp_p50 = percentile (sort xs) (1 / 2), lp_p95 = percentile (sort xs) (95 / 100),
    lp_p99 = percentile (sort xs) (99 / 100), lp_max = sort xs ! (length xs - 1)\<rparr>"
  using assms by (simp add: computeLatencyPercentiles_def percentile_def Let_def)

lemma computeLatencyPercentiles_rank:
  assumes "xs \<noteq> []"
  shows "nearest_rank xs (1 / 2) (lp_p50 (computeLatencyPercentiles xs))"
    and "nearest_rank xs (95 / 100) (lp_p95 (computeLatencyPercentiles xs))"
    and "nearest_rank xs (99 / 100) (lp_p99 (computeLatencyPercentiles xs))"
proof -
  have ne: "sort xs \<noteq> []" using assms by (metis mset_sort mset_zero_iff)
  have "nearest_rank xs p (percentile (sort xs) p)" if "0 < p" "p \<le> 1" for p
    using percentile_nearest_rank[OF sorted_sort ne that] nearest_rank_mset[of "sort xs" xs] by simp
  from this[of "1 / 2"] this[of "95 / 100"] this[of "99 / 100"]
  show "nearest_rank xs (1 / 2) (lp_p50 (computeLatencyPercentiles xs))"
    "nearest_rank xs (95 / 100) (lp_p95 (computeLatencyPercentiles xs))"
    "nearest_rank xs (99 / 100) (lp_p99 (computeLatencyPercentiles xs))"
    by (simp_all add: computeLatencyPercentiles_eq[OF assms])
qed

text \<open>C36. Benchmark accounting: under every interleaving of launches, completed batches and failed
  batches, at most \<open>concurrency\<close> batches are in flight, and a finished run reports exactly as many
  operations as it launched (batches times operations per batch), each counted once as a read, a write, a
  deletion or an error; the throughput is that total over the measured duration, and the latency
  percentiles are nearest-rank percentiles of the recorded samples.\<close>

theorem benchmark_counts_every_operation:
  assumes "bench_reachable rt fetch hrtime options s"
  shows "let r = run_end options before after t s in length (bn_inFlight s) \<le> ro_concurrency options \<and>
    (bn_phase s = Finished \<longrightarrow>
      bb_totalOperations r = opsPerBatch options * bn_launched s \<and>
      bb_totalOperations r = oc_GET (bb_opCounts r) + oc_PUT (bb_opCounts r) + oc_DELETE (bb_opCounts r) + bb_errors r \<and>
      bb_throughputOpsPerSec r * of_int (bb_durationMs r) = 1000 * of_nat (bb_totalOperations r) \<and>
      length (bn_latencies s) \<le> bb_totalOperations r \<and>
      (bn_latencies s \<noteq> [] \<longrightarrow>
        nearest_rank (bn_latencies s) (1 / 2) (lp_p50 (bb_latency r)) \<and>
        nearest_rank (bn_latencies s) (95 / 100) (lp_p95 (bb_latency r)) \<and>
        nearest_rank (bn_latencies s) (99 / 100) (lp_p99 (bb_latency r))))"
proof -
  have inv: "bench_inv options s" by (rule bench_reachable_inv[OF assms(1)])
  have "(of_int (max 1 (t - bn_startedAt s)) :: rat) \<noteq> 0" by simp
  then show ?thesis using inv computeLatencyPercentiles_rank[of "bn_latencies s"]
    by (auto simp: run_end_def Let_def bench_inv_def ops_total_def simp del: of_int_max)
qed

text \<open>A run of one batch of two reads against a target that answers every request.\<close>

definition demo_options :: BenchmarkRunOptions where
  "demo_options = \<lparr>ro_name = ''LRU'', ro_workload = \<lparr>wd_type = SEQUENTIAL_SCAN, wd_keyspaceSize = 5, wd_readRatio = None,
     wd_zipfianSkew = None, wd_keyPrefix = None\<rparr>, ro_durationMs = 10, ro_concurrency = 1, ro_opsPerBatch = Some 2\<rparr>"

definition demo_fetch :: "(SyntheticValue, unit, nat) target_fetch" where
  "demo_fetch req w = (Response 200 (Inr ()), w + 1)"

definition demo_hrtime :: "nat \<Rightarrow> int" where "demo_hrtime w = 3000000 * int w"

definition demo_started :: "rat list bench_run" where
  "demo_started = \<lparr>bn_phase = LoopHead,
     bn_generator = SequentialScan \<lparr>sw_cursor = Some 0, sw_keyspaceSize = 5, sw_keyPrefix = ''key'', sw_op = OP_GET\<rparr>,
     bn_random = [], bn_startedAt = 0, bn_launched = 0, bn_inFlight = [], bn_latencies = [],
     bn_opCounts = zero_counts, bn_errors = 0\<rparr>"

definition demo_racing :: "rat list bench_run" where
  "demo_racing = fold (loop_step demo_runtime demo_options) [1, 2, 3] demo_started"

definition demo_batch :: "synthetic_op list" where
  "demo_batch = [get_operation ''key:0'', get_operation ''key:1'']"

definition demo_settled :: "rat list bench_run" where
  "demo_settled = settled_phase (batch_then 0 (fst (benchmarkExecuteOps demo_fetch demo_hrtime demo_batch 0)) demo_racing)"

definition demo_finished :: "rat list bench_run" where
  "demo_finished = fold (loop_step demo_runtime demo_options) [12, 12, 12] demo_settled"

lemma bench_sync_reachable:
  "bench_reachable rt fetch hrtime options s \<Longrightarrow>
   bench_reachable rt fetch hrtime options (fold (loop_step rt options) clocks s)"
  by (induction clocks arbitrary: s) (auto intro: bench_reachable.Step bench_step.Sync)

lemma demo_finished_reachable: "bench_reachable demo_runtime demo_fetch demo_hrtime demo_options demo_finished"
proof -
  have "run_begin demo_runtime demo_options 0 [] = Inr demo_started" by code_simp
  then have "bench_reachable demo_runtime demo_fetch demo_hrtime demo_options demo_racing"
    unfolding demo_racing_def by (intro bench_sync_reachable bench_reachable.Start)
  moreover have "awaiting demo_racing" "bn_inFlight demo_racing = [(0, demo_batch)]" by code_simp+
  ultimately have "bench_reachable demo_runtime demo_fetch demo_hrtime demo_options demo_settled"
    unfolding demo_settled_def by (intro bench_reachable.Step[OF _ bench_step.Resolve]) auto
  then show ?thesis unfolding demo_finished_def by (rule bench_sync_reachable)
qed

theorem benchmark_counts_every_operation_witness:
  "bn_phase demo_finished = Finished \<and> bb_totalOperations (run_end demo_options None None 15 demo_finished) = 2 \<and>
   nearest_rank [3, 3] (1 / 2) (lp_p50 (bb_latency (run_end demo_options None None 15 demo_finished)))"
proof -
  have "bn_phase demo_finished = Finished" "bn_latencies demo_finished = [3, 3]" "bn_launched demo_finished = 1"
    "opsPerBatch demo_options = 2" by code_simp+
  then show ?thesis
    using benchmark_counts_every_operation[OF demo_finished_reachable, of None None 15] by (simp add: Let_def)
qed

section \<open>The comparison names the best runs\<close>

definition first_best :: "('a \<Rightarrow> 'a \<Rightarrow> bool) \<Rightarrow> 'a list \<Rightarrow> 'a \<Rightarrow> bool" where
  "first_best better xs x \<longleftrightarrow>
     (\<exists>pre post. xs = pre @ x # post \<and> (\<forall>y \<in> set pre. better x y) \<and> (\<forall>y \<in> set xs. \<not> better y x))"

text \<open>The left-to-right scan that \<open>maxBy\<close>, \<open>minBy\<close> and the hit ratio label share, for any strict
  order given by a numeric key.\<close>

lemma scan_first_best:
  fixes key :: "'a \<Rightarrow> rat"
  assumes "better = (\<lambda>a b. key a > key b)"
  shows "first_best better (x # xs) (fold (\<lambda>item best. if better item best then item else best) xs x)"
proof (induction xs rule: rev_induct)
  case Nil
  show ?case unfolding first_best_def by (intro exI[of _ "[]"]) (simp add: assms)
next
  case (snoc y ys)
  define m where "m = fold (\<lambda>item best. if better item best then item else best) ys x"
  obtain pre post where b: "x # ys = pre @ m # post" "\<forall>z \<in> set pre. better m z" "\<forall>z \<in> set (x # ys). \<not> better z m"
    using snoc.IH unfolding first_best_def m_def by blast
  have step: "fold (\<lambda>item best. if better item best then item else best) (ys @ [y]) x = (if better y m then y else m)"
    by (simp add: m_def)
  show ?case
  proof (cases "better y m")
    case True
    then have "\<forall>z \<in> set (x # ys). better y z" using b(3) unfolding assms by fastforce
    then show ?thesis using True unfolding step first_best_def
      by (intro exI[of _ "x # ys"] exI[of _ "[]"]) (auto simp: assms)
  next
    case False
    have "x # ys @ [y] = pre @ m # (post @ [y])" using b(1) by (metis append.assoc append_Cons)
    moreover have "\<forall>z \<in> set (x # ys @ [y]). \<not> better z m" using b(3) False by simp
    ultimately have "first_best better (x # ys @ [y]) m" using b(2) unfolding first_best_def by blast
    then show ?thesis using False by (simp only: step if_False)
  qed
qed

lemma fold_Some_scan:
  "fold (\<lambda>item best. case best of None \<Rightarrow> Some item | Some b \<Rightarrow> if better item b then Some item else Some b) xs (Some x) =
   Some (fold (\<lambda>item best. if better item best then item else best) xs x)"
  by (induction xs arbitrary: x) auto

lemma maxBy_first_best: "maxBy key (x # xs) = Some y \<Longrightarrow> first_best (\<lambda>a b. key a > key b) (x # xs) y"
  using scan_first_best[OF refl, where key = key and x = x and xs = xs]
  by (simp add: maxBy_def fold_Some_scan[where better = "\<lambda>a b. key a > key b"])

lemma minBy_first_best: "minBy key (x # xs) = Some y \<Longrightarrow> first_best (\<lambda>a b. key a < key b) (x # xs) y"
  using scan_first_best[of "\<lambda>a b. key a < key b" "\<lambda>a. - key a" x xs]
  by (simp add: minBy_def fold_Some_scan[where better = "\<lambda>a b. key a < key b"])

lemma bestHitRatioLabel_first_best:
  "if with_hit_ratio results = [] then bestHitRatioLabel results = None
   else \<exists>h. first_best (\<lambda>a b. snd a > snd b) (with_hit_ratio results) h \<and> bestHitRatioLabel results = Some (fst h)"
proof (cases "with_hit_ratio results")
  case Nil
  then show ?thesis by (simp add: bestHitRatioLabel_def)
next
  case (Cons x xs)
  show ?thesis using scan_first_best[OF refl, where key = "snd :: string \<times> rat \<Rightarrow> rat" and x = x and xs = xs]
    by (simp only: Cons bestHitRatioLabel_def list.case list.distinct if_False) blast
qed

lemma maxBy_some: "xs \<noteq> [] \<Longrightarrow> \<exists>y. maxBy key xs = Some y"
  by (cases xs) (auto simp: maxBy_def fold_Some_scan[where better = "\<lambda>a b. key a > key b"])

lemma minBy_some: "xs \<noteq> [] \<Longrightarrow> \<exists>y. minBy key xs = Some y"
  by (cases xs) (auto simp: minBy_def fold_Some_scan[where better = "\<lambda>a b. key a < key b"])

text \<open>A run carries the name it was asked for, as \<open>run_end\<close> does.\<close>

definition names_its_result :: "(BenchmarkRunOptions \<Rightarrow> 'w \<Rightarrow> BenchmarkRunResult result \<times> 'w) \<Rightarrow> bool" where
  "names_its_result run \<longleftrightarrow> (\<forall>options w r w'. run options w = (Inr r, w') \<longrightarrow> bb_name r = ro_name options)"

lemma compare_loop_results:
  assumes "names_its_result run"
  shows "compare_loop setPolicy warmup run options policies w = (Inr results, w') \<Longrightarrow> map bb_name results = policies"
  by (induction policies arbitrary: w results)
    (auto split: prod.splits sum.splits dest!: assms[unfolded names_its_result_def, rule_format])

lemma compare_policies_results:
  assumes "compare_policies setPolicy warmup run clock options policies w = (Inr report, w')"
  obtains results where "compare_loop setPolicy warmup run options policies w = (Inr results, w')"
    and "report = comparison_report (clock w') (wd_type (ro_workload options)) results"
proof -
  obtain out v where c: "compare_loop setPolicy warmup run options policies w = (out, v)" by force
  with assms show ?thesis by (cases out) (auto simp: compare_policies_def intro: that)
qed

text \<open>The comparison report is right about the winners: it lists one run per policy, in the
  requested order; with at least one policy the best throughput (the best P99 latency) is the label of the
  first run whose throughput is maximal (P99 minimal); the best hit ratio is the label of the first
  maximal one among the runs that captured a hit ratio, and absent when none did.\<close>

theorem comparison_names_the_best:
  assumes "names_its_result run"
    and "compare_policies setPolicy warmup run clock options policies w = (Inr report, w')"
    and "policies \<noteq> []"
  shows "map bb_name (cr_results report) = policies \<and>
    (\<exists>r. first_best (\<lambda>a b. bb_throughputOpsPerSec a > bb_throughputOpsPerSec b) (cr_results report) r \<and>
         cr_bestThroughput report = bb_name r) \<and>
    (\<exists>r. first_best (\<lambda>a b. lp_p99 (bb_latency a) < lp_p99 (bb_latency b)) (cr_results report) r \<and>
         cr_bestP99Latency report = bb_name r) \<and>
    (if with_hit_ratio (cr_results report) = [] then cr_bestHitRatio report = None
     else \<exists>h. first_best (\<lambda>a b. snd a > snd b) (with_hit_ratio (cr_results report)) h \<and> cr_bestHitRatio report = Some (fst h))"
proof -
  obtain results where res: "compare_loop setPolicy warmup run options policies w = (Inr results, w')"
    and report: "report = comparison_report (clock w') (wd_type (ro_workload options)) results"
    by (rule compare_policies_results[OF assms(2)])
  have names: "map bb_name results = policies" by (rule compare_loop_results[OF assms(1) res])
  then have ne: "results \<noteq> []" using assms(3) by auto
  then obtain x xs where cons: "results = x # xs" by (auto simp: neq_Nil_conv)
  obtain t where t: "maxBy bb_throughputOpsPerSec results = Some t" using maxBy_some[OF ne] by fast
  obtain l where l: "minBy (\<lambda>r. lp_p99 (bb_latency r)) results = Some l" using minBy_some[OF ne] by fast
  have best: "first_best (\<lambda>a b. bb_throughputOpsPerSec a > bb_throughputOpsPerSec b) results t"
    unfolding cons by (rule maxBy_first_best[OF t[unfolded cons]])
  have fastest: "first_best (\<lambda>a b. lp_p99 (bb_latency a) < lp_p99 (bb_latency b)) results l"
    unfolding cons by (rule minBy_first_best[OF l[unfolded cons]])
  have eqs: "cr_results report = results" "cr_bestThroughput report = bb_name t" "cr_bestP99Latency report = bb_name l"
    "cr_bestHitRatio report = bestHitRatioLabel results"
    by (simp_all add: report comparison_report_def name_or_na_def t l)
  show ?thesis unfolding eqs
    by (intro conjI names exI[of _ t] exI[of _ l] best fastest refl bestHitRatioLabel_first_best)
qed

text \<open>Three policies whose runs finish at different times; two of them captured a hit ratio.\<close>

definition demo_compare_run :: "BenchmarkRunOptions \<Rightarrow> nat \<Rightarrow> BenchmarkRunResult result \<times> nat" where
  "demo_compare_run options w =
     (Inr (run_end options None
        (if ro_name options = ''LFU'' then None
         else Some (Inr \<lparr>cap_overallHitRatio = Missing, cap_hitRatio = Number (1 / 2)\<rparr>)) (20 - int w) demo_finished), w + 5)"

lemma demo_compare_named: "names_its_result demo_compare_run"
  by (auto simp: names_its_result_def demo_compare_run_def run_end_def Let_def)

theorem comparison_names_the_best_witness:
  "\<exists>report w'. compare_policies (\<lambda>p w. (Inr (), w)) id demo_compare_run int demo_options [''LRU'', ''LFU'', ''ADAPTIVE''] 0 =
     (Inr report, w') \<and>
   map bb_name (cr_results report) = [''LRU'', ''LFU'', ''ADAPTIVE''] \<and> cr_bestThroughput report = ''ADAPTIVE'' \<and>
   (\<exists>r. first_best (\<lambda>a b. bb_throughputOpsPerSec a > bb_throughputOpsPerSec b) (cr_results report) r \<and>
        cr_bestThroughput report = bb_name r) \<and>
   cr_bestHitRatio report = Some ''LRU''"
proof -
  let ?c = "compare_policies (\<lambda>p w. (Inr (), w)) id demo_compare_run int demo_options [''LRU'', ''LFU'', ''ADAPTIVE''] 0"
  have "case ?c of (Inr report, _) \<Rightarrow> cr_bestThroughput report = ''ADAPTIVE'' \<and> cr_bestHitRatio report = Some ''LRU''
    | _ \<Rightarrow> False" by code_simp
  then obtain report w' where c: "?c = (Inr report, w')"
    and r: "cr_bestThroughput report = ''ADAPTIVE''" "cr_bestHitRatio report = Some ''LRU''"
    by (auto split: prod.splits sum.splits)
  show ?thesis using comparison_names_the_best[OF demo_compare_named c] c r by auto
qed

end
