(* ===== verification/Dashboard.thy ===== *)
theory Dashboard
  imports Benchmark
begin

text \<open>
  The dashboard's logic (\<open>apps/dashboard/src\<close>): the API client, the polling hook \<open>useClusterData\<close>, the
  metrics history and per-node index of the overview page, the node colours of the ring view and the
  byte formatting of a node card; the element trees are in \<open>Page\<close>, the timer hooks in \<open>Polling\<close>.  The theorem
  shows what the page's state holds after any sequence of successful and failed refreshes.
\<close>

section \<open>api/client.ts\<close>

definition getJson :: "string \<Rightarrow> 'j http_outcome \<Rightarrow> 'j result" where
  "getJson path outcome =
     (case outcome of
        FetchRejected \<Rightarrow> Inl (PlainError ''fetch failed'')
      | Response status body \<Rightarrow>
          if \<not> response_ok status
          then Inl (PlainError (''Request to '' @ path @ '' failed with status '' @ show_nat status))
          else json_of body)"

definition fetchCluster :: "ClusterView http_outcome \<Rightarrow> ClusterView result" where
  "fetchCluster outcome = getJson ''/cluster'' outcome"

definition fetchClusterMetrics :: "ClusterMetricsSummary http_outcome \<Rightarrow> ClusterMetricsSummary result" where
  "fetchClusterMetrics outcome = getJson ''/metrics'' outcome"

section \<open>hooks/useClusterData.ts\<close>

record ClusterDataState =
  cd_cluster :: "ClusterView option"
  cd_metrics :: "ClusterMetricsSummary option"
  cd_error :: "string option"
  cd_loading :: bool
  cd_lastUpdatedAt :: "time option"

definition POLL_INTERVAL_MS :: nat where "POLL_INTERVAL_MS = 3000"

definition initial_state :: ClusterDataState where
  "initial_state = \<lparr>cd_cluster = None, cd_metrics = None, cd_error = None, cd_loading = True, cd_lastUpdatedAt = None\<rparr>"

fun thrown_text :: "thrown \<Rightarrow> string" where
  "thrown_text (FlowCache e) = error_message e"
| "thrown_text (RangeError m) = m"
| "thrown_text (PlainError m) = m"

text \<open>\<open>refresh\<close> when both requests have settled: \<open>Promise.all\<close> rejects with the failure that came first.\<close>

definition refresh :: "time \<Rightarrow> bool \<Rightarrow> ClusterView http_outcome \<Rightarrow> ClusterMetricsSummary http_outcome \<Rightarrow>
    ClusterDataState \<Rightarrow> ClusterDataState" where
  "refresh now clusterFirst clusterOutcome metricsOutcome prev =
     (let failed = (\<lambda>e. prev\<lparr>cd_error := Some (thrown_text e), cd_loading := False\<rparr>)
      in case (fetchCluster clusterOutcome, fetchClusterMetrics metricsOutcome) of
           (Inr cluster, Inr metrics) \<Rightarrow>
             \<lparr>cd_cluster = Some cluster, cd_metrics = Some metrics, cd_error = None, cd_loading = False,
              cd_lastUpdatedAt = Some now\<rparr>
         | (Inl e, Inl f) \<Rightarrow> failed (if clusterFirst then e else f)
         | (Inl e, Inr _) \<Rightarrow> failed e
         | (Inr _, Inl f) \<Rightarrow> failed f)"

section \<open>pages/Overview.tsx\<close>

definition HISTORY_LIMIT :: nat where "HISTORY_LIMIT = 30"

text \<open>A point of the charts; the printed time is left as the timestamp.\<close>

record HistoryPoint =
  hp_time :: time
  hp_hitRatio :: rat
  hp_rps :: rat
  hp_p99 :: rat

definition history_point :: "ClusterMetricsSummary \<Rightarrow> HistoryPoint" where
  "history_point m =
     \<lparr>hp_time = cs_timestamp m, hp_hitRatio = cs_overallHitRatio m, hp_rps = cs_totalRequestsPerSecond m,
      hp_p99 = cs_clusterP99LatencyMs m\<rparr>"

definition extend_history :: "ClusterMetricsSummary \<Rightarrow> HistoryPoint list \<Rightarrow> HistoryPoint list" where
  "extend_history m prev =
     (let next = prev @ [history_point m]
      in if length next > HISTORY_LIMIT then drop (length next - HISTORY_LIMIT) next else next)"

definition metricsByNode :: "ClusterMetricsSummary option \<Rightarrow> (string, MetricsSnapshot) js_map" where
  "metricsByNode metrics =
     (case metrics of None \<Rightarrow> [] | Some m \<Rightarrow> fold (\<lambda>snapshot. js_set (ms_nodeId snapshot) snapshot) (cs_perNode m) [])"

text \<open>The page: the hook's state and the history; the effect that extends the history runs when a
  refresh installed new metrics, taken to be rendered before the next poll settles (were two polls batched into
  one render, the effect would run once for both).\<close>

record page =
  pg_data :: ClusterDataState
  pg_history :: "HistoryPoint list"

definition new_page :: page where "new_page = \<lparr>pg_data = initial_state, pg_history = []\<rparr>"

type_synonym poll = "time \<times> bool \<times> ClusterView http_outcome \<times> ClusterMetricsSummary http_outcome"

definition poll_result :: "poll \<Rightarrow> (time \<times> ClusterView \<times> ClusterMetricsSummary) option" where
  "poll_result p =
     (case p of (now, _, c, m) \<Rightarrow>
        (case (fetchCluster c, fetchClusterMetrics m) of (Inr cluster, Inr metrics) \<Rightarrow> Some (now, cluster, metrics) | _ \<Rightarrow> None))"

definition page_refresh :: "poll \<Rightarrow> page \<Rightarrow> page" where
  "page_refresh p s =
     (case p of (now, clusterFirst, c, m) \<Rightarrow>
        (let data = refresh now clusterFirst c m (pg_data s)
         in \<lparr>pg_data = data,
             pg_history = (if poll_result p = None then pg_history s
                           else case cd_metrics data of None \<Rightarrow> pg_history s | Some ms \<Rightarrow> extend_history ms (pg_history s))\<rparr>))"

section \<open>components/NodeCard.tsx and components/RingVisualization.tsx\<close>

fun STATUS_COLORS :: "NodeStatus \<Rightarrow> string" where
  "STATUS_COLORS HEALTHY = ''#22c55e''"
| "STATUS_COLORS JOINING = ''#3b82f6''"
| "STATUS_COLORS SUSPECT = ''#f59e0b''"
| "STATUS_COLORS DEAD = ''#ef4444''"
| "STATUS_COLORS LEAVING = ''#6b7280''"

definition units :: "string list" where "units = [''B'', ''KB'', ''MB'', ''GB'', ''TB'']"

function scale_bytes :: "rat \<Rightarrow> nat \<Rightarrow> rat \<times> nat" where
  "scale_bytes v unitIndex =
     (if v \<ge> 1024 \<and> unitIndex < length units - 1 then scale_bytes (v / 1024) (unitIndex + 1) else (v, unitIndex))"
  by pat_completeness auto
termination by (relation "measure (\<lambda>(v, i). length units - i)") auto

declare scale_bytes.simps [simp del]

text \<open>\<open>formatBytes\<close>: \<open>None\<close> as an argument is a number that is not finite (or the \<open>null\<close> JSON makes of
  it), \<open>None\<close> as a result the infinity sign.\<close>

definition formatBytes :: "rat option \<Rightarrow> string option" where
  "formatBytes bytes =
     (case bytes of
        None \<Rightarrow> None
      | Some b \<Rightarrow>
          if b \<le> 0 then (if b = 0 then Some ''0 B'' else None)
          else let (v, unitIndex) = scale_bytes b 0 in Some (toFixed 1 v @ '' '' @ units ! unitIndex))"

definition PALETTE :: "string list" where
  "PALETTE = [''#6366f1'', ''#22c55e'', ''#f59e0b'', ''#ec4899'', ''#06b6d4'', ''#a855f7'', ''#84cc16'', ''#f43f5e'']"

definition nodeColor :: "ClusterView \<Rightarrow> (string, string) js_map" where
  "nodeColor cluster =
     fold (\<lambda>(i, node). js_set (ni_nodeId node) (PALETTE ! (i mod length PALETTE))) (List.enumerate 0 (cv_nodes cluster)) []"

section \<open>What the page shows\<close>

lemma scale_bytes_value:
  assumes "0 < v" "i \<le> 4"
  shows "fst (scale_bytes v i) * 1024 ^ snd (scale_bytes v i) = v * 1024 ^ i \<and> i \<le> snd (scale_bytes v i) \<and> snd (scale_bytes v i) \<le> 4 \<and>
    (fst (scale_bytes v i) < 1024 \<or> snd (scale_bytes v i) = 4) \<and> (i < snd (scale_bytes v i) \<longrightarrow> 1 \<le> fst (scale_bytes v i))"
  using assms
proof (induction v i rule: scale_bytes.induct)
  case (1 v i)
  show ?case
  proof (cases "v \<ge> 1024 \<and> i < length units - 1")
    case True
    then have eq: "scale_bytes v i = scale_bytes (v / 1024) (i + 1)" by (subst scale_bytes.simps) simp
    have "i + 1 \<le> 4" "1 \<le> v / 1024" using True by (simp_all add: units_def)
    moreover from this 1 True have "fst (scale_bytes (v / 1024) (i + 1)) * 1024 ^ snd (scale_bytes (v / 1024) (i + 1)) = v / 1024 * 1024 ^ (i + 1) \<and>
        i + 1 \<le> snd (scale_bytes (v / 1024) (i + 1)) \<and> snd (scale_bytes (v / 1024) (i + 1)) \<le> 4 \<and>
        (fst (scale_bytes (v / 1024) (i + 1)) < 1024 \<or> snd (scale_bytes (v / 1024) (i + 1)) = 4) \<and>
        (i + 1 < snd (scale_bytes (v / 1024) (i + 1)) \<longrightarrow> 1 \<le> fst (scale_bytes (v / 1024) (i + 1)))" by simp
    moreover have "snd (scale_bytes (v / 1024) (i + 1)) = i + 1 \<longrightarrow> fst (scale_bytes (v / 1024) (i + 1)) = v / 1024"
      using calculation by auto
    ultimately show ?thesis unfolding eq by auto
  next
    case False
    then have "scale_bytes v i = (v, i)" by (subst scale_bytes.simps) auto
    then show ?thesis using False 1(3) by (auto simp: units_def)
  qed
qed

lemma extend_history_last: "extend_history m (last_n HISTORY_LIMIT xs) = last_n HISTORY_LIMIT (xs @ [history_point m])"
proof -
  have "extend_history m ys = last_n HISTORY_LIMIT (ys @ [history_point m])" for ys
    by (auto simp: extend_history_def last_n_def Let_def)
  then show ?thesis by (simp add: last_n_snoc)
qed

text \<open>What the dashboard shows after any sequence of polls: the cluster, the metrics and the update time
  of the last poll whose two requests both succeeded (nothing before the first), an error message just
  when the last poll failed, and as history the metrics of the last thirty successful polls in order.\<close>

theorem dashboard_shows_last_success:
  "let p = fold page_refresh polls new_page; successes = List.map_filter poll_result polls
   in pg_history p = last_n HISTORY_LIMIT (map (\<lambda>(_, _, m). history_point m) successes) \<and>
      (if successes = [] then cd_cluster (pg_data p) = None \<and> cd_metrics (pg_data p) = None \<and> cd_lastUpdatedAt (pg_data p) = None
       else case last successes of (now, c, m) \<Rightarrow>
         cd_cluster (pg_data p) = Some c \<and> cd_metrics (pg_data p) = Some m \<and> cd_lastUpdatedAt (pg_data p) = Some now) \<and>
      (cd_error (pg_data p) = None \<longleftrightarrow> polls = [] \<or> poll_result (last polls) \<noteq> None) \<and>
      (cd_loading (pg_data p) \<longleftrightarrow> polls = [])"
proof (induction polls rule: rev_induct)
  case Nil
  show ?case by (simp add: Let_def new_page_def initial_state_def last_n_def map_filter_simps)
next
  case (snoc x polls)
  let ?p = "fold page_refresh polls new_page"
  obtain now first c m where x: "x = (now, first, c, m)" by (metis prod_cases4)
  show ?case
  proof (cases "poll_result x")
    case None
    then have r: "cd_cluster (refresh now first c m d) = cd_cluster d \<and> cd_metrics (refresh now first c m d) = cd_metrics d \<and>
        cd_lastUpdatedAt (refresh now first c m d) = cd_lastUpdatedAt d \<and> cd_error (refresh now first c m d) \<noteq> None \<and>
        \<not> cd_loading (refresh now first c m d)" for d
      by (auto simp: x poll_result_def refresh_def Let_def split: sum.splits)
    have "page_refresh x ?p = \<lparr>pg_data = refresh now first c m (pg_data ?p), pg_history = pg_history ?p\<rparr>"
      using None by (simp add: page_refresh_def x Let_def)
    moreover have "List.map_filter poll_result (polls @ [x]) = List.map_filter poll_result polls"
      using None by (simp add: List.map_filter_def)
    ultimately show ?thesis using snoc None r[of "pg_data ?p"] by (simp add: Let_def)
  next
    case (Some ok)
    then obtain cl ms where ok: "ok = (now, cl, ms)" "fetchCluster c = Inr cl" "fetchClusterMetrics m = Inr ms"
      by (auto simp: x poll_result_def split: sum.splits)
    have step: "page_refresh x ?p = \<lparr>pg_data = \<lparr>cd_cluster = Some cl, cd_metrics = Some ms, cd_error = None, cd_loading = False,
        cd_lastUpdatedAt = Some now\<rparr>, pg_history = extend_history ms (pg_history ?p)\<rparr>"
      using Some by (simp add: page_refresh_def x refresh_def ok Let_def)
    have "List.map_filter poll_result (polls @ [x]) = List.map_filter poll_result polls @ [(now, cl, ms)]"
      using Some ok(1) by (simp add: List.map_filter_def)
    then show ?thesis using snoc Some by (simp add: step Let_def extend_history_last)
  qed
qed

end
