(* ===== verification/Page.thy ===== *)
theory Page
  imports Dashboard Complex_Main
begin

text \<open>
  What the dashboard renders: the components of \<open>apps/dashboard/src\<close> as functions from their
  properties to a tree of elements, and the page as a whole.
  React turns the tree into the document and recharts draws the charts; both are outside.  Characters
  outside ASCII are written as their UTF-8 bytes.  The theorem reads off the tree what a viewer sees
  after any sequence of polls.
\<close>

section \<open>Elements\<close>

text \<open>A property of an element: text, numbers, a style, the data of a chart, or a function.\<close>

datatype jsx_prop =
    PStr string
  | PNum rat
  | PReal real
  | PBool bool
  | PNums "rat list"
  | PStyle "(string \<times> string) list"
  | PTick nat
  | PHistory "HistoryPoint list"
  | PPolicies "(string \<times> nat) list"
  | PFormat "rat \<Rightarrow> string"

datatype jsx = Element string "(string \<times> jsx_prop) list" "jsx list" | Text string

text \<open>What formatting takes from the browser: its locale.\<close>

record browser =
  br_number :: "nat \<Rightarrow> string"
  br_time :: "time \<Rightarrow> string"

definition cls :: "string \<Rightarrow> (string \<times> jsx_prop) list" where "cls c = [(''className'', PStr c)]"

text \<open>The elements of a class, in document order.\<close>

fun has_class :: "string \<Rightarrow> jsx \<Rightarrow> bool" where
  "has_class c (Element _ as _) \<longleftrightarrow> map_of as ''className'' = Some (PStr c)"
| "has_class c (Text _) \<longleftrightarrow> False"

fun by_class :: "string \<Rightarrow> jsx \<Rightarrow> jsx list" where
  "by_class c (Element t as cs) = (if has_class c (Element t as cs) then [Element t as cs] else []) @ concat (map (by_class c) cs)"
| "by_class c (Text _) = []"

definition ELLIPSIS :: string where "ELLIPSIS = [CHR 0xE2, CHR 0x80, CHR 0xA6]"
definition EM_DASH :: string where "EM_DASH = [CHR 0xE2, CHR 0x80, CHR 0x94]"
definition MIDDLE_DOT :: string where "MIDDLE_DOT = [CHR 0xC2, CHR 0xB7]"
definition INFINITY_SIGN :: string where "INFINITY_SIGN = [CHR 0xE2, CHR 0x88, CHR 0x9E]"

text \<open>A number as text: as many decimals as it has.  Numbers that JavaScript prints with an exponent are left
  out.\<close>

definition show_number :: "rat \<Rightarrow> string" where
  "show_number q =
     (case List.find (\<lambda>f. of_int \<lfloor>q * 10 ^ f\<rfloor> = q * 10 ^ f) [0..<17] of
        Some f \<Rightarrow> toFixed f q
      | None \<Rightarrow> toFixed 17 q)"

definition percent :: "rat \<Rightarrow> string" where "percent x = toFixed 1 (x * 100) @ ''%''"

section \<open>components/NodeCard.tsx\<close>

fun status_name :: "NodeStatus \<Rightarrow> string" where
  "status_name JOINING = ''JOINING''"
| "status_name HEALTHY = ''HEALTHY''"
| "status_name SUSPECT = ''SUSPECT''"
| "status_name DEAD = ''DEAD''"
| "status_name LEAVING = ''LEAVING''"

fun policy_name :: "EvictionPolicyType \<Rightarrow> string" where
  "policy_name LRU = ''LRU''"
| "policy_name LFU = ''LFU''"
| "policy_name TINY_LFU = ''TINY_LFU''"

definition Stat :: "string \<Rightarrow> string \<Rightarrow> jsx" where
  "Stat label value =
     Element ''div'' (cls ''node-card__stat'') [Element ''dt'' [] [Text label], Element ''dd'' [] [Text value]]"

definition bytes_text :: "rat option \<Rightarrow> string" where
  "bytes_text bytes = (case formatBytes bytes of None \<Rightarrow> INFINITY_SIGN | Some s \<Rightarrow> s)"

definition memory_text :: "MetricsSnapshot \<Rightarrow> string" where
  "memory_text m =
     bytes_text (Some (of_int (ms_memoryUsageBytes m))) @ '' / '' @
     bytes_text (case ms_memoryLimitBytes m of enat n \<Rightarrow> Some (of_nat n) | \<infinity> \<Rightarrow> None)"

definition NodeCard :: "browser \<Rightarrow> NodeInfo \<Rightarrow> MetricsSnapshot option \<Rightarrow> jsx" where
  "NodeCard br node metrics =
     (let color = STATUS_COLORS (ni_status node)
      in Element ''div'' (cls ''node-card'')
           [Element ''div'' (cls ''node-card__header'')
              [Element ''span'' (cls ''node-card__dot'' @ [(''style'', PStyle [(''backgroundColor'', color)])]) [],
               Element ''span'' (cls ''node-card__id'') [Text (ni_nodeId node)],
               Element ''span'' (cls ''node-card__status'' @ [(''style'', PStyle [(''color'', color)])]) [Text (status_name (ni_status node))]],
            Element ''div'' (cls ''node-card__address'')
              [Text (ni_host node), Text '':'', Text (show_nat (ni_port node)), Text ('' '' @ MIDDLE_DOT @ '' weight ''), Text (show_number (ni_weight node))],
            (case metrics of
               Some m \<Rightarrow>
                 Element ''dl'' (cls ''node-card__stats'')
                   [Stat ''Policy'' (policy_name (ms_currentEvictionPolicy m)),
                    Stat ''Hit ratio'' (percent (ms_hitRatio m)),
                    Stat ''Entries'' (br_number br (ms_entryCount m)),
                    Stat ''Memory'' (memory_text m),
                    Stat ''RPS'' (toFixed 1 (ms_requestsPerSecond m)),
                    Stat ''P99'' (toFixed 1 (lp_p99 (ms_latency m)) @ '' ms''),
                    Stat ''Repl. queue'' (show_nat (ms_replicationQueueDepth m)),
                    Stat ''Evictions'' (br_number br (ms_evictions m))]
             | None \<Rightarrow> Element ''p'' (cls ''node-card__no-metrics'') [Text ''No metrics available''])])"

section \<open>components/RingVisualization.tsx\<close>

definition SIZE :: nat where "SIZE = 320"
definition CENTER :: rat where "CENTER = of_nat SIZE / 2"
definition RADIUS :: rat where "RADIUS = of_nat SIZE / 2 - 28"
definition MAX_HASH :: nat where "MAX_HASH = 4294967295"

definition ring_angle :: "32 word \<Rightarrow> real" where
  "ring_angle h = real (unat h) / real MAX_HASH * 2 * pi"

definition ring_point :: "32 word \<Rightarrow> real \<times> real" where
  "ring_point h =
     (real_of_rat CENTER + real_of_rat RADIUS * sin (ring_angle h), real_of_rat CENTER - real_of_rat RADIUS * cos (ring_angle h))"

definition ring_circle :: "(string, string) js_map \<Rightarrow> RingAssignment \<Rightarrow> jsx" where
  "ring_circle color a =
     Element ''circle''
       [(''key'', PStr (ra_nodeId a @ ''-'' @ show_nat (unat (ra_virtualNodeHash a)))),
        (''cx'', PReal (fst (ring_point (ra_virtualNodeHash a)))), (''cy'', PReal (snd (ring_point (ra_virtualNodeHash a)))), (''r'', PNum 3),
        (''fill'', PStr (case js_get color (ra_nodeId a) of Some c \<Rightarrow> c | None \<Rightarrow> ''#94a3b8'')), (''opacity'', PNum (85 / 100))] []"

definition legend_item :: "(string, string) js_map \<Rightarrow> NodeInfo \<Rightarrow> jsx" where
  "legend_item color node =
     Element ''li'' [(''key'', PStr (ni_nodeId node))]
       [Element ''span'' (cls ''ring-viz__swatch'' @
          [(''style'', PStyle (case js_get color (ni_nodeId node) of Some c \<Rightarrow> [(''backgroundColor'', c)] | None \<Rightarrow> []))]) [],
        Text (ni_nodeId node)]"

definition RingVisualization :: "ClusterView \<Rightarrow> jsx" where
  "RingVisualization cluster =
     (let color = nodeColor cluster
      in Element ''div'' (cls ''ring-viz'')
           [Element ''svg'' [(''viewBox'', PStr (''0 0 '' @ show_nat SIZE @ '' '' @ show_nat SIZE)), (''width'', PStr ''100%''),
                             (''height'', PStr ''auto''), (''role'', PStr ''img''), (''aria-label'', PStr ''Consistent hash ring'')]
              ([Element ''circle'' [(''cx'', PNum CENTER), (''cy'', PNum CENTER), (''r'', PNum RADIUS), (''fill'', PStr ''none''),
                                    (''stroke'', PStr ''var(--border)''), (''strokeWidth'', PNum 1)] []] @
               map (ring_circle color) (cv_ring cluster) @
               [Element ''circle'' [(''cx'', PNum CENTER), (''cy'', PNum CENTER), (''r'', PNum 2), (''fill'', PStr ''var(--text-secondary)'')] []]),
            Element ''ul'' (cls ''ring-viz__legend'') (map (legend_item color) (cv_nodes cluster)),
            Element ''p'' (cls ''ring-viz__caption'')
              [Text (show_nat (length (cv_ring cluster))), Text '' virtual nodes across '',
               Text (show_nat (length (cv_nodes cluster))), Text '' physical nodes'']])"

section \<open>components/MetricsCharts.tsx\<close>

definition chart_card :: "string \<Rightarrow> jsx \<Rightarrow> jsx" where
  "chart_card title chart =
     Element ''div'' (cls ''chart-card'')
       [Element ''h3'' [] [Text title],
        Element ''ResponsiveContainer'' [(''width'', PStr ''100%''), (''height'', PNum 180)] [chart]]"

definition chart_grid :: jsx where
  "chart_grid = Element ''CartesianGrid'' [(''strokeDasharray'', PStr ''3 3''), (''stroke'', PStr ''var(--border)'')] []"

definition axis :: "string \<Rightarrow> (string \<times> jsx_prop) list \<Rightarrow> jsx" where
  "axis t ps = Element t (ps @ [(''tick'', PTick 10)]) []"

definition line_chart :: "HistoryPoint list \<Rightarrow> string \<Rightarrow> string \<Rightarrow> (string \<times> jsx_prop) list \<Rightarrow> (string \<times> jsx_prop) list \<Rightarrow> jsx" where
  "line_chart history dataKey color yaxis tooltip =
     Element ''LineChart'' [(''data'', PHistory history)]
       [chart_grid, axis ''XAxis'' [(''dataKey'', PStr ''time'')], axis ''YAxis'' yaxis, Element ''Tooltip'' tooltip [],
        Element ''Line'' [(''type'', PStr ''monotone''), (''dataKey'', PStr dataKey), (''stroke'', PStr color), (''dot'', PBool False),
                          (''strokeWidth'', PNum 2), (''isAnimationActive'', PBool False)] []]"

definition policyData :: "(EvictionPolicyType \<Rightarrow> nat) \<Rightarrow> (string \<times> nat) list" where
  "policyData distribution = map (\<lambda>p. (policy_name p, distribution p)) [LRU, LFU, TINY_LFU]"

definition MetricsCharts :: "HistoryPoint list \<Rightarrow> (EvictionPolicyType \<Rightarrow> nat) \<Rightarrow> jsx" where
  "MetricsCharts history policyDistribution =
     Element ''div'' (cls ''charts-grid'')
       [chart_card ''Hit Ratio''
          (line_chart history ''hitRatio'' ''#22c55e''
             [(''domain'', PNums [0, 1]), (''tickFormatter'', PFormat (\<lambda>v. toFixed 0 (v * 100) @ ''%''))] [(''formatter'', PFormat percent)]),
        chart_card ''Throughput (req/sec)'' (line_chart history ''rps'' ''#6366f1'' [] []),
        chart_card ''P99 Latency (ms)'' (line_chart history ''p99'' ''#f59e0b'' [] []),
        chart_card ''Eviction Policy Distribution''
          (Element ''BarChart'' [(''data'', PPolicies (policyData policyDistribution))]
             [chart_grid, axis ''XAxis'' [(''dataKey'', PStr ''policy'')], axis ''YAxis'' [(''allowDecimals'', PBool False)], Element ''Tooltip'' [] [],
              Element ''Bar'' [(''dataKey'', PStr ''count''), (''fill'', PStr ''#ec4899''), (''radius'', PNums [4, 4, 0, 0]),
                               (''isAnimationActive'', PBool False)] []])]"

section \<open>pages/Overview.tsx, App.tsx and main.tsx\<close>

definition SummaryStat :: "string \<Rightarrow> string \<Rightarrow> jsx" where
  "SummaryStat label value =
     Element ''div'' (cls ''summary-stat'')
       [Element ''span'' (cls ''summary-stat__value'') [Text value], Element ''span'' (cls ''summary-stat__label'') [Text label]]"

definition updated_line :: "browser \<Rightarrow> time option \<Rightarrow> jsx list" where
  "updated_line br lastUpdatedAt =
     (case lastUpdatedAt of
        None \<Rightarrow> []
      | Some t \<Rightarrow> if t = 0 then [Text ''0''] else [Element ''p'' (cls ''app__updated'') [Text ''Updated '', Text (br_time br t)]])"

definition error_banner :: "string option \<Rightarrow> jsx list" where
  "error_banner err =
     (case err of
        Some (c # cs) \<Rightarrow>
          [Element ''div'' (cls ''app__error'')
             [Text ''Failed to reach gateway: '', Text (c # cs), Text (''. Retrying every few seconds'' @ ELLIPSIS)]]
      | _ \<Rightarrow> [])"

definition summary_grid :: "browser \<Rightarrow> ClusterMetricsSummary \<Rightarrow> jsx" where
  "summary_grid br m =
     Element ''section'' (cls ''summary-grid'' @ [(''aria-label'', PStr ''Cluster summary'')])
       [SummaryStat ''Nodes healthy'' (show_nat (cs_healthyNodeCount m) @ '' / '' @ show_nat (cs_nodeCount m)),
        SummaryStat ''Hit ratio'' (percent (cs_overallHitRatio m)),
        SummaryStat ''Throughput'' (toFixed 1 (cs_totalRequestsPerSecond m) @ '' req/s''),
        SummaryStat ''P99 latency'' (toFixed 1 (cs_clusterP99LatencyMs m) @ '' ms''),
        SummaryStat ''Total entries'' (br_number br (cs_totalEntryCount m)),
        SummaryStat ''Total evictions'' (br_number br (cs_totalEvictions m))]"

definition node_cards :: "browser \<Rightarrow> ClusterDataState \<Rightarrow> jsx list" where
  "node_cards br d =
     (case cd_cluster d of
        None \<Rightarrow> []
      | Some cluster \<Rightarrow> map (\<lambda>node. NodeCard br node (js_get (metricsByNode (cd_metrics d)) (ni_nodeId node))) (cv_nodes cluster))"

definition Overview :: "browser \<Rightarrow> page \<Rightarrow> jsx" where
  "Overview br p =
     (let d = pg_data p
      in Element ''div'' (cls ''overview'')
           ([Element ''header'' (cls ''app__header'')
               ([Element ''h1'' [] [Text ''FlowCache''],
                 Element ''p'' (cls ''app__subtitle'') [Text (''Adaptive Distributed Cache '' @ EM_DASH @ '' Cluster Dashboard'')]] @
                updated_line br (cd_lastUpdatedAt d))] @
            error_banner (cd_error d) @
            (if cd_loading d \<and> cd_cluster d = None
             then [Element ''div'' (cls ''app__loading'') [Text (''Loading cluster state'' @ ELLIPSIS)]] else []) @
            (case cd_metrics d of None \<Rightarrow> [] | Some m \<Rightarrow> [summary_grid br m]) @
            [Element ''div'' (cls ''main-grid'')
               [Element ''section'' (cls ''panel'') [Element ''h2'' [] [Text ''Nodes''], Element ''div'' (cls ''node-grid'') (node_cards br d)],
                Element ''section'' (cls ''panel'')
                  ([Element ''h2'' [] [Text ''Hash Ring'']] @
                   (case cd_cluster d of None \<Rightarrow> [] | Some cluster \<Rightarrow> [RingVisualization cluster]))]] @
            (case cd_metrics d of
               None \<Rightarrow> []
             | Some m \<Rightarrow> [Element ''section'' (cls ''panel'')
                            [Element ''h2'' [] [Text ''Metrics''], MetricsCharts (pg_history p) (cs_policyDistribution m)]])))"

definition App :: "browser \<Rightarrow> page \<Rightarrow> jsx" where
  "App br p = Overview br p"

text \<open>\<open>main.tsx\<close>: without the element \<open>#root\<close> in the document nothing is rendered.\<close>

definition mount :: "bool \<Rightarrow> browser \<Rightarrow> page \<Rightarrow> jsx result" where
  "mount rootElement br p =
     (if \<not> rootElement then Inl (PlainError ''Root element #root not found in index.html'')
      else Inr (Element ''React.StrictMode'' [] [App br p]))"

section \<open>What a viewer sees\<close>

fun classes :: "jsx \<Rightarrow> string list" where
  "classes (Element t as cs) = (case map_of as ''className'' of Some (PStr c) \<Rightarrow> [c] | _ \<Rightarrow> []) @ concat (map classes cs)"
| "classes (Text _) = []"

lemma by_class_none: "c \<notin> set (classes e) \<Longrightarrow> by_class c e = []"
  by (induction c e rule: by_class.induct) (auto split: option.splits jsx_prop.splits)

lemma classes_leaves [simp]:
  "classes (Stat l v) = [''node-card__stat'']" "classes (ring_circle color a) = []"
  "classes (legend_item color n) = [''ring-viz__swatch'']" "classes chart_grid = []"
  "classes (SummaryStat l v) = [''summary-stat'', ''summary-stat__value'', ''summary-stat__label'']"
  by (simp_all add: Stat_def cls_def ring_circle_def legend_item_def chart_grid_def SummaryStat_def)

lemma classes_NodeCard:
  "set (classes (NodeCard br n m)) \<subseteq> {''node-card'', ''node-card__header'', ''node-card__dot'', ''node-card__id'', ''node-card__status'',
     ''node-card__address'', ''node-card__stats'', ''node-card__stat'', ''node-card__no-metrics''}"
  by (auto simp: NodeCard_def cls_def Let_def split: option.splits)

lemma classes_RingVisualization:
  "set (classes (RingVisualization c)) \<subseteq> {''ring-viz'', ''ring-viz__legend'', ''ring-viz__swatch'', ''ring-viz__caption''}"
  by (auto simp: RingVisualization_def cls_def Let_def)

lemma classes_MetricsCharts: "set (classes (MetricsCharts h d)) \<subseteq> {''charts-grid'', ''chart-card''}"
  by (auto simp: MetricsCharts_def chart_card_def line_chart_def axis_def cls_def)

lemma classes_summary_grid:
  "set (classes (summary_grid br m)) \<subseteq> {''summary-grid'', ''summary-stat'', ''summary-stat__value'', ''summary-stat__label''}"
  by (auto simp: summary_grid_def cls_def)

lemma classes_header: "\<Union> (set ` classes ` set (updated_line br t)) \<subseteq> {''app__updated''}" "\<Union> (set ` classes ` set (error_banner e)) \<subseteq> {''app__error''}"
  by (auto simp: updated_line_def error_banner_def cls_def split: option.splits list.splits if_splits)

lemma absentI: "set (classes e) \<subseteq> C \<Longrightarrow> c \<notin> C \<Longrightarrow> by_class c e = []"
  by (rule by_class_none) (rule contra_subsetD)

lemmas absent = absentI[OF classes_NodeCard] absentI[OF classes_RingVisualization] absentI[OF classes_MetricsCharts] absentI[OF classes_summary_grid]

lemma absent_lists:
  "c \<noteq> ''app__updated'' \<Longrightarrow> concat (map (by_class c) (updated_line br t)) = []"
  "c \<noteq> ''app__error'' \<Longrightarrow> concat (map (by_class c) (error_banner e)) = []"
  by (auto simp: updated_line_def error_banner_def cls_def split: option.splits list.splits if_splits)

lemma by_class_cls:
  "by_class c (Element t (cls d) cs) = (if c = d then [Element t (cls d) cs] else []) @ concat (map (by_class c) cs)"
  by (simp add: cls_def)

lemma by_class_plain: "by_class c (Element t [] cs) = concat (map (by_class c) cs)"
  by simp

text \<open>The page is its frame around the parts.\<close>

lemma by_class_Overview:
  assumes "c \<notin> {''overview'', ''app__header'', ''app__subtitle'', ''app__updated'', ''app__loading'', ''main-grid'', ''panel'', ''node-grid''}"
  shows "by_class c (Overview br p) =
    concat (map (by_class c) (error_banner (cd_error (pg_data p)))) @
    (case cd_metrics (pg_data p) of None \<Rightarrow> [] | Some m \<Rightarrow> by_class c (summary_grid br m)) @
    concat (map (by_class c) (node_cards br (pg_data p))) @
    (case cd_cluster (pg_data p) of None \<Rightarrow> [] | Some cl \<Rightarrow> by_class c (RingVisualization cl)) @
    (case cd_metrics (pg_data p) of None \<Rightarrow> [] | Some m \<Rightarrow> by_class c (MetricsCharts (pg_history p) (cs_policyDistribution m)))"
proof -
  have u: "concat (map (by_class c) (updated_line br t)) = []" for t using assms by (intro absent_lists(1)) auto
  have ne: "c \<noteq> ''overview''" "c \<noteq> ''app__header''" "c \<noteq> ''app__subtitle''" "c \<noteq> ''app__loading''" "c \<noteq> ''main-grid''" "c \<noteq> ''panel''"
    "c \<noteq> ''node-grid''" using assms by auto
  show ?thesis
    unfolding Overview_def Let_def
    by (cases "cd_metrics (pg_data p)"; cases "cd_cluster (pg_data p)")
       (simp_all only: by_class_cls by_class_plain ne ne[symmetric] if_False append_Nil append_Nil2 map_append concat_append list.map concat.simps u
          option.case by_class.simps(2) append_assoc if_True simp_thms if_distrib[of "\<lambda>x. concat (map (by_class c) x)"] if_cancel)
qed

lemma by_class_root:
  assumes "has_class c (Element t as cs)" and "\<And>e. e \<in> set cs \<Longrightarrow> c \<notin> set (classes e)"
  shows "by_class c (Element t as cs) = [Element t as cs]"
proof -
  have "concat (map (by_class c) cs) = []" using assms(2) by (simp add: by_class_none)
  with assms(1) show ?thesis by simp
qed

lemma own_card: "by_class ''node-card'' (NodeCard br n m) = [NodeCard br n m]"
  unfolding NodeCard_def Let_def by (rule by_class_root) (auto simp: cls_def split: option.splits)

lemma own_ring: "by_class ''ring-viz'' (RingVisualization cl) = [RingVisualization cl]"
  unfolding RingVisualization_def Let_def by (rule by_class_root) (auto simp: cls_def split: if_splits)

lemma own_charts: "by_class ''charts-grid'' (MetricsCharts h d) = [MetricsCharts h d]"
  unfolding MetricsCharts_def by (rule by_class_root) (auto simp: cls_def chart_card_def line_chart_def axis_def)

lemma own_summary: "by_class ''summary-grid'' (summary_grid br sm) = [summary_grid br sm]"
  unfolding summary_grid_def by (rule by_class_root) (auto simp: cls_def)

lemma cards_absent: "(\<And>n m. by_class c (NodeCard br n m) = []) \<Longrightarrow> concat (map (by_class c) (node_cards br d)) = []"
  by (auto simp: node_cards_def split: option.splits)

lemma cards_present: "concat (map (by_class ''node-card'') (node_cards br d)) = node_cards br d"
  by (simp add: node_cards_def own_card comp_def split: option.split)

lemma banner_present: "concat (map (by_class ''app__error'') (error_banner e)) = error_banner e"
  by (auto simp: error_banner_def cls_def split: option.split list.split)

text \<open>The parts of the page, each found by its class.\<close>

lemma page_parts:
  "by_class ''node-card'' (Overview br p) = node_cards br (pg_data p)"
  "by_class ''ring-viz'' (Overview br p) = (case cd_cluster (pg_data p) of None \<Rightarrow> [] | Some cl \<Rightarrow> [RingVisualization cl])"
  "by_class ''summary-grid'' (Overview br p) = (case cd_metrics (pg_data p) of None \<Rightarrow> [] | Some m \<Rightarrow> [summary_grid br m])"
  "by_class ''charts-grid'' (Overview br p) =
     (case cd_metrics (pg_data p) of None \<Rightarrow> [] | Some m \<Rightarrow> [MetricsCharts (pg_history p) (cs_policyDistribution m)])"
  "by_class ''app__error'' (Overview br p) = error_banner (cd_error (pg_data p))"
  by (subst by_class_Overview;
      simp add: absent absent_lists cards_absent cards_present banner_present own_ring own_summary own_charts del: concat_eq_Nil_conv split: option.split)+

text \<open>A node's card shows the last snapshot of that node in the summary.\<close>

lemma metricsByNode_last: "js_get (metricsByNode (Some m)) k = List.find (\<lambda>s. ms_nodeId s = k) (rev (cs_perNode m))"
proof -
  have "js_get (fold (\<lambda>s. js_set (ms_nodeId s) s) xs []) k = List.find (\<lambda>s. ms_nodeId s = k) (rev xs)" for xs
    by (induction xs rule: rev_induct) (auto simp: js_map_simps)
  then show ?thesis by (simp add: metricsByNode_def)
qed

text \<open>The error a failed poll leaves is never the empty string, which the page would not show.\<close>

lemma getJson_error_text: "getJson path outcome = Inl e \<Longrightarrow> thrown_text e \<noteq> []"
  by (auto simp: getJson_def json_of_def split: http_outcome.splits if_splits sum.splits)

lemma page_error_text: "cd_error (pg_data (fold page_refresh polls new_page)) \<noteq> Some []"
proof (induction polls rule: rev_induct)
  case Nil
  show ?case by (simp add: new_page_def initial_state_def)
next
  case (snoc x polls)
  obtain now first c m where x: "x = (now, first, c, m)" by (metis prod_cases4)
  let ?d = "pg_data (fold page_refresh polls new_page)"
  have "cd_error (refresh now first c m d) \<noteq> Some []" for d
    by (auto simp: refresh_def fetchCluster_def fetchClusterMetrics_def Let_def dest: getJson_error_text split: sum.splits)
  then show ?case by (simp add: x page_refresh_def Let_def)
qed

text \<open>C37. What the dashboard's viewer sees after any sequence of polls.  Until a poll succeeds there is no card, no
  ring, no summary and no chart.  From then on the page shows exactly one card per node of the last
  successful poll's cluster, in its order, with that node's latest snapshot in the metrics of the same poll
  (or a note that it has none), that cluster's ring, that poll's summary, and charts of the last thirty
  successful polls; an error banner stands on the page just when the last poll failed.\<close>

theorem page_shows_last_success:
  "let view = App br (fold page_refresh polls new_page); successes = List.map_filter poll_result polls
   in (if successes = []
       then by_class ''node-card'' view = [] \<and> by_class ''ring-viz'' view = [] \<and> by_class ''summary-grid'' view = [] \<and>
            by_class ''charts-grid'' view = []
       else case last successes of (now, c, m) \<Rightarrow>
         by_class ''node-card'' view =
           map (\<lambda>node. NodeCard br node (List.find (\<lambda>s. ms_nodeId s = ni_nodeId node) (rev (cs_perNode m)))) (cv_nodes c) \<and>
         by_class ''ring-viz'' view = [RingVisualization c] \<and> by_class ''summary-grid'' view = [summary_grid br m] \<and>
         by_class ''charts-grid'' view =
           [MetricsCharts (last_n 30 (map (\<lambda>(_, _, m). history_point m) successes)) (cs_policyDistribution m)]) \<and>
      (by_class ''app__error'' view \<noteq> [] \<longleftrightarrow> polls \<noteq> [] \<and> poll_result (last polls) = None)"
proof -
  let ?p = "fold page_refresh polls new_page" and ?ok = "List.map_filter poll_result polls"
  note state = dashboard_shows_last_success[of polls, unfolded Let_def]
  from state have err: "cd_error (pg_data ?p) = None \<longleftrightarrow> polls = [] \<or> poll_result (last polls) \<noteq> None" by (elim conjE)
  have "error_banner e = [] \<longleftrightarrow> e = None" if "e \<noteq> Some []" for e
    using that by (auto simp: error_banner_def split: option.split list.split)
  from this[OF page_error_text[of polls]] err
  have banner: "error_banner (cd_error (pg_data ?p)) \<noteq> [] \<longleftrightarrow> polls \<noteq> [] \<and> poll_result (last polls) = None" by metis
  show ?thesis
  proof (cases "?ok = []")
    case True
    with state have "cd_cluster (pg_data ?p) = None" "cd_metrics (pg_data ?p) = None" by (simp_all only: if_True)
    with True show ?thesis unfolding Let_def App_def page_parts banner by (simp add: node_cards_def)
  next
    case False
    obtain now c m where l: "last ?ok = (now, c, m)" by (metis prod_cases3)
    with state False have "cd_cluster (pg_data ?p) = Some c" "cd_metrics (pg_data ?p) = Some m"
      "pg_history ?p = last_n 30 (map (\<lambda>(_, _, m). history_point m) ?ok)" by (simp_all add: HISTORY_LIMIT_def)
    with False l show ?thesis unfolding Let_def App_def page_parts banner by (simp add: node_cards_def metricsByNode_last)
  qed
qed

section \<open>The drawing of the ring\<close>

text \<open>Every virtual node is drawn on the circle, and two of them at the same place only if they have the
  same hash, or one has the smallest and the other the largest hash: the code divides by the largest hash,
  not by their number.\<close>

lemma ring_point_on_circle:
  "(fst (ring_point h) - real_of_rat CENTER)\<^sup>2 + (snd (ring_point h) - real_of_rat CENTER)\<^sup>2 = (real_of_rat RADIUS)\<^sup>2"
proof -
  have "(fst (ring_point h) - real_of_rat CENTER)\<^sup>2 + (snd (ring_point h) - real_of_rat CENTER)\<^sup>2 =
    (real_of_rat RADIUS)\<^sup>2 * ((sin (ring_angle h))\<^sup>2 + (cos (ring_angle h))\<^sup>2)"
    by (simp add: ring_point_def power_mult_distrib distrib_left del: sin_cos_squared_add)
  then show ?thesis by (simp only: sin_cos_squared_add mult_1_right)
qed

lemma ring_angle_turn:
  assumes "ring_angle h = ring_angle h' + 2 * pi * real_of_int k"
  shows "int (unat h) = int (unat h') + int MAX_HASH * k"
proof -
  have "(2 * pi) * (real (unat h) / real MAX_HASH) = (2 * pi) * (real (unat h') / real MAX_HASH + real_of_int k)"
    using assms unfolding ring_angle_def by (simp add: algebra_simps)
  then have "real (unat h) / real MAX_HASH = real (unat h') / real MAX_HASH + real_of_int k" by (subst (asm) mult_left_cancel) simp_all
  then have "real (unat h) = real (unat h') + real MAX_HASH * real_of_int k" by (simp add: MAX_HASH_def field_simps)
  then have "real_of_int (int (unat h)) = real_of_int (int (unat h') + int MAX_HASH * k)" by simp
  then show ?thesis using of_int_eq_iff by blast
qed

lemma within_one_turn:
  fixes x y M :: nat and k :: int
  assumes "x \<le> M" and "y \<le> M" and eq: "int x = int y + int M * k"
  shows "x = y \<or> x = 0 \<and> y = M \<or> x = M \<and> y = 0"
proof -
  consider "k = 0" | "1 \<le> k" | "k \<le> - 1" by linarith
  then show ?thesis
  proof cases
    case 1
    then show ?thesis using eq by simp
  next
    case 2
    then have "int M * 1 \<le> int M * k" by (intro mult_left_mono) simp_all
    then show ?thesis using eq assms(1,2) by linarith
  next
    case 3
    then have "int M * k \<le> int M * (- 1)" by (intro mult_left_mono) simp_all
    then show ?thesis using eq assms(1,2) by linarith
  qed
qed

lemma ring_point_eq: "ring_point h = ring_point h' \<longleftrightarrow> h = h' \<or> {h, h'} = {0, - 1}"
proof
  assume eq: "ring_point h = ring_point h'"
  have "real_of_rat RADIUS \<noteq> 0" by (simp add: RADIUS_def SIZE_def)
  with eq have "sin (ring_angle h) = sin (ring_angle h')" "cos (ring_angle h) = cos (ring_angle h')" by (simp_all add: ring_point_def)
  then obtain k where k: "int (unat h) = int (unat h') + int MAX_HASH * k" using sin_cos_eq_iff ring_angle_turn by meson
  have b: "unat x \<le> MAX_HASH" for x :: "32 word" using unsigned_less[of x, where ?'a = nat] by (simp add: MAX_HASH_def)
  have m: "unat (- 1 :: 32 word) = MAX_HASH" by (simp add: MAX_HASH_def unsigned_minus_1_eq_mask mask_eq_exp_minus_1)
  have top: "x = - 1" if "unat x = MAX_HASH" for x :: "32 word" using that m by (simp add: word_unat_eq_iff[of x])
  have bot: "x = 0" if "unat x = 0" for x :: "32 word" using that by (simp add: word_unat_eq_iff[of x])
  from within_one_turn[OF b b k] show "h = h' \<or> {h, h'} = {0, - 1}"
  proof (elim disjE conjE)
    assume "unat h = unat h'"
    then show ?thesis by (simp add: word_unat_eq_iff)
  next
    assume "unat h = 0" "unat h' = MAX_HASH"
    then have "h = 0" "h' = - 1" using bot top by blast+
    then show ?thesis by blast
  next
    assume "unat h = MAX_HASH" "unat h' = 0"
    then have "h = - 1" "h' = 0" using bot top by blast+
    then show ?thesis by blast
  qed
next
  assume "h = h' \<or> {h, h'} = {0, - 1}"
  moreover have "ring_point 0 = ring_point (- 1)"
    by (simp add: ring_point_def ring_angle_def MAX_HASH_def unsigned_minus_1_eq_mask mask_eq_exp_minus_1)
  ultimately show "ring_point h = ring_point h'" by (auto simp: doubleton_eq_iff)
qed

end
