(* ===== verification/Polling.thy ===== *)
theory Polling
  imports Dashboard
begin

text \<open>
  The hooks that make the dashboard poll: \<open>useInterval\<close> with its two effects, and the mounting of
  \<open>useClusterData\<close>.  React runs an effect after a render when one of its dependencies changed, after the
  cleanup of the previous run, and the cleanup alone when the component goes away.  The lemmas show that
  a tick calls the callback of the last render and that no timer is leaked.
\<close>

section \<open>hooks/useInterval.ts\<close>

text \<open>The hook of a mounted component: the callback its ref holds, the delay its timer effect last ran
  for, the running timer, and the history of timers started and cleared.\<close>

record 'cb interval_hook =
  ih_savedCallback :: 'cb
  ih_delayMs :: "nat option"
  ih_timer :: "(nat \<times> nat) option"
  ih_started :: "nat list"
  ih_cleared :: "nat list"

definition cleanup_timer :: "'cb interval_hook \<Rightarrow> 'cb interval_hook" where
  "cleanup_timer h =
     (case ih_timer h of None \<Rightarrow> h | Some (i, _) \<Rightarrow> h\<lparr>ih_timer := None, ih_cleared := ih_cleared h @ [i]\<rparr>)"

definition start_timer :: "nat option \<Rightarrow> nat \<Rightarrow> 'cb interval_hook \<Rightarrow> 'cb interval_hook" where
  "start_timer delayMs newId h =
     (let h1 = h\<lparr>ih_delayMs := delayMs\<rparr>
      in case delayMs of None \<Rightarrow> h1 | Some d \<Rightarrow> h1\<lparr>ih_timer := Some (newId, d), ih_started := ih_started h1 @ [newId]\<rparr>)"

text \<open>The first render, and a further one; \<open>newId\<close> is the identifier \<open>setInterval\<close> would return.\<close>

definition mount_interval :: "'cb \<Rightarrow> nat option \<Rightarrow> nat \<Rightarrow> 'cb interval_hook" where
  "mount_interval callback delayMs newId =
     start_timer delayMs newId \<lparr>ih_savedCallback = callback, ih_delayMs = delayMs, ih_timer = None, ih_started = [], ih_cleared = []\<rparr>"

definition useInterval :: "'cb \<Rightarrow> nat option \<Rightarrow> nat \<Rightarrow> 'cb interval_hook \<Rightarrow> 'cb interval_hook" where
  "useInterval callback delayMs newId h =
     (let h1 = h\<lparr>ih_savedCallback := callback\<rparr>
      in if ih_delayMs h1 = delayMs then h1 else start_timer delayMs newId (cleanup_timer h1))"

definition unmount_interval :: "'cb interval_hook \<Rightarrow> 'cb interval_hook" where
  "unmount_interval h = cleanup_timer h"

text \<open>A tick of the timer calls what the ref holds.\<close>

definition interval_tick :: "'cb interval_hook \<Rightarrow> 'cb" where "interval_tick h = ih_savedCallback h"

section \<open>hooks/useClusterData.ts\<close>

text \<open>The times at which \<open>refresh\<close> is called: once on mounting, then at every tick until \<open>elapsed\<close>
  milliseconds have passed.\<close>

definition refresh_times :: "time \<Rightarrow> nat \<Rightarrow> time list" where
  "refresh_times mountedAt elapsed = map (\<lambda>i. mountedAt + int (POLL_INTERVAL_MS * i)) [0..<Suc (elapsed div POLL_INTERVAL_MS)]"

section \<open>No stale callback, no leaked timer\<close>

text \<open>The running timer is the one for the current delay, and every other timer that was started is cleared.\<close>

definition interval_ok :: "'cb interval_hook \<Rightarrow> bool" where
  "interval_ok h \<longleftrightarrow> map_option snd (ih_timer h) = ih_delayMs h \<and>
     ih_started h = ih_cleared h @ (case ih_timer h of None \<Rightarrow> [] | Some (i, _) \<Rightarrow> [i])"

lemma mount_interval_ok: "interval_ok (mount_interval cb d i)"
  by (simp add: interval_ok_def mount_interval_def start_timer_def Let_def split: option.split)

lemma useInterval_ok: "interval_ok h \<Longrightarrow> interval_ok (useInterval cb d i h)"
  by (auto simp: interval_ok_def useInterval_def start_timer_def cleanup_timer_def Let_def split: option.splits)

lemma useInterval_renders:
  assumes "h = fold (\<lambda>(cb, d, i). useInterval cb d i) renders (mount_interval cb0 d0 i0)"
  shows "interval_ok h" and "interval_tick h = last (cb0 # map fst renders)" and "ih_delayMs h = last (d0 # map (fst \<circ> snd) renders)"
proof -
  have "interval_ok h \<and> interval_tick h = last (cb0 # map fst renders) \<and> ih_delayMs h = last (d0 # map (fst \<circ> snd) renders)"
    unfolding assms
  proof (induction renders rule: rev_induct)
    case Nil
    show ?case using mount_interval_ok[of cb0 d0 i0]
      by (simp add: interval_tick_def mount_interval_def start_timer_def Let_def split: option.split)
  next
    case (snoc r rs)
    obtain cb d i where r: "r = (cb, d, i)" by (metis prod_cases3)
    let ?h = "fold (\<lambda>(cb, d, i). useInterval cb d i) rs (mount_interval cb0 d0 i0)"
    have "interval_tick (useInterval cb d i ?h) = cb" "ih_delayMs (useInterval cb d i ?h) = d"
      by (auto simp: interval_tick_def useInterval_def start_timer_def cleanup_timer_def Let_def split: option.splits)
    with snoc useInterval_ok[of ?h cb d i] show ?case by (simp add: r)
  qed
  then show "interval_ok h" "interval_tick h = last (cb0 # map fst renders)" "ih_delayMs h = last (d0 # map (fst \<circ> snd) renders)" by simp_all
qed

text \<open>When the component goes away, every timer it ever started has been cleared.\<close>

lemma unmount_clears_all:
  assumes "interval_ok h"
  shows "ih_cleared (unmount_interval h) = ih_started (unmount_interval h)" and "ih_timer (unmount_interval h) = None"
  using assms by (auto simp: interval_ok_def unmount_interval_def cleanup_timer_def split: option.splits)

lemma refresh_times_spaced:
  assumes "Suc i < length (refresh_times t e)"
  shows "refresh_times t e ! Suc i - refresh_times t e ! i = 3000"
  using assms by (simp add: refresh_times_def POLL_INTERVAL_MS_def del: upt_Suc)

end
