(* ===== verification/Spec2Isabelle.thy ===== *)
theory Spec2Isabelle
  imports Cluster Clients SnapshotCrash EventBus ReplicationLiveness PoolLiveness Handlers Identifiers Process GatewayApp Page Polling
begin

text \<open>
  FlowCache: a distributed in-memory cache in TypeScript, with adaptive eviction, consistent hashing,
  asynchronous replication over Kafka, snapshots and a failover gateway.  This development models the
  program's logic definition by definition and proves what makes each part, and their composition,
  correct.

  \<^bold>\<open>The program.\<close>  A client talks HTTP to the gateway (\<open>apps/gateway\<close>), which finds the nodes of a key on a
  consistent hash ring (\<open>packages/consistent-hash\<close>) and tries them in order.  A cache node
  (\<open>services/cache-node\<close>) keeps entries in a storage engine (\<open>packages/storage-engine\<close>) that calls an
  eviction hook; the hook is the adaptive engine (\<open>packages/eviction\<close>), which watches the traffic and
  switches between LRU, LFU and TinyLFU.  A write is replicated over the event bus
  (\<open>packages/replication\<close>); snapshots (\<open>packages/snapshot\<close>) are serialised in a worker pool
  (\<open>packages/worker-pool\<close>) and restored by the recovery engine.  Metrics (\<open>packages/metrics\<close>) flow to the
  gateway and the dashboard (\<open>apps/dashboard\<close>), and a benchmark engine (\<open>packages/benchmark\<close>) drives and
  breaks the whole.

  \<^bold>\<open>The theories, in the order of the code.\<close>
  \<^item> \<open>Prelude\<close>, \<open>Shared\<close>, \<open>Identifiers\<close>, \<open>Config\<close>: JavaScript maps and sets as association lists and lists,
    decimal numerals; the domain types, the errors with their HTTP translation, moving averages and ring
    buffer of \<open>packages/shared/src\<close>; \<open>generateId\<close>; the environment configuration and node list parser.
  \<^item> \<open>StorageEngine\<close>, \<open>StorageProps\<close>: \<open>StorageEngine.ts\<close>, every operation over an arbitrary hook; the locales
    \<open>hook_property\<close> and \<open>eviction_hook\<close> state what the engine needs of a hook, and the engine's invariant is
    proved once inside them.
  \<^item> \<open>Lru\<close>, \<open>Lfu\<close>, \<open>CountMinSketch\<close>, \<open>TinyLfu\<close>, \<open>Workload\<close>, \<open>Adaptive\<close>: the policies on their real data structures
    (doubly linked list with explicit heap, frequency buckets, 16-bit counters), the workload monitor, the
    decision rules and the engine that switches; each policy interprets \<open>eviction_hook\<close>.
  \<^item> \<open>NodeStorage\<close>: the storage engine with the adaptive engine plugged in, as a node uses it.
  \<^item> \<open>Ring\<close>, \<open>Gateway\<close>, \<open>HealthCycle\<close>: FNV-1a on 32-bit words, virtual nodes, binary search; the gateway's
    node client, failover, routes and health tracker; whole polling cycles.
  \<^item> \<open>GatewayApp\<close>: the gateway's middleware and routers in the order of \<open>configureExpress\<close>, the log lines of a
    request, and the logger's options.
  \<^item> \<open>Replication\<close>, \<open>ReplicationLiveness\<close>, \<open>EventBus\<close>: \<open>ReplicationEngine.ts\<close> and the cluster of engines on one topic
    as a step relation, in which the publish of an event or of an acknowledgement may fail, its infinite runs;
    \<open>KafkaEventBus.ts\<close>.
  \<^item> \<open>Metrics\<close>, \<open>WorkerPool\<close>, \<open>PoolLiveness\<close>, \<open>Handlers\<close>, \<open>Snapshot\<close>, \<open>SnapshotCrash\<close>: counters, histograms and their aggregation; the pool
    with its queue, timeouts and crashed workers as a step relation, its infinite runs; the worker's handler
    registry; the snapshot manager over the locale \<open>snapshot_store\<close>, interpreted by the in-memory and by the
    file store, whose operations are given by the file system calls they make; the states a crash inside or between these
    calls can leave.
  \<^item> \<open>CacheNode\<close>, \<open>CacheNodeProps\<close>, \<open>NodeData\<close>, \<open>Lifecycle\<close>: the node's composition root, fault injector, recovery
    engine, routes and middleware, start and stop; its reachable states (\<open>server_step\<close>) and what they keep.
  \<^item> \<open>Process\<close>: \<open>main\<close> and the signal handlers of the cache node and the gateway, from the environment to the
    exit code.
  \<^item> \<open>Uri\<close>: \<open>encodeURIComponent\<close> and \<open>decodeURIComponent\<close> on UTF-8, how a key travels in a path.
  \<^item> \<open>Cluster\<close>, \<open>Clients\<close>: gateway and nodes together; the recovery and fault injection clients against a node.
  \<^item> \<open>Generators\<close>, \<open>Benchmark\<close>: workload generators (locale \<open>op_source\<close>), benchmark runner as a step relation, policy
    comparison and report.
  \<^item> \<open>Dashboard\<close>, \<open>Polling\<close>, \<open>Page\<close>: the dashboard's state and formatting, its interval hook, and every component as
    a function to a tree of elements.

  \<^bold>\<open>How code becomes definitions.\<close>  A class is a record and each method a function from its state to its
  result and the new state; a method that throws returns in the sum type \<open>'a result\<close>, whose left side is
  the error thrown.  An \<open>async\<close> method is split at the \<open>await\<close> where other code can run in between
  (\<open>..._begin\<close> and \<open>..._end\<close>), and calls on timers, workers and the bus appear as effect lists; step relations
  then interleave the pieces in any order.  Times are \<open>int\<close> milliseconds, read once per synchronous call;
  counts and byte sizes are \<open>nat\<close>; ratios, latencies and weights are exact rationals in place of
  floating point; limits that may be \<open>Infinity\<close> are \<open>enat\<close>; hashes and sketch cells are machine words.
  Strings are lists of character codes below 256.  Cached values are of an arbitrary type, with
  \<open>JSON.stringify\<close> as a parameter; \<open>fetch\<close>, kafkajs, gzip, SHA-256, \<open>Math.random\<close> and \<open>Math.pow\<close> are parameters as
  well, as are the browser's number and time formats; where a theorem relies on one of them, the documented behaviour is a named hypothesis
  (\<open>codec_ok\<close>, \<open>random_unit\<close>, \<open>pow_positive\<close>, fresh identifiers), shown to be satisfiable by its witness.

  \<^bold>\<open>What is shown.\<close>
  \<^item> Reads see writes: in the storage engine, through a node's HTTP interface in every reachable state, and
    through the gateway past killed nodes.  A node's contents survive a crash; an accepted write reaches the
    replica and is acknowledged; a resolved replication promise names only nodes whose storage took
    the write over.
  \<^item> The linked list implements the recency list, the buckets implement use counting, the sketch
    estimate is the least cell, TinyLFU's victim is least frequent among the least recent; keys stay tracked
    under switching, automatic switches respect the cooldown, limits hold in every reachable state.
  \<^item> The binary search finds the clockwise successor, adding or removing a node moves only its keys, the
    gateway and the nodes agree on every key's owners, failover follows the ring, health follows the
    thresholds whatever the order of the answers.
  \<^item> Progress: while the nodes go on reading the topic every published write is taken over by the storage of all
    its replicas and its promise is settled; while no worker runs one task forever every submitted task is settled.
  \<^item> The pool loses no task, snapshots round-trip, a crash of the process while one is written leaves the
    old or the new one (except inside the overwrite of the pointer file), start attempts end, identifiers are distinct, the benchmark counts every operation, the Zipfian sampler is
    exact, percentiles are nearest-rank; the rendered page shows exactly the last successful poll.
  \<^item> Where the code does not do what its comments say, the theorem states what it does: a stale replicated
    write can win, the cleanup can delete a fresh value, a failed start discards the snapshot, a restart
    rolls back to the snapshot, a node's 400 becomes a 503, a large write can leave the store over its limit,
    a write accepted during a shutdown is lost, a crash inside the write of the pointer file makes it unreadable, a malformed body is answered with 500, a key with a percent
    sign can be written but not read.

  \<^bold>\<open>Termination and bounds.\<close>  No definition uses fuel.  Loops that are not structural have a measure: the
  eviction loop the gap between its guard and the store size, binary searches the interval, unit scaling
  the units left, mixtures of generators their size.  The start with retries is a recursion on the
  attempts left, at most five.

  \<^bold>\<open>Not modelled.\<close>  Rounding of floating point (results that depend on it are stated for exact numbers),
  sockets, Express's parsing and path matching, file system permissions, container and CI configuration.  Of
  logging, the lines of the HTTP middleware and the options given to pino are modelled, not the lines of the
  other classes.  React, which turns the element tree into the document, the chart library and the
  operating system's delivery of signals are outside the repository; a signal is a step of the process.
  Configuration numbers that no server can use (a fractional port, a negative interval) are parsed and not
  followed further.  Kafka is one topic that every node reads in order, possibly again from an earlier
  offset; partitions and retention are not modelled.
\<close>

end
